(* ===== verification/Prelude.thy ===== *)
theory Prelude
  imports Complex_Main "HOL-Library.Word"
begin

text \<open>
  Shared vocabulary of the development: the collections the component proofs draw on, the
  64-bit signed arithmetic of the C++ code (\<open>std::int64_t\<close>), and list lemmas about the
  operations \<open>std::vector\<close> is used with (erase of a prefix, remove-if, stable sort).
\<close>

named_theorems enum_defs \<open>codes, names and predicates of the enumerations\<close>
named_theorems op_defs \<open>definitions of the governor's operations\<close>
named_theorems codec \<open>a reader applied to what the matching writer wrote\<close>
named_theorems frame \<open>state components an operation leaves alone\<close>

type_synonym byte = "8 word"
type_synonym u32 = "32 word"
type_synonym u64 = "64 word"

subsection \<open>Signed 64-bit integers\<close>

text \<open>
  A value of type \<open>std::int64_t\<close> is an \<open>int\<close> in the range below. Overflow of signed
  arithmetic is undefined in C++; it is written out here as the two's complement result
  that the instruction sets of the supported compilers deliver.
\<close>

definition i64_min :: int where "i64_min = - 9223372036854775808"
definition i64_max :: int where "i64_max = 9223372036854775807"

definition in_i64 :: "int \<Rightarrow> bool" where
  "in_i64 x \<longleftrightarrow> i64_min \<le> x \<and> x \<le> i64_max"

definition i64 :: "int \<Rightarrow> int" where
  "i64 x = (x + 9223372036854775808) mod 18446744073709551616 - 9223372036854775808"

lemma i64_id [simp]: "in_i64 x \<Longrightarrow> i64 x = x"
  by (simp add: in_i64_def i64_def i64_min_def i64_max_def)

lemma in_i64_i64 [simp, intro]: "in_i64 (i64 x)"
proof -
  have "0 \<le> (x + 9223372036854775808) mod 18446744073709551616"
    and "(x + 9223372036854775808) mod 18446744073709551616 < 18446744073709551616"
    by simp_all
  then show ?thesis
    unfolding in_i64_def i64_def i64_min_def i64_max_def by linarith
qed

lemma i64_idem [simp]: "i64 (i64 x) = i64 x"
  by simp

lemma in_i64_0 [simp]: "in_i64 0"
  by (simp add: in_i64_def i64_min_def i64_max_def)

lemma i64_over:
  assumes "i64_max < x" and "x \<le> i64_max + 18446744073709551616"
  shows "i64 x = x - 18446744073709551616"
proof -
  have "(x + 9223372036854775808) mod 18446744073709551616 =
      (x + 9223372036854775808 - 18446744073709551616) mod 18446744073709551616"
    by (rule minus_mod_self2 [symmetric])
  also have "\<dots> = x + 9223372036854775808 - 18446744073709551616"
    using assms by (intro mod_pos_pos_trivial) (simp_all add: i64_max_def)
  finally show ?thesis by (simp add: i64_def)
qed

lemma i64_under:
  assumes "x < i64_min" and "i64_min - 18446744073709551616 \<le> x"
  shows "i64 x = x + 18446744073709551616"
proof -
  have "(x + 9223372036854775808) mod 18446744073709551616 =
      (x + 9223372036854775808 + 18446744073709551616) mod 18446744073709551616"
    by (rule mod_add_self2 [symmetric])
  also have "\<dots> = x + 9223372036854775808 + 18446744073709551616"
    using assms by (intro mod_pos_pos_trivial) (simp_all add: i64_min_def)
  finally show ?thesis by (simp add: i64_def)
qed

text \<open>\<open>static_cast\<close> between \<open>std::int64_t\<close> and \<open>std::uint64_t\<close>.\<close>

definition u64_of_i64 :: "int \<Rightarrow> u64" where "u64_of_i64 x = word_of_int x"
definition i64_of_u64 :: "u64 \<Rightarrow> int" where "i64_of_u64 w = sint w"

lemma i64_of_u64_range [simp]: "in_i64 (i64_of_u64 w)"
  using sint_range_size [of w]
  by (auto simp: i64_of_u64_def in_i64_def i64_min_def i64_max_def word_size)

lemma i64_of_u64_of_i64 [simp]: "in_i64 x \<Longrightarrow> i64_of_u64 (u64_of_i64 x) = x"
  unfolding i64_of_u64_def u64_of_i64_def in_i64_def i64_min_def i64_max_def
  by (simp add: int_word_sint)

lemma u64_of_i64_of_u64 [simp]: "u64_of_i64 (i64_of_u64 w) = w"
  by (simp add: i64_of_u64_def u64_of_i64_def)

text \<open>Integer division of C++ truncates towards zero; division by zero is guarded by the code.\<close>

definition trunc_div :: "int \<Rightarrow> int \<Rightarrow> int" where
  "trunc_div a b = (if b = 0 then 0 else sgn a * sgn b * (\<bar>a\<bar> div \<bar>b\<bar>))"

lemma trunc_div_pos: "0 \<le> a \<Longrightarrow> 0 < b \<Longrightarrow> trunc_div a b = a div b"
  by (cases "a = 0") (simp_all add: trunc_div_def)

lemma trunc_div_bucket:
  assumes "0 \<le> now" and "0 < interval"
  shows "trunc_div now interval * interval \<le> now"
    and "now < trunc_div now interval * interval + interval"
proof -
  have eq: "now div interval * interval + now mod interval = now"
    by simp
  have "0 \<le> now mod interval" and "now mod interval < interval"
    using assms by simp_all
  with eq have "now div interval * interval \<le> now"
    and "now < now div interval * interval + interval"
    by linarith+
  then show "trunc_div now interval * interval \<le> now"
    and "now < trunc_div now interval * interval + interval"
    using assms by (simp_all add: trunc_div_pos)
qed

subsection \<open>Vectors\<close>

text \<open>Keeping the most recent \<open>n\<close> elements: erase of the first \<open>size - n\<close>.\<close>

definition keep_last :: "nat \<Rightarrow> 'a list \<Rightarrow> 'a list" where
  "keep_last n xs = drop (length xs - n) xs"

lemma length_keep_last [simp]: "length (keep_last n xs) = min n (length xs)"
  by (auto simp: keep_last_def)

lemma set_keep_last: "set (keep_last n xs) \<subseteq> set xs"
  by (simp add: keep_last_def set_drop_subset)

lemma keep_last_all: "length xs \<le> n \<Longrightarrow> keep_last n xs = xs"
  by (simp add: keep_last_def)

lemma keep_last_idem [simp]: "keep_last n (keep_last n xs) = keep_last n xs"
  by (cases "length xs \<le> n") (simp_all add: keep_last_def)

lemma keep_last_suffix: "\<exists>pre. xs = pre @ keep_last n xs"
  by (metis append_take_drop_id keep_last_def)

lemma nth_sorted_mono:
  "sorted xs \<Longrightarrow> i \<le> j \<Longrightarrow> j < length xs \<Longrightarrow> xs ! i \<le> xs ! j"
  by (rule sorted_nth_mono)

lemma fold_max_ge:
  "(m :: 'a::linorder) \<le> fold max xs m"
  by (induction xs arbitrary: m) (auto intro: order_trans [OF max.cobounded2])

lemma fold_max_eq: "fold max xs (m :: 'a::linorder) = Max (insert m (set xs))"
  by (metis Max.set_eq_fold list.simps(15))

subsection \<open>Stable sorting with a comparison function\<close>

text \<open>
  \<open>std::stable_sort\<close> takes a comparison \<open>lt\<close>; the result is a permutation in which no later
  element is \<open>lt\<close> an earlier one and equivalent elements keep their order. The model is a stable
  insertion sort over the same comparison.
\<close>

fun insert_by :: "('a \<Rightarrow> 'a \<Rightarrow> bool) \<Rightarrow> 'a \<Rightarrow> 'a list \<Rightarrow> 'a list" where
  "insert_by lt x [] = [x]"
| "insert_by lt x (y # ys) = (if lt y x then y # insert_by lt x ys else x # y # ys)"

fun stable_sort :: "('a \<Rightarrow> 'a \<Rightarrow> bool) \<Rightarrow> 'a list \<Rightarrow> 'a list" where
  "stable_sort lt [] = []"
| "stable_sort lt (x # xs) = insert_by lt x (stable_sort lt xs)"

lemma set_insert_by [simp]: "set (insert_by lt x ys) = insert x (set ys)"
  by (induction ys) auto

lemma length_insert_by [simp]: "length (insert_by lt x ys) = Suc (length ys)"
  by (induction ys) auto

lemma set_stable_sort [simp]: "set (stable_sort lt xs) = set xs"
  by (induction xs) auto

lemma length_stable_sort [simp]: "length (stable_sort lt xs) = length xs"
  by (induction xs) auto

lemma distinct_insert_by [simp]:
  "distinct (insert_by lt x ys) \<longleftrightarrow> x \<notin> set ys \<and> distinct ys"
  by (induction ys) auto

lemma distinct_stable_sort [simp]: "distinct (stable_sort lt xs) \<longleftrightarrow> distinct xs"
  by (induction xs) auto

lemma stable_sort_Nil_iff [simp]: "stable_sort lt xs = [] \<longleftrightarrow> xs = []"
  by (metis length_0_conv length_stable_sort)

text \<open>
  The contract a comparison has to meet (\<open>Compare\<close> of the C++ library): a strict weak
  order on the values it is given. What a client may rely on then is proved once, in the locale.
\<close>

locale strict_weak_order =
  fixes lt :: "'a \<Rightarrow> 'a \<Rightarrow> bool" and valid :: "'a \<Rightarrow> bool"
  assumes asym: "valid x \<Longrightarrow> valid y \<Longrightarrow> lt x y \<Longrightarrow> \<not> lt y x"
    and neg_trans: "valid x \<Longrightarrow> valid y \<Longrightarrow> valid z \<Longrightarrow> \<not> lt x y \<Longrightarrow> \<not> lt y z \<Longrightarrow> \<not> lt x z"
begin

lemma irrefl: "valid x \<Longrightarrow> \<not> lt x x"
  using asym by blast

lemma insert_by_ordered:
  "valid x \<Longrightarrow> \<forall>y \<in> set ys. valid y \<Longrightarrow> sorted_wrt (\<lambda>a b. \<not> lt b a) ys \<Longrightarrow>
     sorted_wrt (\<lambda>a b. \<not> lt b a) (insert_by lt x ys)"
proof (induction ys)
  case (Cons y ys)
  show ?case
  proof (cases "lt y x")
    case True
    then have "\<not> lt x y" using Cons.prems asym by simp
    with True Cons show ?thesis by simp
  next
    case False
    have "\<not> lt z x" if "z \<in> set ys" for z
      using neg_trans [of z y x] that False Cons.prems by auto
    with False Cons.prems show ?thesis by simp
  qed
qed simp

lemma stable_sort_ordered:
  "\<forall>x \<in> set xs. valid x \<Longrightarrow> sorted_wrt (\<lambda>a b. \<not> lt b a) (stable_sort lt xs)"
  by (induction xs) (auto intro: insert_by_ordered)

lemma stable_sort_hd_minimal:
  assumes "\<forall>x \<in> set xs. valid x" and "x \<in> set xs"
  shows "\<not> lt x (hd (stable_sort lt xs))"
proof (cases "stable_sort lt xs")
  case Nil
  with assms show ?thesis by (metis empty_iff empty_set set_stable_sort)
next
  case (Cons y ys)
  have "sorted_wrt (\<lambda>a b. \<not> lt b a) (y # ys)"
    using stable_sort_ordered [OF assms(1)] Cons by simp
  moreover have "x \<in> set (y # ys)" and "valid x"
    using assms by (metis Cons set_stable_sort, blast)
  ultimately show ?thesis
    by (auto simp: Cons irrefl)
qed

text \<open>A loop that replaces its choice whenever an element comes before it ends with a least one.\<close>

lemma fold_least:
  assumes "valid b" and "\<forall>x \<in> set xs. valid x"
  shows "foldl (\<lambda>b x. if lt x b then x else b) b xs \<in> insert b (set xs) \<and>
    (\<forall>x \<in> insert b (set xs). \<not> lt x (foldl (\<lambda>b x. if lt x b then x else b) b xs))"
  using assms
proof (induction xs arbitrary: b)
  case (Cons x xs)
  let ?b = "if lt x b then x else b"
  let ?r = "foldl (\<lambda>b x. if lt x b then x else b) ?b xs"
  have IH: "?r \<in> insert ?b (set xs)" "\<forall>y \<in> insert ?b (set xs). \<not> lt y ?r"
    using Cons.IH [of ?b] Cons.prems by auto
  have v: "valid ?b" "valid ?r" "valid x" "valid b" using Cons.prems IH(1) by auto
  have "\<not> lt x ?b" and "\<not> lt b ?b" using asym [of x b] irrefl v by auto
  then have "\<not> lt x ?r" and "\<not> lt b ?r"
    using IH(2) neg_trans [of x ?b ?r] neg_trans [of b ?b ?r] v by blast+
  then show ?case using IH by (auto split: if_splits)
qed (simp add: irrefl)

text \<open>What a prefix of the sorted vector leaves out comes after what it holds.\<close>

lemma stable_sort_take:
  assumes "\<forall>x \<in> set xs. valid x" and "x \<in> set (take k (stable_sort lt xs))"
    and "y \<in> set (drop k (stable_sort lt xs))"
  shows "\<not> lt y x"
proof -
  have "sorted_wrt (\<lambda>a b. \<not> lt b a) (take k (stable_sort lt xs) @ drop k (stable_sort lt xs))"
    using stable_sort_ordered [OF assms(1)] by simp
  with assms(2,3) show ?thesis by (simp only: sorted_wrt_append) blast
qed

end

end
