(* ===== verification/Bytes.thy ===== *)
theory Bytes
  imports Prelude "HOL-Library.State_Monad" "HOL-Library.Monad_Syntax"
begin

unbundle bit_operations_syntax

text \<open>
  Little-endian byte strings: the writers and readers shared by the persistence format
  (\<open>Writer\<close>, \<open>Reader\<close> of governor.cpp) and by the wire protocol (\<open>Buf\<close>, \<open>Rd\<close> of tailgov_d.cpp).
  A writer appends bytes; a reader is a state transformer over the bytes not yet consumed and a
  flag that is cleared, for good, by the first read beyond the end. The locale \<open>codec\<close> is the
  contract between a writer and its reader.
\<close>

subsection \<open>Words as bytes\<close>

definition le_bytes :: "nat \<Rightarrow> 'a::len word \<Rightarrow> byte list" where
  "le_bytes k v = map (\<lambda>i. ucast (drop_bit (8 * i) v AND 255)) [0..<k]"

definition le_word :: "byte list \<Rightarrow> 'a::len word" where
  "le_word bs = fold (\<lambda>(i, b) v. v OR push_bit (8 * i) (ucast b)) (enumerate 0 bs) 0"

lemma length_le_bytes [simp]: "length (le_bytes k v) = k"
  by (simp add: le_bytes_def)

lemma bit_le_byte:
  assumes "i < k" and "j < 8"
  shows "bit (le_bytes k (v :: 'a::len word) ! i) j \<longleftrightarrow> bit v (8 * i + j)"
proof -
  have "bit (255 :: 'a word) j \<longleftrightarrow> j < LENGTH('a)"
  proof -
    have m: "(255 :: 'a word) = mask 8" by (simp add: mask_eq_decr_exp)
    show ?thesis unfolding m using assms(2) by (simp only: bit_mask_iff) simp
  qed
  then show ?thesis
    using assms by (auto simp: le_bytes_def bit_simps dest: bit_imp_le_length)
qed

lemma bit_le_word_aux:
  "bit (fold (\<lambda>(i, b) v. v OR push_bit (8 * i) (ucast b)) (enumerate m bs) (w :: 'a::len word)) n \<longleftrightarrow>
     bit w n \<or> n < LENGTH('a) \<and>
       (\<exists>i < length bs. 8 * (m + i) \<le> n \<and> bit (bs ! i) (n - 8 * (m + i)))"
proof (induction bs arbitrary: m w)
  case Nil
  then show ?case by simp
next
  case (Cons b bs)
  have "(\<exists>i < length (b # bs). 8 * (m + i) \<le> n \<and> bit ((b # bs) ! i) (n - 8 * (m + i))) \<longleftrightarrow>
      (8 * m \<le> n \<and> bit b (n - 8 * m)) \<or>
      (\<exists>i < length bs. 8 * (Suc m + i) \<le> n \<and> bit (bs ! i) (n - 8 * (Suc m + i)))"
    unfolding length_Cons Ex_less_Suc2 by simp
  moreover have "bit (w OR push_bit (8 * m) (ucast b)) n \<longleftrightarrow>
      bit w n \<or> n < LENGTH('a) \<and> 8 * m \<le> n \<and> bit b (n - 8 * m)"
    by (auto simp: bit_simps dest: bit_imp_le_length)
  ultimately show ?case
    using Cons.IH [of "Suc m" "w OR push_bit (8 * m) (ucast b)"] by (simp only: enumerate_simps fold_simps prod.case) blast
qed

lemma bit_le_word:
  "bit (le_word bs :: 'a::len word) n \<longleftrightarrow>
     n < LENGTH('a) \<and> n div 8 < length bs \<and> bit (bs ! (n div 8)) (n mod 8)"
proof -
  have "(\<exists>i < length bs. 8 * i \<le> n \<and> bit (bs ! i) (n - 8 * i)) \<longleftrightarrow>
      n div 8 < length bs \<and> bit (bs ! (n div 8)) (n mod 8)"
  proof
    assume "\<exists>i < length bs. 8 * i \<le> n \<and> bit (bs ! i) (n - 8 * i)"
    then obtain i where i: "i < length bs" "8 * i \<le> n" "bit (bs ! i) (n - 8 * i)" by blast
    from i(3) have "n - 8 * i < LENGTH(8)" by (rule bit_imp_le_length)
    then have "n - 8 * i < 8" by simp
    with i(2) have "n div 8 = i" by linarith
    moreover from this have "n mod 8 = n - 8 * i" by (metis minus_mult_div_eq_mod)
    ultimately show "n div 8 < length bs \<and> bit (bs ! (n div 8)) (n mod 8)" using i by simp
  next
    assume "n div 8 < length bs \<and> bit (bs ! (n div 8)) (n mod 8)"
    then show "\<exists>i < length bs. 8 * i \<le> n \<and> bit (bs ! i) (n - 8 * i)"
      by (intro exI [of _ "n div 8"]) (simp add: minus_mult_div_eq_mod)
  qed
  then show ?thesis
    using bit_le_word_aux [of 0 bs "0 :: 'a word" n] by (simp add: le_word_def)
qed

lemma le_word_le_bytes:
  assumes "LENGTH('a) \<le> 8 * k"
  shows "le_word (le_bytes k v) = (v :: 'a::len word)"
proof (rule bit_eqI)
  fix n
  assume "possible_bit TYPE('a word) n"
  then have n: "n < LENGTH('a)" by simp
  with assms have "n div 8 < k" by linarith
  then show "bit (le_word (le_bytes k v) :: 'a word) n = bit v n"
    using n by (simp add: bit_le_word bit_le_byte)
qed

lemma le_bytes_le_word:
  assumes "length bs = k" and "8 * k \<le> LENGTH('a)"
  shows "le_bytes k (le_word bs :: 'a::len word) = bs"
proof (rule nth_equalityI)
  fix i
  assume "i < length (le_bytes k (le_word bs :: 'a word))"
  then have i: "i < k" by simp
  show "le_bytes k (le_word bs :: 'a word) ! i = bs ! i"
  proof (rule bit_eqI)
    fix j
    assume "possible_bit TYPE(byte) j"
    then have j: "j < 8" by simp
    then have "(8 * i + j) div 8 = i" "(8 * i + j) mod 8 = j" "8 * i + j < LENGTH('a)"
      using i assms(2) by auto
    then show "bit (le_bytes k (le_word bs :: 'a word) ! i) j = bit (bs ! i) j"
      using i j assms(1) by (simp add: bit_le_byte bit_le_word)
  qed
qed (simp add: assms(1))

subsection \<open>Writers\<close>

definition put_u8 :: "byte \<Rightarrow> byte list" where "put_u8 v = [v]"
definition put_u32 :: "u32 \<Rightarrow> byte list" where "put_u32 v = le_bytes 4 v"
definition put_u64 :: "u64 \<Rightarrow> byte list" where "put_u64 v = le_bytes 8 v"
definition put_i64 :: "int \<Rightarrow> byte list" where "put_i64 v = put_u64 (u64_of_i64 v)"
definition put_bool :: "bool \<Rightarrow> byte list" where "put_bool b = put_u8 (if b then 1 else 0)"

subsection \<open>Readers\<close>

record Reader =
  rd_rest :: "byte list"
  rd_ok :: bool

definition rd_take :: "nat \<Rightarrow> Reader \<Rightarrow> byte list \<times> Reader" where
  "rd_take k r = (if length (rd_rest r) < k then ([], r\<lparr>rd_ok := False\<rparr>)
     else (take k (rd_rest r), r\<lparr>rd_rest := drop k (rd_rest r)\<rparr>))"

definition get_u8 :: "(Reader, byte) state" where
  "get_u8 = State (\<lambda>r. let (bs, r') = rd_take 1 r in (le_word bs, r'))"
definition get_u32 :: "(Reader, u32) state" where
  "get_u32 = State (\<lambda>r. let (bs, r') = rd_take 4 r in (le_word bs, r'))"
definition get_u64 :: "(Reader, u64) state" where
  "get_u64 = State (\<lambda>r. let (bs, r') = rd_take 8 r in (le_word bs, r'))"
definition get_i64 :: "(Reader, int) state" where
  "get_i64 = do { w \<leftarrow> get_u64; State_Monad.return (i64_of_u64 w) }"
definition get_bool :: "(Reader, bool) state" where
  "get_bool = do { b \<leftarrow> get_u8; State_Monad.return (b \<noteq> 0) }"

primrec get_many :: "nat \<Rightarrow> (Reader, 'a) state \<Rightarrow> (Reader, 'a list) state" where
  "get_many 0 g = State_Monad.return []"
| "get_many (Suc n) g = do { x \<leftarrow> g; xs \<leftarrow> get_many n g; State_Monad.return (x # xs) }"

abbreviation reading :: "byte list \<Rightarrow> bool \<Rightarrow> Reader" where
  "reading bs ok \<equiv> \<lparr>rd_rest = bs, rd_ok = ok\<rparr>"

lemma run_bind [simp]:
  "run_state (State_Monad.bind f g) s = (let (x, s') = run_state f s in run_state (g x) s')"
  by (simp add: State_Monad.bind_def split: prod.splits)

lemma run_return [simp]: "run_state (State_Monad.return x) s = (x, s)"
  by (simp add: State_Monad.return_def)

subsection \<open>The contract between a writer and its reader\<close>

locale codec =
  fixes enc :: "'a \<Rightarrow> byte list" and dec :: "(Reader, 'a) state" and valid :: "'a \<Rightarrow> bool"
  assumes decode: "valid x \<Longrightarrow> run_state dec (reading (enc x @ rest) ok) = (x, reading rest ok)"
begin

lemma decode_end: "valid x \<Longrightarrow> run_state dec (reading (enc x) ok) = (x, reading [] ok)"
  using decode [of x "[]"] by simp

lemma decode_many:
  "list_all valid xs \<Longrightarrow>
     run_state (get_many (length xs) dec) (reading (concat (map enc xs) @ rest) ok) =
       (xs, reading rest ok)"
proof (induction xs)
  case (Cons x xs)
  then show ?case using decode [of x "concat (map enc xs) @ rest" ok] by simp
qed simp

lemma enc_inj: "valid x \<Longrightarrow> valid y \<Longrightarrow> enc x = enc y \<Longrightarrow> x = y"
  by (metis decode_end prod.inject)

text \<open>No encoding is a proper prefix of another one, so encodings can be concatenated.\<close>

lemma enc_prefix_free:
  assumes "valid x" and "valid y" and "enc x @ r = enc y @ s"
  shows "x = y \<and> r = s"
proof -
  have "(x, reading r True) = (y, reading s True)"
    using decode [OF assms(1), of r True] decode [OF assms(2), of s True]
    unfolding assms(3) by (rule trans [OF sym])
  then show ?thesis by simp
qed

end

text \<open>A reader that reports the end of its input: it clears the flag exactly when bytes are missing.\<close>

locale fixed_codec = codec enc dec valid
  for enc :: "'a \<Rightarrow> byte list" and dec :: "(Reader, 'a) state" and valid :: "'a \<Rightarrow> bool" +
  fixes width :: nat
  assumes enc_length: "length (enc x) = width"
    and short: "length bs < width \<Longrightarrow> \<not> rd_ok (snd (run_state dec (reading bs ok)))"
begin

lemma enc_many_length: "length (concat (map enc xs)) = width * length xs"
  by (induction xs) (simp_all add: enc_length)

end

lemma rd_take_le_bytes [simp]:
  "rd_take k (reading (le_bytes k v @ rest) ok) = (le_bytes k v, reading rest ok)"
  by (simp add: rd_take_def)

lemma rd_take_short: "length bs < k \<Longrightarrow> rd_take k (reading bs ok) = ([], reading bs False)"
  by (simp add: rd_take_def)

interpretation u8: fixed_codec put_u8 get_u8 "\<lambda>_. True" 1
proof unfold_locales
  fix x :: byte and rest ok
  have "(255 :: byte) = - 1" by simp
  then have "x AND 255 = x" by (simp only: and.right_neutral)
  then have "put_u8 x = le_bytes 1 x" by (simp add: put_u8_def le_bytes_def)
  then show "run_state get_u8 (reading (put_u8 x @ rest) ok) = (x, reading rest ok)"
    by (simp add: get_u8_def le_word_le_bytes)
qed (simp_all add: put_u8_def get_u8_def rd_take_short)

interpretation u32: fixed_codec put_u32 get_u32 "\<lambda>_. True" 4
  by unfold_locales (simp_all add: put_u32_def get_u32_def le_word_le_bytes rd_take_short)

interpretation u64: fixed_codec put_u64 get_u64 "\<lambda>_. True" 8
  by unfold_locales (simp_all add: put_u64_def get_u64_def le_word_le_bytes rd_take_short)

interpretation i64: fixed_codec put_i64 get_i64 in_i64 8
proof unfold_locales
  show "\<not> rd_ok (snd (run_state get_i64 (reading bs ok)))" if "length bs < 8" for bs ok
    using u64.short [OF that, of ok] by (simp add: get_i64_def split_beta)
qed (simp_all add: put_i64_def get_i64_def u64.decode u64.enc_length)

interpretation bool_byte: fixed_codec put_bool get_bool "\<lambda>_. True" 1
proof unfold_locales
  show "\<not> rd_ok (snd (run_state get_bool (reading bs ok)))" if "length bs < 1" for bs ok
    using u8.short [OF that, of ok] by (simp add: get_bool_def split_beta)
qed (simp_all add: put_bool_def get_bool_def u8.decode u8.enc_length)

lemmas codec_decode [codec] = u8.decode u32.decode u64.decode i64.decode bool_byte.decode

lemmas codec_length [codec] =
  u8.enc_length u32.enc_length u64.enc_length i64.enc_length bool_byte.enc_length

end
