(* ===== verification/Enums.thy ===== *)
theory Enums
  imports Bytes
begin

text \<open>
  Enumerations that are stored or sent are cast to \<open>std::uint32_t\<close> and back. A cast back from a
  number that no enumerator has is a legal value of the enumeration type in C++; the models of
  those enumerations carry it as \<open>Unlisted k\<close>, the k-th code after the last enumerator. The locale
  \<open>enumeration\<close> is the contract of the two casts, and gives the codec.
\<close>

definition put_enum :: "('a \<Rightarrow> nat) \<Rightarrow> 'a \<Rightarrow> byte list" where
  "put_enum code x = put_u32 (of_nat (code x))"

definition get_enum :: "(nat \<Rightarrow> 'a) \<Rightarrow> (Reader, 'a) state" where
  "get_enum of_code = do { w \<leftarrow> get_u32; State_Monad.return (of_code (unat w)) }"

definition is_u32 :: "nat \<Rightarrow> bool" where "is_u32 c \<longleftrightarrow> int c < 4294967296"

text \<open>The order of two codes as values of the underlying type \<open>int\<close>.\<close>

definition int_of_code :: "nat \<Rightarrow> int" where
  "int_of_code c = (let i = int c in if 2147483648 \<le> i \<and> i < 4294967296 then i - 4294967296 else i)"

lemma int_of_code_inj: "int_of_code a = int_of_code b \<Longrightarrow> a = b"
  by (auto simp: int_of_code_def Let_def split: if_splits)

lemma nth_code:
  assumes "map code l = [0..<length l]" and "c < length l"
  shows "code (l ! c) = c"
proof -
  have "code (l ! c) = map code l ! c" using assms(2) by simp
  with assms show ?thesis by simp
qed

locale enumeration =
  fixes code :: "'a \<Rightarrow> nat" and of_code :: "nat \<Rightarrow> 'a"
  assumes of_code_code [simp]: "of_code (code x) = x"
    and code_of_code [simp]: "code (of_code c) = c"
begin

lemma code_inj: "code x = code y \<longleftrightarrow> x = y"
  by (metis of_code_code)

lemma ex_code: "\<exists>x. code x = c"
  by (metis code_of_code)

sublocale enum_codec: fixed_codec "put_enum code" "get_enum of_code" "\<lambda>x. is_u32 (code x)" 4
proof unfold_locales
  fix x rest ok
  assume "is_u32 (code x)"
  then have "unat (of_nat (code x) :: u32) = code x"
    by (simp add: is_u32_def unat_of_nat)
  then show "run_state (get_enum of_code) (reading (put_enum code x @ rest) ok) = (x, reading rest ok)"
    by (simp add: put_enum_def get_enum_def u32.decode)
next
  show "\<not> rd_ok (snd (run_state (get_enum of_code) (reading bs ok)))" if "length bs < 4" for bs ok
    using u32.short [OF that, of ok] by (simp add: get_enum_def split_beta)
qed (simp add: put_enum_def u32.enc_length)

end

end
