(* ===== verification/Status.thy ===== *)
theory Status
  imports Prelude
begin

text \<open>Typed statuses and the \<open>Result\<close> carrier (status.hpp): an error is a code with a message.\<close>

datatype StatusCode = OK | INVALID_INPUT | INSUFFICIENT_EVIDENCE | STALE_EVIDENCE | STALE_AUTHORITY
  | OBJECTIVE_INACTIVE | POLICY_SUPERSEDED | WINDOW_INVALID | INTERVENTION_INFEASIBLE
  | INTERVENTION_FAILED | OUTCOME_UNKNOWN | PERSISTENCE_CORRUPT | PROTOCOL_ERROR
  | RESOURCE_EXHAUSTED | CANCELLED | SHUTTING_DOWN

fun StatusCode_to_string :: "StatusCode \<Rightarrow> string" where
  "StatusCode_to_string OK = ''OK''"
| "StatusCode_to_string INVALID_INPUT = ''INVALID_INPUT''"
| "StatusCode_to_string INSUFFICIENT_EVIDENCE = ''INSUFFICIENT_EVIDENCE''"
| "StatusCode_to_string STALE_EVIDENCE = ''STALE_EVIDENCE''"
| "StatusCode_to_string STALE_AUTHORITY = ''STALE_AUTHORITY''"
| "StatusCode_to_string OBJECTIVE_INACTIVE = ''OBJECTIVE_INACTIVE''"
| "StatusCode_to_string POLICY_SUPERSEDED = ''POLICY_SUPERSEDED''"
| "StatusCode_to_string WINDOW_INVALID = ''WINDOW_INVALID''"
| "StatusCode_to_string INTERVENTION_INFEASIBLE = ''INTERVENTION_INFEASIBLE''"
| "StatusCode_to_string INTERVENTION_FAILED = ''INTERVENTION_FAILED''"
| "StatusCode_to_string OUTCOME_UNKNOWN = ''OUTCOME_UNKNOWN''"
| "StatusCode_to_string PERSISTENCE_CORRUPT = ''PERSISTENCE_CORRUPT''"
| "StatusCode_to_string PROTOCOL_ERROR = ''PROTOCOL_ERROR''"
| "StatusCode_to_string RESOURCE_EXHAUSTED = ''RESOURCE_EXHAUSTED''"
| "StatusCode_to_string CANCELLED = ''CANCELLED''"
| "StatusCode_to_string SHUTTING_DOWN = ''SHUTTING_DOWN''"

record Status =
  code :: StatusCode
  message :: string

definition status_ok :: Status where "status_ok = \<lparr>code = OK, message = ''''\<rparr>"

definition status :: "StatusCode \<Rightarrow> string \<Rightarrow> Status" where
  "status c msg = \<lparr>code = c, message = msg\<rparr>"

definition is_ok :: "Status \<Rightarrow> bool" where "is_ok s \<longleftrightarrow> code s = OK"

text \<open>\<open>Result<T>\<close>: a status on the left, a value on the right.\<close>

type_synonym 'a Result = "Status + 'a"

definition err :: "StatusCode \<Rightarrow> string \<Rightarrow> 'a Result" where
  "err c msg = Inl (status c msg)"

fun is_value :: "'a Result \<Rightarrow> bool" where
  "is_value (Inr _) = True"
| "is_value (Inl _) = False"

text \<open>The exception that reading the wrong side of a \<open>Result\<close> throws.\<close>

datatype TailGovernorError = TailGovernorError StatusCode string

definition tail_governor_error :: "StatusCode \<Rightarrow> string \<Rightarrow> TailGovernorError" where
  "tail_governor_error c msg =
     TailGovernorError c (if msg = [] then StatusCode_to_string c else msg)"

fun result_value :: "'a Result \<Rightarrow> TailGovernorError + 'a" where
  "result_value (Inr x) = Inr x"
| "result_value (Inl s) = Inl (tail_governor_error (code s) (message s))"

fun result_error :: "'a Result \<Rightarrow> TailGovernorError + Status" where
  "result_error (Inl s) = Inr s"
| "result_error (Inr x) = Inl (tail_governor_error INVALID_INPUT ''Result has no error'')"

lemma status_simps [simp]:
  "code (status c m) = c" "message (status c m) = m" "code status_ok = OK"
  "is_ok (status c m) \<longleftrightarrow> c = OK" "is_ok status_ok"
  by (simp_all add: status_def status_ok_def is_ok_def)

lemma status_eq_iff [simp]: "status c m = status c' m' \<longleftrightarrow> c = c' \<and> m = m'"
  by (simp add: status_def)

lemma err_not_value [simp]: "\<not> is_value (err c m)" "err c m \<noteq> Inr x" "Inr x \<noteq> err c m"
  by (simp_all add: err_def)

lemma err_eq_iff [simp]: "err c m = err c' m' \<longleftrightarrow> c = c' \<and> m = m'"
  by (simp add: err_def)

lemma StatusCode_to_string_inj: "StatusCode_to_string a = StatusCode_to_string b \<longleftrightarrow> a = b"
  by (cases a; cases b) simp_all

end
