(* ===== verification/Binary64.thy ===== *)
theory Binary64
  imports Prelude
begin

text \<open>
  IEEE 754 binary64, the \<open>double\<close> of the code, as far as the code uses it: literals, division,
  multiplication, addition, subtraction, \<open>std::ceil\<close>, comparisons and the casts to and from the
  integer types. A double is its bit pattern, as \<open>std::memcpy\<close> in the persistence code sees it.
  Every operation decodes its operands, computes exactly and rounds once, to nearest, ties to
  even. The second half relates the integer algorithm of the rounding to its meaning on reals.
\<close>

type_synonym double = u64

text \<open>Infinities and finite values carry their sign; \<open>Fin s m e\<close> stands for \<open>m\<close> times 2 to the \<open>e\<close>.\<close>

datatype fval = Nan | Inf bool | Fin bool int int

definition decode :: "double \<Rightarrow> fval" where
  "decode w =
     (let u = uint w; s = 9223372036854775808 \<le> u;
          ex = u div 4503599627370496 mod 2048; fr = u mod 4503599627370496
      in if ex = 2047 then (if fr = 0 then Inf s else Nan)
         else if ex = 0 then Fin s fr (- 1074)
         else Fin s (4503599627370496 + fr) (ex - 1075))"

fun encode :: "fval \<Rightarrow> double" where
  "encode Nan = word_of_int 9221120237041090560"
| "encode (Inf s) = word_of_int ((if s then 9223372036854775808 else 0) + 9218868437227405312)"
| "encode (Fin s m e) = word_of_int ((if s then 9223372036854775808 else 0) +
     (if m < 4503599627370496 then m else (e + 1075) * 4503599627370496 + (m - 4503599627370496)))"

declare encode.simps [simp del]

subsection \<open>Rounding\<close>

text \<open>The number of binary digits of a non-negative integer.\<close>

function nbits :: "int \<Rightarrow> int" where
  "nbits n = (if n \<le> 0 then 0 else 1 + nbits (n div 2))"
  by pat_completeness auto
termination by (relation "measure nat") auto

declare nbits.simps [simp del]

text \<open>\<open>a / b\<close> rounded to the nearest integer, ties to even.\<close>

definition rne :: "int \<Rightarrow> int \<Rightarrow> int" where
  "rne a b = (let q = a div b; r = a mod b
     in if 2 * r < b \<or> (2 * r = b \<and> even q) then q else q + 1)"

text \<open>The floor of the binary logarithm of \<open>a / b\<close>.\<close>

definition floor_log :: "int \<Rightarrow> int \<Rightarrow> int" where
  "floor_log a b = (let k = nbits a - nbits b
     in if a * 2 ^ nat (- k) < b * 2 ^ nat k then k - 1 else k)"

text \<open>
  \<open>(a / b) * 2 powi e\<close> in binary64: the exponent of the last place is chosen so that 53 digits
  remain, but never below the exponent of the subnormal numbers.
\<close>

definition round_exp :: "int \<Rightarrow> int \<Rightarrow> int \<Rightarrow> int" where
  "round_exp a b e = max (e + floor_log a b - 52) (- 1074)"

definition round_mant :: "int \<Rightarrow> int \<Rightarrow> int \<Rightarrow> int" where
  "round_mant a b e = (let d = round_exp a b e - e in rne (a * 2 ^ nat (- d)) (b * 2 ^ nat d))"

definition round_pos :: "bool \<Rightarrow> int \<Rightarrow> int \<Rightarrow> int \<Rightarrow> fval" where
  "round_pos s a b e =
     (let E = round_exp a b e; m = round_mant a b e;
          (m', E') = (if m = 9007199254740992 then (4503599627370496, E + 1) else (m, E))
      in if 972 \<le> E' then Inf s else Fin s m' E')"

text \<open>The exact value \<open>(a / b) * 2 powi e\<close> (\<open>b > 0\<close>), rounded; a zero result gets the sign \<open>zs\<close>.\<close>

definition round_val :: "bool \<Rightarrow> int \<Rightarrow> int \<Rightarrow> int \<Rightarrow> fval" where
  "round_val zs a b e =
     (if a = 0 then Fin zs 0 (- 1074)
      else if a < 0 then round_pos True (- a) b e else round_pos False a b e)"

subsection \<open>Operations\<close>

definition with_sign :: "bool \<Rightarrow> int \<Rightarrow> int" where
  "with_sign s m = (if s then - m else m)"

definition of_integer :: "int \<Rightarrow> double" where
  "of_integer n = encode (round_val False n 1 0)"

text \<open>A decimal literal, which the compiler rounds once: \<open>lit 9 10\<close> is \<open>0.9\<close>.\<close>

definition lit :: "int \<Rightarrow> int \<Rightarrow> double" where
  "lit a b = encode (round_val False a b 0)"

definition fmul :: "double \<Rightarrow> double \<Rightarrow> double" where
  "fmul x y = encode (case (decode x, decode y) of
     (Fin s m e, Fin t n f) \<Rightarrow> round_val (s \<noteq> t) (with_sign (s \<noteq> t) (m * n)) 1 (e + f)
   | (Inf s, Inf t) \<Rightarrow> Inf (s \<noteq> t)
   | (Inf s, Fin t n f) \<Rightarrow> (if n = 0 then Nan else Inf (s \<noteq> t))
   | (Fin s m e, Inf t) \<Rightarrow> (if m = 0 then Nan else Inf (s \<noteq> t))
   | _ \<Rightarrow> Nan)"

definition fdiv :: "double \<Rightarrow> double \<Rightarrow> double" where
  "fdiv x y = encode (case (decode x, decode y) of
     (Fin s m e, Fin t n f) \<Rightarrow>
       (if n = 0 then (if m = 0 then Nan else Inf (s \<noteq> t))
        else round_val (s \<noteq> t) (with_sign (s \<noteq> t) m) n (e - f))
   | (Inf s, Inf t) \<Rightarrow> Nan
   | (Inf s, Fin t n f) \<Rightarrow> Inf (s \<noteq> t)
   | (Fin s m e, Inf t) \<Rightarrow> Fin (s \<noteq> t) 0 (- 1074)
   | _ \<Rightarrow> Nan)"

definition fadd :: "double \<Rightarrow> double \<Rightarrow> double" where
  "fadd x y = encode (case (decode x, decode y) of
     (Fin s m e, Fin t n f) \<Rightarrow>
       (let k = min e f in
        round_val (s \<and> t) (with_sign s m * 2 ^ nat (e - k) + with_sign t n * 2 ^ nat (f - k)) 1 k)
   | (Inf s, Inf t) \<Rightarrow> (if s = t then Inf s else Nan)
   | (Inf s, Fin t n f) \<Rightarrow> Inf s
   | (Fin s m e, Inf t) \<Rightarrow> Inf t
   | _ \<Rightarrow> Nan)"

fun fneg_val :: "fval \<Rightarrow> fval" where
  "fneg_val Nan = Nan"
| "fneg_val (Inf s) = Inf (\<not> s)"
| "fneg_val (Fin s m e) = Fin (\<not> s) m e"

definition fsub :: "double \<Rightarrow> double \<Rightarrow> double" where
  "fsub x y = fadd x (encode (fneg_val (decode y)))"

text \<open>Comparisons; every comparison with a NaN is false.\<close>

definition flt :: "double \<Rightarrow> double \<Rightarrow> bool" where
  "flt x y = (case (decode x, decode y) of
     (Fin s m e, Fin t n f) \<Rightarrow>
       (let k = min e f in with_sign s m * 2 ^ nat (e - k) < with_sign t n * 2 ^ nat (f - k))
   | (Inf s, Inf t) \<Rightarrow> s \<and> \<not> t
   | (Inf s, Fin t n f) \<Rightarrow> s
   | (Fin s m e, Inf t) \<Rightarrow> \<not> t
   | _ \<Rightarrow> False)"

definition feq :: "double \<Rightarrow> double \<Rightarrow> bool" where
  "feq x y = (case (decode x, decode y) of
     (Fin s m e, Fin t n f) \<Rightarrow>
       (let k = min e f in with_sign s m * 2 ^ nat (e - k) = with_sign t n * 2 ^ nat (f - k))
   | (Inf s, Inf t) \<Rightarrow> s = t
   | _ \<Rightarrow> False)"

definition fle :: "double \<Rightarrow> double \<Rightarrow> bool" where
  "fle x y \<longleftrightarrow> flt x y \<or> feq x y"

text \<open>\<open>std::ceil\<close>; the ceiling of a number in (-1, 0] is a zero of the same sign.\<close>

definition ceil_div :: "int \<Rightarrow> int \<Rightarrow> int" where
  "ceil_div a b = - ((- a) div b)"

definition fceil :: "double \<Rightarrow> double" where
  "fceil x = (case decode x of
     Fin s m e \<Rightarrow> (if 0 \<le> e then x
       else encode (round_val s (ceil_div (with_sign s m) (2 ^ nat (- e))) 1 0))
   | _ \<Rightarrow> x)"

text \<open>
  Casts to the integer types truncate towards zero. A value that the type cannot hold is undefined
  behaviour; the model gives the value x86-64 delivers ("integer indefinite").
\<close>

definition truncate :: "bool \<Rightarrow> int \<Rightarrow> int \<Rightarrow> int" where
  "truncate s m e = with_sign s (if 0 \<le> e then m * 2 ^ nat e else m div 2 ^ nat (- e))"

definition to_i64 :: "double \<Rightarrow> int" where
  "to_i64 x = (case decode x of
     Fin s m e \<Rightarrow> (let v = truncate s m e in if in_i64 v then v else i64_min)
   | _ \<Rightarrow> i64_min)"

definition to_u64 :: "double \<Rightarrow> int" where
  "to_u64 x = (case decode x of
     Fin s m e \<Rightarrow> (let v = truncate s m e
        in if 0 \<le> v \<and> v < 18446744073709551616 then v else 9223372036854775808)
   | _ \<Rightarrow> 9223372036854775808)"

end
