(* ===== verification/Identity.thy ===== *)
theory Identity
  imports Bytes
begin

text \<open>
  Strongly typed 64-bit identities (identity.hpp). The phantom type parameter keeps the domains
  apart, as the tag of the C++ template does; ordering, hashing, the canonical big-endian bytes and
  the textual form are those of the underlying word.
\<close>

typedecl CoordinatorEpochTag
typedecl ServiceIdTag
typedecl ServiceGenerationTag
typedecl WorkloadIdTag
typedecl WorkloadGenerationTag
typedecl RequestIdTag
typedecl RequestClassIdTag
typedecl RequestGenerationTag
typedecl AttemptIdTag
typedecl AttemptGenerationTag
typedecl DispatchIdTag
typedecl WorkerIdTag
typedecl WorkerBootIdTag
typedecl EngineIdTag
typedecl EngineIncarnationIdTag
typedecl TailPolicyIdTag
typedecl TailPolicyGenerationTag
typedecl TailObjectiveIdTag
typedecl TailObjectiveGenerationTag
typedecl EvidenceIdTag
typedecl EvidenceGenerationTag
typedecl ObservationWindowIdTag
typedecl EvaluationIdTag
typedecl EvaluationGenerationTag
typedecl InterventionIdTag
typedecl InterventionGenerationTag
typedecl ResourceGenerationTag
typedecl QueueGenerationTag
typedecl BatchGenerationTag
typedecl ResidencyGenerationTag
typedecl RecoveryGenerationTag
typedecl TopologyGenerationTag

datatype 'tag Id = Id (id_value: u64)

type_synonym CoordinatorEpoch = "CoordinatorEpochTag Id"
type_synonym ServiceId = "ServiceIdTag Id"
type_synonym ServiceGeneration = "ServiceGenerationTag Id"
type_synonym WorkloadId = "WorkloadIdTag Id"
type_synonym WorkloadGeneration = "WorkloadGenerationTag Id"
type_synonym RequestId = "RequestIdTag Id"
type_synonym RequestClassId = "RequestClassIdTag Id"
type_synonym RequestGeneration = "RequestGenerationTag Id"
type_synonym AttemptId = "AttemptIdTag Id"
type_synonym AttemptGeneration = "AttemptGenerationTag Id"
type_synonym DispatchId = "DispatchIdTag Id"
type_synonym WorkerId = "WorkerIdTag Id"
type_synonym WorkerBootId = "WorkerBootIdTag Id"
type_synonym EngineId = "EngineIdTag Id"
type_synonym EngineIncarnationId = "EngineIncarnationIdTag Id"
type_synonym TailPolicyId = "TailPolicyIdTag Id"
type_synonym TailPolicyGeneration = "TailPolicyGenerationTag Id"
type_synonym TailObjectiveId = "TailObjectiveIdTag Id"
type_synonym TailObjectiveGeneration = "TailObjectiveGenerationTag Id"
type_synonym EvidenceId = "EvidenceIdTag Id"
type_synonym EvidenceGeneration = "EvidenceGenerationTag Id"
type_synonym ObservationWindowId = "ObservationWindowIdTag Id"
type_synonym EvaluationId = "EvaluationIdTag Id"
type_synonym EvaluationGeneration = "EvaluationGenerationTag Id"
type_synonym InterventionId = "InterventionIdTag Id"
type_synonym InterventionGeneration = "InterventionGenerationTag Id"
type_synonym ResourceGeneration = "ResourceGenerationTag Id"
type_synonym QueueGeneration = "QueueGenerationTag Id"
type_synonym BatchGeneration = "BatchGenerationTag Id"
type_synonym ResidencyGeneration = "ResidencyGenerationTag Id"
type_synonym RecoveryGeneration = "RecoveryGenerationTag Id"
type_synonym TopologyGeneration = "TopologyGenerationTag Id"

text \<open>The prefix of the textual form, which the template specialises per tag.\<close>

definition CoordinatorEpoch_prefix :: string where "CoordinatorEpoch_prefix = ''epoch''"
definition ServiceId_prefix :: string where "ServiceId_prefix = ''svc''"
definition ServiceGeneration_prefix :: string where "ServiceGeneration_prefix = ''svcgen''"
definition WorkloadId_prefix :: string where "WorkloadId_prefix = ''wl''"
definition WorkloadGeneration_prefix :: string where "WorkloadGeneration_prefix = ''wlgen''"
definition RequestId_prefix :: string where "RequestId_prefix = ''req''"
definition RequestClassId_prefix :: string where "RequestClassId_prefix = ''cls''"
definition RequestGeneration_prefix :: string where "RequestGeneration_prefix = ''reqgen''"
definition AttemptId_prefix :: string where "AttemptId_prefix = ''att''"
definition AttemptGeneration_prefix :: string where "AttemptGeneration_prefix = ''attgen''"
definition DispatchId_prefix :: string where "DispatchId_prefix = ''dsp''"
definition WorkerId_prefix :: string where "WorkerId_prefix = ''wk''"
definition WorkerBootId_prefix :: string where "WorkerBootId_prefix = ''boot''"
definition EngineId_prefix :: string where "EngineId_prefix = ''eng''"
definition EngineIncarnationId_prefix :: string where "EngineIncarnationId_prefix = ''enginc''"
definition TailPolicyId_prefix :: string where "TailPolicyId_prefix = ''pol''"
definition TailPolicyGeneration_prefix :: string where "TailPolicyGeneration_prefix = ''polgen''"
definition TailObjectiveId_prefix :: string where "TailObjectiveId_prefix = ''obj''"
definition TailObjectiveGeneration_prefix :: string where "TailObjectiveGeneration_prefix = ''objgen''"
definition EvidenceId_prefix :: string where "EvidenceId_prefix = ''ev''"
definition EvidenceGeneration_prefix :: string where "EvidenceGeneration_prefix = ''evgen''"
definition ObservationWindowId_prefix :: string where "ObservationWindowId_prefix = ''win''"
definition EvaluationId_prefix :: string where "EvaluationId_prefix = ''eval''"
definition EvaluationGeneration_prefix :: string where "EvaluationGeneration_prefix = ''evalgen''"
definition InterventionId_prefix :: string where "InterventionId_prefix = ''int''"
definition InterventionGeneration_prefix :: string where "InterventionGeneration_prefix = ''intgen''"
definition ResourceGeneration_prefix :: string where "ResourceGeneration_prefix = ''resgen''"
definition QueueGeneration_prefix :: string where "QueueGeneration_prefix = ''qgen''"
definition BatchGeneration_prefix :: string where "BatchGeneration_prefix = ''bgen''"
definition ResidencyGeneration_prefix :: string where "ResidencyGeneration_prefix = ''rgen''"
definition RecoveryGeneration_prefix :: string where "RecoveryGeneration_prefix = ''recgen''"
definition TopologyGeneration_prefix :: string where "TopologyGeneration_prefix = ''topogen''"

definition id_prefixes :: "string list" where
  "id_prefixes = [CoordinatorEpoch_prefix, ServiceId_prefix, ServiceGeneration_prefix,
     WorkloadId_prefix, WorkloadGeneration_prefix, RequestId_prefix,
     RequestClassId_prefix, RequestGeneration_prefix, AttemptId_prefix,
     AttemptGeneration_prefix, DispatchId_prefix, WorkerId_prefix,
     WorkerBootId_prefix, EngineId_prefix, EngineIncarnationId_prefix,
     TailPolicyId_prefix, TailPolicyGeneration_prefix, TailObjectiveId_prefix,
     TailObjectiveGeneration_prefix, EvidenceId_prefix, EvidenceGeneration_prefix,
     ObservationWindowId_prefix, EvaluationId_prefix, EvaluationGeneration_prefix,
     InterventionId_prefix, InterventionGeneration_prefix, ResourceGeneration_prefix,
     QueueGeneration_prefix, BatchGeneration_prefix, ResidencyGeneration_prefix,
     RecoveryGeneration_prefix, TopologyGeneration_prefix]"

datatype WorkerRole = NONE | WORKER_A | WORKER_B

subsection \<open>Operations\<close>

text \<open>The order of two identities is that of their values.\<close>

definition id_at_most :: "'tag Id \<Rightarrow> 'tag Id \<Rightarrow> bool" where "id_at_most a b \<longleftrightarrow> id_value a \<le> id_value b"
definition id_below :: "'tag Id \<Rightarrow> 'tag Id \<Rightarrow> bool" where "id_below a b \<longleftrightarrow> id_value a < id_value b"

declare id_at_most_def [simp] id_below_def [simp]

instantiation Id :: (type) linorder
begin

definition less_eq_Id :: "'a Id \<Rightarrow> 'a Id \<Rightarrow> bool" where "a \<le> b \<longleftrightarrow> id_at_most a b"
definition less_Id :: "'a Id \<Rightarrow> 'a Id \<Rightarrow> bool" where "a < b \<longleftrightarrow> id_below a b"

instance
  by standard (auto simp: less_eq_Id_def less_Id_def intro: Id.expand)

end

lemma Id_le [simp]: "Id a \<le> Id b \<longleftrightarrow> a \<le> b"
  by (simp add: less_eq_Id_def)

lemma Id_less [simp]: "Id a < Id b \<longleftrightarrow> a < b"
  by (simp add: less_Id_def)

definition id_nonzero :: "'tag Id \<Rightarrow> bool" where "id_nonzero i \<longleftrightarrow> id_value i \<noteq> 0"

text \<open>\<open>operator++\<close> wraps around, as unsigned arithmetic does.\<close>

definition id_incr :: "'tag Id \<Rightarrow> 'tag Id" where "id_incr i = Id (id_value i + 1)"

text \<open>The most significant byte comes first.\<close>

definition be_bytes :: "u64 \<Rightarrow> byte list" where "be_bytes v = rev (le_bytes 8 v)"

definition canonical_bytes :: "'tag Id \<Rightarrow> byte list" where
  "canonical_bytes i = be_bytes (id_value i)"

definition hex_digits :: string where "hex_digits = ''0123456789abcdef''"

fun hex_loop :: "nat \<Rightarrow> u64 \<Rightarrow> string \<Rightarrow> string" where
  "hex_loop 0 v buf = buf"
| "hex_loop (Suc n) v buf = hex_loop n (drop_bit 4 v) (hex_digits ! unat (v AND 15) # buf)"

definition Id_to_string :: "string \<Rightarrow> 'tag Id \<Rightarrow> string" where
  "Id_to_string prefix i = prefix @ ''#'' @ hex_loop 16 (id_value i) []"

text \<open>The finaliser that \<open>std::hash\<close> applies to the word.\<close>

definition id_hash :: "'tag Id \<Rightarrow> u64" where
  "id_hash i =
     (let x = id_value i;
          x = x XOR drop_bit 33 x; x = x * 0xff51afd7ed558ccd; x = x XOR drop_bit 33 x;
          x = x * 0xc4ceb9fe1a85ec53; x = x XOR drop_bit 33 x
      in x)"

subsection \<open>Canonical bytes and text identify the value\<close>

lemma canonical_bytes_roundtrip: "le_word (rev (canonical_bytes i)) = id_value i"
  by (simp add: canonical_bytes_def be_bytes_def le_word_le_bytes)

lemma canonical_bytes_inj: "canonical_bytes i = canonical_bytes j \<longleftrightarrow> i = j"
  by (metis canonical_bytes_roundtrip Id.expand)

lemma hex_loop_acc: "hex_loop n v buf = hex_loop n v [] @ buf"
proof (induction n arbitrary: v buf)
  case (Suc n)
  let ?c = "hex_digits ! unat (v AND 15)"
  have "hex_loop (Suc n) v buf = hex_loop n (drop_bit 4 v) [] @ ?c # buf"
    using Suc.IH [of "drop_bit 4 v" "?c # buf"] by simp
  moreover have "hex_loop (Suc n) v [] = hex_loop n (drop_bit 4 v) [] @ [?c]"
    using Suc.IH [of "drop_bit 4 v" "[?c]"] by simp
  ultimately show ?case by simp
qed simp

lemma length_hex_loop [simp]: "length (hex_loop n v buf) = n + length buf"
  by (induction n arbitrary: v buf) simp_all

lemma hex_digits_inj:
  assumes "a < 16" and "b < 16" and "hex_digits ! a = hex_digits ! b"
  shows "a = b"
proof -
  have "distinct hex_digits" and "length hex_digits = 16" by (simp_all add: hex_digits_def)
  with assms show ?thesis by (simp add: nth_eq_iff_index_eq)
qed

lemma nibble: "unat ((v :: u64) AND 15) = unat v mod 16"
proof -
  have m: "(15 :: u64) = mask 4" by (simp add: mask_eq_decr_exp)
  have "v AND 15 = v mod 16"
    unfolding m by (simp only: take_bit_eq_mask [symmetric]) (simp add: take_bit_eq_mod)
  then show ?thesis by (simp add: unat_mod)
qed

lemma hex_loop_inj:
  "unat v < 16 ^ n \<Longrightarrow> unat w < 16 ^ n \<Longrightarrow> hex_loop n v [] = hex_loop n w [] \<Longrightarrow> v = w"
proof (induction n arbitrary: v w)
  case 0
  then show ?case by (simp add: unat_eq_zero)
next
  case (Suc n)
  have d: "unat (drop_bit 4 x) = unat x div 16" for x :: u64
    by (simp add: drop_bit_eq_div unat_div)
  have "hex_loop n (drop_bit 4 v) [] = hex_loop n (drop_bit 4 w) []"
    and digit: "hex_digits ! unat (v AND 15) = hex_digits ! unat (w AND 15)"
    using Suc.prems(3) hex_loop_acc [of n "drop_bit 4 v" "[hex_digits ! unat (v AND 15)]"]
      hex_loop_acc [of n "drop_bit 4 w" "[hex_digits ! unat (w AND 15)]"] by simp_all
  moreover have "unat (drop_bit 4 v) < 16 ^ n" and "unat (drop_bit 4 w) < 16 ^ n"
    using Suc.prems(1,2) by (simp_all add: d less_mult_imp_div_less mult.commute)
  ultimately have "drop_bit 4 v = drop_bit 4 w" using Suc.IH by blast
  then have "unat v div 16 = unat w div 16" by (metis d)
  moreover have "unat v mod 16 = unat w mod 16"
    using hex_digits_inj [OF _ _ digit] by (simp add: nibble)
  ultimately have "unat v = unat w" by (metis div_mult_mod_eq)
  then show ?case by (rule unsigned_word_eqI)
qed

lemma Id_to_string_inj: "Id_to_string p i = Id_to_string p j \<longleftrightarrow> i = j"
proof
  assume "Id_to_string p i = Id_to_string p j"
  then have "hex_loop 16 (id_value i) [] = hex_loop 16 (id_value j) []"
    by (simp add: Id_to_string_def)
  moreover have "unat v < 16 ^ 16" for v :: u64
    using unsigned_less [of v] by simp
  ultimately show "i = j" using hex_loop_inj Id.expand by blast
qed simp

text \<open>No two domains share a prefix, so texts of different domains differ.\<close>

lemma id_prefixes_distinct: "distinct id_prefixes"
  by (simp add: id_prefixes_def CoordinatorEpoch_prefix_def ServiceId_prefix_def ServiceGeneration_prefix_def WorkloadId_prefix_def WorkloadGeneration_prefix_def RequestId_prefix_def RequestClassId_prefix_def RequestGeneration_prefix_def AttemptId_prefix_def AttemptGeneration_prefix_def DispatchId_prefix_def WorkerId_prefix_def WorkerBootId_prefix_def EngineId_prefix_def EngineIncarnationId_prefix_def TailPolicyId_prefix_def TailPolicyGeneration_prefix_def TailObjectiveId_prefix_def TailObjectiveGeneration_prefix_def EvidenceId_prefix_def EvidenceGeneration_prefix_def ObservationWindowId_prefix_def EvaluationId_prefix_def EvaluationGeneration_prefix_def InterventionId_prefix_def InterventionGeneration_prefix_def ResourceGeneration_prefix_def QueueGeneration_prefix_def BatchGeneration_prefix_def ResidencyGeneration_prefix_def RecoveryGeneration_prefix_def TopologyGeneration_prefix_def)

end
