(* ===== verification/Durations.thy ===== *)
theory Durations
  imports Status Binary64 Identity
begin

text \<open>
  Exact durations in integer nanoseconds (duration.hpp). The stored count is a signed 64-bit
  integer; \<open>+\<close> and \<open>-\<close> detect overflow by comparing the wrapped result with the left operand.
\<close>

datatype Duration = Duration (nanos: int)

definition duration_at_most :: "Duration \<Rightarrow> Duration \<Rightarrow> bool" where "duration_at_most a b \<longleftrightarrow> nanos a \<le> nanos b"
definition duration_below :: "Duration \<Rightarrow> Duration \<Rightarrow> bool" where "duration_below a b \<longleftrightarrow> nanos a < nanos b"

declare duration_at_most_def [simp] duration_below_def [simp]

instantiation Duration :: linorder
begin

definition less_eq_Duration :: "Duration \<Rightarrow> Duration \<Rightarrow> bool" where "a \<le> b \<longleftrightarrow> duration_at_most a b"
definition less_Duration :: "Duration \<Rightarrow> Duration \<Rightarrow> bool" where "a < b \<longleftrightarrow> duration_below a b"

instance
  by standard (auto simp: less_eq_Duration_def less_Duration_def intro: Duration.expand)

end

lemma Duration_le [simp]: "Duration a \<le> Duration b \<longleftrightarrow> a \<le> b"
  by (simp add: less_eq_Duration_def)

lemma Duration_less [simp]: "Duration a < Duration b \<longleftrightarrow> a < b"
  by (simp add: less_Duration_def)

definition from_nanos :: "int \<Rightarrow> Duration Result" where
  "from_nanos n = (if n < 0 then err INVALID_INPUT ''negative duration'' else Inr (Duration n))"

definition duration_zero :: Duration where "duration_zero = Duration 0"

definition is_zero :: "Duration \<Rightarrow> bool" where "is_zero d \<longleftrightarrow> nanos d = 0"

definition duration_add :: "Duration \<Rightarrow> Duration \<Rightarrow> Duration" where
  "duration_add a b = (let r = i64 (nanos a + nanos b) in Duration (if r < nanos a then i64_max else r))"

definition duration_sub :: "Duration \<Rightarrow> Duration \<Rightarrow> Duration" where
  "duration_sub a b = (let r = i64 (nanos a - nanos b) in Duration (if r > nanos a then i64_min else r))"

definition as_millis :: "Duration \<Rightarrow> double" where
  "as_millis d = fdiv (of_integer (nanos d)) (lit 1000000 1)"
definition as_micros :: "Duration \<Rightarrow> double" where
  "as_micros d = fdiv (of_integer (nanos d)) (lit 1000 1)"
definition as_seconds :: "Duration \<Rightarrow> double" where
  "as_seconds d = fdiv (of_integer (nanos d)) (lit 1000000000 1)"

text \<open>\<open>std::to_string\<close> of an integer: decimal, with a sign when negative.\<close>

definition digit_char :: "nat \<Rightarrow> char" where "digit_char d = char_of (48 + d)"

fun decimal :: "nat \<Rightarrow> string" where
  "decimal n = (if n < 10 then [digit_char n] else decimal (n div 10) @ [digit_char (n mod 10)])"

declare decimal.simps [simp del]

definition int_to_string :: "int \<Rightarrow> string" where
  "int_to_string n = (if n < 0 then CHR ''-'' # decimal (nat (- n)) else decimal (nat n))"

definition Duration_to_string :: "Duration \<Rightarrow> string" where
  "Duration_to_string d = int_to_string (nanos d) @ ''ns''"

definition write_canonical :: "Duration \<Rightarrow> byte list" where
  "write_canonical d = be_bytes (u64_of_i64 (nanos d))"

subsection \<open>Sums and differences\<close>

text \<open>Within the range, with a non-negative right operand, the sum is exact or saturates.\<close>

lemma duration_add_saturates:
  assumes "in_i64 (nanos a)" and "in_i64 (nanos b)" and "0 \<le> nanos b"
  shows "nanos (duration_add a b) = min i64_max (nanos a + nanos b)"
proof (cases "nanos a + nanos b \<le> i64_max")
  case True
  with assms have "in_i64 (nanos a + nanos b)" by (auto simp: in_i64_def)
  then show ?thesis using assms True by (simp add: duration_add_def Let_def)
next
  case False
  have "i64 (nanos a + nanos b) = nanos a + nanos b - 18446744073709551616"
    by (rule i64_over) (use assms False in \<open>simp_all add: in_i64_def i64_max_def\<close>)
  then show ?thesis
    using assms False by (simp add: duration_add_def Let_def in_i64_def i64_min_def i64_max_def)
qed

lemma duration_sub_saturates:
  assumes "in_i64 (nanos a)" and "in_i64 (nanos b)" and "0 \<le> nanos b"
  shows "nanos (duration_sub a b) = max i64_min (nanos a - nanos b)"
proof (cases "i64_min \<le> nanos a - nanos b")
  case True
  with assms have "in_i64 (nanos a - nanos b)" by (auto simp: in_i64_def)
  then show ?thesis using assms True by (simp add: duration_sub_def Let_def)
next
  case False
  have "i64 (nanos a - nanos b) = nanos a - nanos b + 18446744073709551616"
    by (rule i64_under) (use assms False in \<open>simp_all add: in_i64_def i64_min_def i64_max_def\<close>)
  then show ?thesis
    using assms False by (simp add: duration_sub_def Let_def in_i64_def i64_min_def i64_max_def)
qed

text \<open>A negative right operand is mistaken for an overflow: the test does not look at its sign.\<close>

lemma duration_add_negative:
  assumes "in_i64 (nanos a + nanos b)" and "nanos b < 0"
  shows "nanos (duration_add a b) = i64_max"
  using assms by (simp add: duration_add_def Let_def)

subsection \<open>The textual and canonical forms identify a duration\<close>

definition digits_value :: "string \<Rightarrow> nat" where
  "digits_value s = foldl (\<lambda>a c. 10 * a + (of_char c - 48)) 0 s"

lemma of_digit_char: "d < 10 \<Longrightarrow> of_char (digit_char d) = 48 + d"
  by (simp add: digit_char_def)

lemma digit_char_minus: "d < 10 \<Longrightarrow> digit_char d \<noteq> CHR ''-''"
  using of_digit_char [of d] by force

lemma digits_value_decimal: "digits_value (decimal n) = n"
proof (induction n rule: decimal.induct)
  case (1 n)
  then show ?case
    by (cases "n < 10") (simp_all add: decimal.simps [of n] digits_value_def of_digit_char)
qed

lemma decimal_no_minus: "CHR ''-'' \<notin> set (decimal n)"
proof (induction n rule: decimal.induct)
  case (1 n)
  show ?case
  proof (cases "n < 10")
    case True
    then show ?thesis using digit_char_minus [of n] by (auto simp: decimal.simps [of n])
  next
    case False
    then show ?thesis using 1 digit_char_minus [of "n mod 10"] by (auto simp: decimal.simps [of n])
  qed
qed

lemma int_to_string_inj: "int_to_string a = int_to_string b \<Longrightarrow> a = b"
proof -
  have hd: "decimal m \<noteq> CHR ''-'' # s" for m s
    using decimal_no_minus [of m] by (metis list.set_intros(1))
  assume "int_to_string a = int_to_string b"
  then consider "a < 0" "b < 0" "decimal (nat (- a)) = decimal (nat (- b))"
    | "0 \<le> a" "0 \<le> b" "decimal (nat a) = decimal (nat b)"
    using hd by (cases "a < 0"; cases "b < 0") (auto simp: int_to_string_def, metis hd)
  then show "a = b"
  proof cases
    case 1
    then have "nat (- a) = nat (- b)" by (metis digits_value_decimal)
    with 1 show ?thesis by simp
  next
    case 2
    then have "nat a = nat b" by (metis digits_value_decimal)
    with 2 show ?thesis by simp
  qed
qed

end
