(* ===== verification/Latency.thy ===== *)
theory Latency
  imports Enums Durations
begin

text \<open>
  Per-request latency evidence (latency.hpp): the phases a request spends its time in, its final
  status, and the record a worker reports for a completed request.
\<close>

datatype Phase = ADMISSION_WAIT | QUEUE_WAIT | BATCH_WAIT | PREFILL | DECODE | EXECUTION | TRANSFER
    | STATE_FETCH | MODEL_LOAD | ENGINE_WARMUP | MEMORY_RECLAIM | PREEMPTION_WAIT
    | RECOVERY_WAIT | RETRY_DELAY | BACKEND_WAIT | PUBLICATION | OTHER | Unlisted nat

fun Phase_to_string :: "Phase \<Rightarrow> string" where
  "Phase_to_string ADMISSION_WAIT = ''ADMISSION_WAIT''"
| "Phase_to_string QUEUE_WAIT = ''QUEUE_WAIT''"
| "Phase_to_string BATCH_WAIT = ''BATCH_WAIT''"
| "Phase_to_string PREFILL = ''PREFILL''"
| "Phase_to_string DECODE = ''DECODE''"
| "Phase_to_string EXECUTION = ''EXECUTION''"
| "Phase_to_string TRANSFER = ''TRANSFER''"
| "Phase_to_string STATE_FETCH = ''STATE_FETCH''"
| "Phase_to_string MODEL_LOAD = ''MODEL_LOAD''"
| "Phase_to_string ENGINE_WARMUP = ''ENGINE_WARMUP''"
| "Phase_to_string MEMORY_RECLAIM = ''MEMORY_RECLAIM''"
| "Phase_to_string PREEMPTION_WAIT = ''PREEMPTION_WAIT''"
| "Phase_to_string RECOVERY_WAIT = ''RECOVERY_WAIT''"
| "Phase_to_string RETRY_DELAY = ''RETRY_DELAY''"
| "Phase_to_string BACKEND_WAIT = ''BACKEND_WAIT''"
| "Phase_to_string PUBLICATION = ''PUBLICATION''"
| "Phase_to_string OTHER = ''OTHER''"
| "Phase_to_string (Unlisted k) = ''OTHER''"

fun Phase_code :: "Phase \<Rightarrow> nat" where
  "Phase_code ADMISSION_WAIT = 0"
| "Phase_code QUEUE_WAIT = 1"
| "Phase_code BATCH_WAIT = 2"
| "Phase_code PREFILL = 3"
| "Phase_code DECODE = 4"
| "Phase_code EXECUTION = 5"
| "Phase_code TRANSFER = 6"
| "Phase_code STATE_FETCH = 7"
| "Phase_code MODEL_LOAD = 8"
| "Phase_code ENGINE_WARMUP = 9"
| "Phase_code MEMORY_RECLAIM = 10"
| "Phase_code PREEMPTION_WAIT = 11"
| "Phase_code RECOVERY_WAIT = 12"
| "Phase_code RETRY_DELAY = 13"
| "Phase_code BACKEND_WAIT = 14"
| "Phase_code PUBLICATION = 15"
| "Phase_code OTHER = 16"
| "Phase_code (Unlisted k) = 17 + k"

definition Phase_list :: "Phase list" where
  "Phase_list = [ADMISSION_WAIT, QUEUE_WAIT, BATCH_WAIT, PREFILL,
     DECODE, EXECUTION, TRANSFER, STATE_FETCH,
     MODEL_LOAD, ENGINE_WARMUP, MEMORY_RECLAIM, PREEMPTION_WAIT,
     RECOVERY_WAIT, RETRY_DELAY, BACKEND_WAIT, PUBLICATION,
     OTHER]"

definition Phase_of_code :: "nat \<Rightarrow> Phase" where
  "Phase_of_code c = (if c < 17 then Phase_list ! c else Unlisted (c - 17))"

lemma Phase_code_of_code: "Phase_code (Phase_of_code c) = c"
proof (cases "c < length Phase_list")
  case True
  have "map Phase_code Phase_list = [0..<length Phase_list]"
    by (simp add: Phase_list_def upt_rec)
  from nth_code [OF this True] True show ?thesis by (simp add: Phase_of_code_def Phase_list_def)
next
  case False
  then show ?thesis by (simp add: Phase_of_code_def Phase_list_def)
qed

lemma Phase_of_code_code: "Phase_of_code (Phase_code x) = x"
  by (cases x) (simp_all add: Phase_of_code_def Phase_list_def)

interpretation phase_enum: enumeration Phase_code Phase_of_code
  by unfold_locales (simp_all add: Phase_code_of_code Phase_of_code_code)

text \<open>\<open>std::map<Phase, ...>\<close> orders phases by their underlying integer.\<close>

instantiation Phase :: linorder
begin

definition less_eq_Phase :: "Phase \<Rightarrow> Phase \<Rightarrow> bool" where
  "a \<le> b \<longleftrightarrow> int_of_code (Phase_code a) \<le> int_of_code (Phase_code b)"
definition less_Phase :: "Phase \<Rightarrow> Phase \<Rightarrow> bool" where
  "a < b \<longleftrightarrow> int_of_code (Phase_code a) < int_of_code (Phase_code b)"

instance
  by standard (auto simp: less_eq_Phase_def less_Phase_def dest: int_of_code_inj simp: phase_enum.code_inj)

end

datatype RequestStatus = SUCCESS | FAILED | TIMEOUT | CANCELLED | AMBIGUOUS | Unlisted nat

fun RequestStatus_to_string :: "RequestStatus \<Rightarrow> string" where
  "RequestStatus_to_string SUCCESS = ''SUCCESS''"
| "RequestStatus_to_string FAILED = ''FAILED''"
| "RequestStatus_to_string TIMEOUT = ''TIMEOUT''"
| "RequestStatus_to_string CANCELLED = ''CANCELLED''"
| "RequestStatus_to_string AMBIGUOUS = ''AMBIGUOUS''"
| "RequestStatus_to_string (Unlisted k) = ''UNKNOWN''"

fun RequestStatus_code :: "RequestStatus \<Rightarrow> nat" where
  "RequestStatus_code SUCCESS = 0"
| "RequestStatus_code FAILED = 1"
| "RequestStatus_code TIMEOUT = 2"
| "RequestStatus_code CANCELLED = 3"
| "RequestStatus_code AMBIGUOUS = 4"
| "RequestStatus_code (Unlisted k) = 5 + k"

definition RequestStatus_list :: "RequestStatus list" where
  "RequestStatus_list = [SUCCESS, FAILED, TIMEOUT, CANCELLED,
     AMBIGUOUS]"

definition RequestStatus_of_code :: "nat \<Rightarrow> RequestStatus" where
  "RequestStatus_of_code c = (if c < 5 then RequestStatus_list ! c else Unlisted (c - 5))"

lemma RequestStatus_code_of_code: "RequestStatus_code (RequestStatus_of_code c) = c"
proof (cases "c < length RequestStatus_list")
  case True
  have "map RequestStatus_code RequestStatus_list = [0..<length RequestStatus_list]"
    by (simp add: RequestStatus_list_def upt_rec)
  from nth_code [OF this True] True show ?thesis by (simp add: RequestStatus_of_code_def RequestStatus_list_def)
next
  case False
  then show ?thesis by (simp add: RequestStatus_of_code_def RequestStatus_list_def)
qed

lemma RequestStatus_of_code_code: "RequestStatus_of_code (RequestStatus_code x) = x"
  by (cases x) (simp_all add: RequestStatus_of_code_def RequestStatus_list_def)

interpretation request_status_enum: enumeration RequestStatus_code RequestStatus_of_code
  by unfold_locales (simp_all add: RequestStatus_code_of_code RequestStatus_of_code_code)

record PhaseLatency =
  pl_phase :: Phase
  pl_duration :: Duration

record RequestLatency =
  rl_request_id :: RequestId
  rl_request_class :: RequestClassId
  rl_service :: ServiceId
  rl_workload :: WorkloadId
  rl_attempt :: AttemptId
  rl_request_generation :: RequestGeneration
  rl_workload_generation :: WorkloadGeneration
  rl_service_generation :: ServiceGeneration
  rl_attempt_generation :: AttemptGeneration
  rl_arrival_ns :: int
  rl_admission_ns :: int
  rl_dispatch_ns :: int
  rl_execution_start_ns :: int
  rl_completion_ns :: int
  rl_publication_ns :: int
  rl_total_latency :: Duration
  rl_phases :: "PhaseLatency list"
  rl_status :: RequestStatus
  rl_retry_count :: u32
  rl_worker :: WorkerId
  rl_worker_boot :: WorkerBootId
  rl_epoch :: CoordinatorEpoch
  rl_evidence_id :: EvidenceId
  rl_evidence_generation :: EvidenceGeneration
  rl_captured_ns :: int

text \<open>A default-constructed record.\<close>

definition request_latency_default :: RequestLatency where
  "request_latency_default = \<lparr>rl_request_id = Id 0, rl_request_class = Id 0, rl_service = Id 0,
     rl_workload = Id 0, rl_attempt = Id 0, rl_request_generation = Id 0,
     rl_workload_generation = Id 0, rl_service_generation = Id 0, rl_attempt_generation = Id 0,
     rl_arrival_ns = 0, rl_admission_ns = 0, rl_dispatch_ns = 0, rl_execution_start_ns = 0,
     rl_completion_ns = 0, rl_publication_ns = 0, rl_total_latency = Duration 0, rl_phases = [],
     rl_status = SUCCESS, rl_retry_count = 0, rl_worker = Id 0, rl_worker_boot = Id 0,
     rl_epoch = Id 0, rl_evidence_id = Id 0, rl_evidence_generation = Id 0, rl_captured_ns = 0\<rparr>"

definition has_publication :: "RequestLatency \<Rightarrow> bool" where
  "has_publication r \<longleftrightarrow> rl_publication_ns r > 0"

definition is_authoritative_completion :: "RequestLatency \<Rightarrow> bool" where
  "is_authoritative_completion r \<longleftrightarrow>
     rl_status r = SUCCESS \<and> has_publication r \<and> rl_publication_ns r \<ge> rl_completion_ns r"

definition resolved_total :: "RequestLatency \<Rightarrow> Duration Result" where
  "resolved_total r =
     (if has_publication r \<and> rl_publication_ns r \<ge> rl_arrival_ns r
      then (case from_nanos (i64 (rl_publication_ns r - rl_arrival_ns r)) of
              Inl s \<Rightarrow> err (code s) (message s) | Inr d \<Rightarrow> Inr d)
      else if rl_completion_ns r \<ge> rl_arrival_ns r
      then (case from_nanos (i64 (rl_completion_ns r - rl_arrival_ns r)) of
              Inl s \<Rightarrow> err (code s) (message s) | Inr d \<Rightarrow> Inr d)
      else err INVALID_INPUT ''cannot reconcile request latency'')"

lemma Phase_to_string_listed_inj:
  "Phase_code a < 17 \<Longrightarrow> Phase_code b < 17 \<Longrightarrow> Phase_to_string a = Phase_to_string b \<longleftrightarrow> a = b"
  by (cases a; cases b) simp_all

text \<open>A reconciled total is never negative.\<close>

lemma resolved_total_nonneg: "resolved_total r = Inr d \<Longrightarrow> 0 \<le> nanos d"
  by (auto simp: resolved_total_def from_nanos_def err_def split: if_splits)

lemma resolved_total_published:
  assumes "is_authoritative_completion r" and "rl_arrival_ns r \<le> rl_publication_ns r"
    and "in_i64 (rl_publication_ns r - rl_arrival_ns r)"
  shows "resolved_total r = Inr (Duration (rl_publication_ns r - rl_arrival_ns r))"
  using assms by (simp add: resolved_total_def is_authoritative_completion_def from_nanos_def)

end
