(* ===== verification/Rounding.thy ===== *)
theory Rounding
  imports Binary64
begin

text \<open>
  What the rounding of the theory Binary64 means: on a non-negative real, \<open>rn\<close> keeps 53 binary
  digits (fewer for subnormal numbers) and rounds to nearest, ties to even. The integer algorithm
  computes \<open>rn\<close>; \<open>rn\<close> is monotone, leaves representable numbers alone and has a relative error of
  at most 2 to the -53 on normal numbers. Products, quotients and casts inherit this.
\<close>

subsection \<open>Powers of two and the binary logarithm\<close>

lemma powi_pos [simp]: "0 < (2 :: real) powi k"
  by (simp add: zero_less_power_int)

lemma powi_add: "(2 :: real) powi (a + b) = 2 powi a * 2 powi b"
  by (simp add: power_int_add)

lemma powi_diff: "(2 :: real) powi (a - b) = 2 powi a / 2 powi b"
  by (simp add: power_int_diff)

lemma powi_nat: "0 \<le> k \<Longrightarrow> (2 :: real) powi k = 2 ^ nat k"
  by (simp add: power_int_def)

lemma powi_mono: "a \<le> b \<Longrightarrow> (2 :: real) powi a \<le> 2 powi b"
  by (simp add: power_int_increasing)

lemma powi_less_iff: "(2 :: real) powi a < 2 powi b \<longleftrightarrow> a < b"
  using power_int_strict_increasing [of a b "2 :: real"] powi_mono [of b a] by fastforce

lemma pow_split: "(2 :: real) ^ nat k / 2 ^ nat (- k) = 2 powi k"
  by (cases "0 \<le> k") (simp_all add: power_int_def field_simps)

lemma nbits_bounds:
  "0 < n \<Longrightarrow> 1 \<le> nbits n \<and> 2 ^ nat (nbits n - 1) \<le> n \<and> n < 2 ^ nat (nbits n)"
proof (induction n rule: nbits.induct)
  case (1 n)
  show ?case
  proof (cases "n = 1")
    case True
    then show ?thesis by (simp add: nbits.simps)
  next
    case False
    with "1.prems" have h: "0 < n div 2" "\<not> n \<le> 0" by auto
    with "1.IH" have IH: "1 \<le> nbits (n div 2)" "2 ^ nat (nbits (n div 2) - 1) \<le> n div 2"
      "n div 2 < 2 ^ nat (nbits (n div 2))" by simp_all
    have e: "nat (nbits n - 1) = Suc (nat (nbits (n div 2) - 1))"
      "nat (nbits n) = Suc (nat (nbits (n div 2)))"
      using h IH(1) nbits.simps [of n] by simp_all
    have "2 * 2 ^ nat (nbits (n div 2) - 1) \<le> n" using IH(2) by linarith
    moreover have "n < 2 * 2 ^ nat (nbits (n div 2))" using IH(3) by linarith
    ultimately show ?thesis using e IH(1) h nbits.simps [of n] by simp
  qed
qed

lemma nbits_real:
  assumes "0 < n"
  shows "2 powi (nbits n - 1) \<le> real_of_int n" and "real_of_int n < 2 powi (nbits n)"
proof -
  from nbits_bounds [OF assms] have b: "1 \<le> nbits n" "2 ^ nat (nbits n - 1) \<le> n"
    "n < 2 ^ nat (nbits n)" by simp_all
  from b(2) have "real_of_int (2 ^ nat (nbits n - 1)) \<le> real_of_int n" by (rule of_int_le_iff [THEN iffD2])
  with b(1) show "2 powi (nbits n - 1) \<le> real_of_int n" by (simp add: powi_nat)
  from b(3) have "real_of_int n < real_of_int (2 ^ nat (nbits n))" by (rule of_int_less_iff [THEN iffD2])
  with b(1) show "real_of_int n < 2 powi (nbits n)" by (simp add: powi_nat)
qed

lemma floor_log_bounds:
  assumes "0 < a" and "0 < b"
  shows "2 powi floor_log a b \<le> real_of_int a / real_of_int b"
    and "real_of_int a / real_of_int b < 2 powi (floor_log a b + 1)"
proof -
  let ?k = "nbits a - nbits b" and ?x = "real_of_int a / real_of_int b"
  have b0: "0 < real_of_int b" using assms by simp
  have lo: "2 powi (?k - 1) < ?x"
  proof -
    have "2 powi (?k - 1) * real_of_int b < 2 powi (?k - 1) * 2 powi (nbits b)"
      using nbits_real(2) [OF assms(2)] by simp
    also have "\<dots> = 2 powi (nbits a - 1)" by (simp flip: powi_add)
    also have "\<dots> \<le> real_of_int a" by (rule nbits_real(1) [OF assms(1)])
    finally show ?thesis using b0 by (simp add: field_simps)
  qed
  have hi: "?x < 2 powi (?k + 1)"
  proof -
    have "real_of_int a < 2 powi (nbits a)" by (rule nbits_real(2) [OF assms(1)])
    also have "\<dots> = 2 powi (?k + 1) * 2 powi (nbits b - 1)" by (simp flip: powi_add)
    also have "\<dots> \<le> 2 powi (?k + 1) * real_of_int b"
      using nbits_real(1) [OF assms(2)] by simp
    finally show ?thesis using b0 by (simp add: field_simps)
  qed
  have test: "a * 2 ^ nat (- ?k) < b * 2 ^ nat ?k \<longleftrightarrow> ?x < 2 powi ?k"
  proof -
    have "a * 2 ^ nat (- ?k) < b * 2 ^ nat ?k \<longleftrightarrow>
        real_of_int a * 2 ^ nat (- ?k) < real_of_int b * 2 ^ nat ?k"
      by (subst of_int_less_iff [where 'a = real, symmetric]) simp
    also have "\<dots> \<longleftrightarrow> ?x < 2 ^ nat ?k / 2 ^ nat (- ?k)"
      using b0 by (simp add: field_simps)
    finally show ?thesis by (simp only: pow_split)
  qed
  show "2 powi floor_log a b \<le> ?x" and "?x < 2 powi (floor_log a b + 1)"
    using lo hi test by (simp_all add: floor_log_def Let_def)
qed

lemma floor_log_unique:
  assumes "2 powi k \<le> x" and "x < 2 powi (k + 1)"
  shows "\<lfloor>log 2 x\<rfloor> = k"
proof -
  have "0 < x" using assms(1) by (meson less_le_trans powi_pos)
  then show ?thesis
    using assms by (subst floor_log_eq_powr_iff) (simp_all flip: of_int_add add: powr_real_of_int')
qed

lemma log_powi_bounds:
  assumes "0 < x"
  shows "2 powi \<lfloor>log 2 x\<rfloor> \<le> x" and "x < 2 powi (\<lfloor>log 2 x\<rfloor> + 1)"
  using floor_log_eq_powr_iff [of x 2 "\<lfloor>log 2 x\<rfloor>"] assms
  by (simp_all add: powr_real_of_int' flip: of_int_add)

lemma floor_log_scaled:
  assumes "0 < a" and "0 < b"
  shows "\<lfloor>log 2 (real_of_int a / real_of_int b * 2 powi e)\<rfloor> = e + floor_log a b"
proof (rule floor_log_unique)
  show "2 powi (e + floor_log a b) \<le> real_of_int a / real_of_int b * 2 powi e"
    using mult_right_mono [OF floor_log_bounds(1) [OF assms], of "2 powi e"]
    by (simp add: powi_add mult.commute)
  show "real_of_int a / real_of_int b * 2 powi e < 2 powi (e + floor_log a b + 1)"
    using mult_strict_right_mono [OF floor_log_bounds(2) [OF assms] powi_pos [of e]]
    by (simp add: powi_add mult.commute mult.left_commute)
qed

subsection \<open>Rounding to an integer\<close>

definition rint :: "real \<Rightarrow> int" where
  "rint x = (if x - \<lfloor>x\<rfloor> < 1 / 2 \<or> (x - \<lfloor>x\<rfloor> = 1 / 2 \<and> even \<lfloor>x\<rfloor>) then \<lfloor>x\<rfloor> else \<lfloor>x\<rfloor> + 1)"

lemma rint_of_int [simp]: "rint (real_of_int n) = n"
  by (simp add: rint_def)

lemma rint_error: "\<bar>real_of_int (rint x) - x\<bar> \<le> 1 / 2"
  unfolding rint_def by (auto split: if_splits)

lemma rint_mono:
  assumes "x \<le> y"
  shows "rint x \<le> rint y"
proof (cases "\<lfloor>x\<rfloor> = \<lfloor>y\<rfloor>")
  case True
  with assms show ?thesis by (auto simp: rint_def)
next
  case False
  with assms have "\<lfloor>x\<rfloor> + 1 \<le> \<lfloor>y\<rfloor>" using floor_mono [OF assms] by linarith
  moreover have "rint x \<le> \<lfloor>x\<rfloor> + 1" and "\<lfloor>y\<rfloor> \<le> rint y" by (simp_all add: rint_def)
  ultimately show ?thesis by linarith
qed

lemma rint_nonneg: "0 \<le> x \<Longrightarrow> 0 \<le> rint x"
  using rint_mono [of 0 x] rint_of_int [of 0] by simp

lemma rne_rint:
  assumes "0 < b"
  shows "rne a b = rint (real_of_int a / real_of_int b)"
proof -
  let ?x = "real_of_int a / real_of_int b"
  have fl: "\<lfloor>?x\<rfloor> = a div b" by (simp add: floor_divide_of_int_eq)
  have "real_of_int a = real_of_int (a div b) * real_of_int b + real_of_int (a mod b)"
    by (metis div_mult_mod_eq of_int_add of_int_mult)
  then have fr: "?x - real_of_int (a div b) = real_of_int (a mod b) / real_of_int b"
    using assms by (simp add: field_simps)
  have c1: "?x - real_of_int (a div b) < 1 / 2 \<longleftrightarrow> 2 * (a mod b) < b"
    unfolding fr using assms by (simp add: field_simps) linarith
  have c2: "?x - real_of_int (a div b) = 1 / 2 \<longleftrightarrow> 2 * (a mod b) = b"
    unfolding fr using assms by (simp add: field_simps) linarith
  show ?thesis
    unfolding rint_def fl c1 c2 by (simp add: rne_def Let_def)
qed

subsection \<open>The rounding function and its laws\<close>

definition rn_exp :: "real \<Rightarrow> int" where
  "rn_exp x = max (\<lfloor>log 2 x\<rfloor> - 52) (- 1074)"

definition rn :: "real \<Rightarrow> real" where
  "rn x = real_of_int (rint (x / 2 powi rn_exp x)) * 2 powi rn_exp x"

lemma rn_0 [simp]: "rn 0 = 0"
  using rint_of_int [of 0] by (simp add: rn_def)

lemma rn_nonneg: "0 \<le> x \<Longrightarrow> 0 \<le> rn x"
  by (simp add: rn_def rint_nonneg less_imp_le)

lemma rn_exp_mono: "0 < x \<Longrightarrow> x \<le> y \<Longrightarrow> rn_exp x \<le> rn_exp y"
  unfolding rn_exp_def by (intro max.mono diff_right_mono floor_mono) simp_all

lemma rn_le_pow:
  assumes "0 < x"
  shows "rn x \<le> 2 powi (rn_exp x + 53)"
proof -
  have "x < 2 powi (\<lfloor>log 2 x\<rfloor> + 1)" by (rule log_powi_bounds(2) [OF assms])
  also have "\<dots> \<le> 2 powi (rn_exp x + 53)" by (rule powi_mono) (simp add: rn_exp_def)
  finally have "x / 2 powi rn_exp x \<le> real_of_int (2 ^ 53)"
    by (simp add: powi_add powi_nat field_simps)
  then have "rint (x / 2 powi rn_exp x) \<le> 2 ^ 53"
    using rint_mono rint_of_int by metis
  then have "real_of_int (rint (x / 2 powi rn_exp x)) \<le> real_of_int (2 ^ 53)"
    by (simp only: of_int_le_iff)
  then have "rn x \<le> 2 ^ 53 * 2 powi rn_exp x"
    unfolding rn_def by (intro mult_right_mono) simp_all
  then show ?thesis by (simp add: powi_add powi_nat mult.commute)
qed

lemma rn_ge_pow:
  assumes "0 < x" and "- 1074 < rn_exp x"
  shows "2 powi (rn_exp x + 52) \<le> rn x"
proof -
  have E: "rn_exp x = \<lfloor>log 2 x\<rfloor> - 52" using assms(2) by (simp add: rn_exp_def max_def split: if_splits)
  have "2 powi (rn_exp x + 52) \<le> x" using log_powi_bounds(1) [OF assms(1)] E by simp
  then have "real_of_int (2 ^ 52) \<le> x / 2 powi rn_exp x"
    by (simp add: powi_add powi_nat field_simps)
  then have "2 ^ 52 \<le> rint (x / 2 powi rn_exp x)"
    using rint_mono rint_of_int by metis
  then have "real_of_int (2 ^ 52) \<le> real_of_int (rint (x / 2 powi rn_exp x))"
    by (simp only: of_int_le_iff)
  then have "2 ^ 52 * 2 powi rn_exp x \<le> rn x"
    unfolding rn_def by (intro mult_right_mono) simp_all
  then show ?thesis by (simp add: powi_add powi_nat mult.commute)
qed

lemma rn_mono:
  assumes "0 \<le> x" and "x \<le> y"
  shows "rn x \<le> rn y"
proof -
  consider "x = 0" | "0 < x" "rn_exp x = rn_exp y" | "0 < x" "rn_exp x < rn_exp y"
    using assms rn_exp_mono [of x y] by force
  then show ?thesis
  proof cases
    case 1
    with assms show ?thesis by (simp add: rn_nonneg)
  next
    case 2
    have "x / 2 powi rn_exp y \<le> y / 2 powi rn_exp y"
      using assms(2) by (intro divide_right_mono) (simp_all add: less_imp_le)
    then have "rint (x / 2 powi rn_exp y) \<le> rint (y / 2 powi rn_exp y)" by (rule rint_mono)
    with 2 show ?thesis by (simp add: rn_def)
  next
    case 3
    then have y: "0 < y" "- 1074 < rn_exp y" using assms by (auto simp: rn_exp_def)
    have "rn x \<le> 2 powi (rn_exp x + 53)" by (rule rn_le_pow) (rule 3(1))
    also have "\<dots> \<le> 2 powi (rn_exp y + 52)" using 3 by (intro powi_mono) simp
    also have "\<dots> \<le> rn y" by (rule rn_ge_pow) (fact y)+
    finally show ?thesis .
  qed
qed

lemma rn_fix_aux:
  assumes "0 < m" and "m < 9007199254740992" and "- 1074 \<le> E"
  shows "rn (real_of_int m * 2 powi E) = real_of_int m * 2 powi E"
proof -
  let ?x = "real_of_int m * 2 powi E"
  have x0: "0 < ?x" using assms by simp
  have "real_of_int m < 2 ^ 53" using assms(2) by simp
  then have "?x < 2 ^ 53 * 2 powi E" by simp
  also have "\<dots> = 2 powi (E + 53)" by (simp add: powi_add powi_nat)
  finally have "2 powi \<lfloor>log 2 ?x\<rfloor> < (2 :: real) powi (E + 53)"
    using log_powi_bounds(1) [OF x0] by linarith
  then have le: "rn_exp ?x \<le> E" using assms(3) by (simp add: powi_less_iff rn_exp_def)
  then have "?x / 2 powi rn_exp ?x = real_of_int (m * 2 ^ nat (E - rn_exp ?x))"
    by (simp add: power_int_diff flip: powi_nat)
  then have "real_of_int (rint (?x / 2 powi rn_exp ?x)) = ?x / 2 powi rn_exp ?x"
    using rint_of_int by metis
  then show ?thesis unfolding rn_def by simp
qed

lemma rn_fix:
  assumes "0 \<le> m" and "m \<le> 9007199254740992" and "- 1074 \<le> E"
  shows "rn (real_of_int m * 2 powi E) = real_of_int m * 2 powi E"
proof -
  consider "m = 0" | "0 < m" "m < 9007199254740992" | "m = 9007199254740992"
    using assms by linarith
  then show ?thesis
  proof cases
    case 3
    have "real_of_int m * 2 powi E = real_of_int 4503599627370496 * 2 powi (E + 1)"
      using 3 by (simp add: powi_add)
    then show ?thesis using rn_fix_aux [of 4503599627370496 "E + 1"] assms(3) by simp
  qed (use assms rn_fix_aux in auto)
qed

lemma rn_int: "0 \<le> m \<Longrightarrow> m \<le> 9007199254740992 \<Longrightarrow> rn (real_of_int m) = real_of_int m"
  using rn_fix [of m 0] by simp

lemma rn_error:
  assumes "2 powi (- 1022) \<le> x"
  shows "\<bar>rn x - x\<bar> \<le> x / 2 ^ 53"
proof -
  have x0: "0 < x" using assms by (meson less_le_trans powi_pos)
  have "2 powi (- 1022) < (2 :: real) powi (\<lfloor>log 2 x\<rfloor> + 1)"
    using assms log_powi_bounds(2) [OF x0] by linarith
  then have "- 1022 < \<lfloor>log 2 x\<rfloor> + 1" by (simp only: powi_less_iff)
  then have E: "rn_exp x = \<lfloor>log 2 x\<rfloor> - 52" unfolding rn_exp_def by linarith
  have "rn x - x = (real_of_int (rint (x / 2 powi rn_exp x)) - x / 2 powi rn_exp x) * 2 powi rn_exp x"
    by (simp add: rn_def left_diff_distrib)
  then have "\<bar>rn x - x\<bar> = \<bar>real_of_int (rint (x / 2 powi rn_exp x)) - x / 2 powi rn_exp x\<bar> * 2 powi rn_exp x"
    by (simp add: abs_mult)
  also have "\<dots> \<le> 1 / 2 * 2 powi rn_exp x"
    by (rule mult_right_mono [OF rint_error]) (simp add: less_imp_le)
  also have "\<dots> = 2 powi \<lfloor>log 2 x\<rfloor> / 2 ^ 53"
    unfolding E by (simp add: powi_diff powi_nat)
  also have "\<dots> \<le> x / 2 ^ 53" using log_powi_bounds(1) [OF x0] by (simp add: divide_right_mono)
  finally show ?thesis .
qed

subsection \<open>The algorithm computes the rounding\<close>

text \<open>The decoded values that a bit pattern can stand for.\<close>

fun canonical :: "fval \<Rightarrow> bool" where
  "canonical (Fin s m e) \<longleftrightarrow>
     (0 \<le> m \<and> m < 4503599627370496 \<and> e = - 1074) \<or>
     (4503599627370496 \<le> m \<and> m < 9007199254740992 \<and> - 1074 \<le> e \<and> e \<le> 971)"
| "canonical _ = True"

lemma canonical_decode: "canonical (decode w)"
proof -
  have "uint w div 4503599627370496 mod 2048 < 2048" by simp
  then show ?thesis by (auto simp: decode_def Let_def)
qed

lemma decode_word:
  assumes "0 \<le> ex" "ex < 2048" "0 \<le> fr" "fr < 4503599627370496"
  shows "decode (word_of_int ((if s then 9223372036854775808 else 0) + ex * 4503599627370496 + fr)) =
    (if ex = 2047 then (if fr = 0 then Inf s else Nan)
     else if ex = 0 then Fin s fr (- 1074) else Fin s (4503599627370496 + fr) (ex - 1075))"
proof -
  let ?u = "(if s then 9223372036854775808 else 0) + ex * 4503599627370496 + fr"
  have "0 \<le> ?u" and "?u < 18446744073709551616" using assms by auto
  then have u: "uint (word_of_int ?u :: double) = ?u"
    by (simp only: uint_word_of_int) (simp add: take_bit_int_eq_self)
  have sg: "(9223372036854775808 \<le> ?u) = s" using assms by auto
  have eq: "?u = fr + ((if s then 2048 else 0) + ex) * 4503599627370496" by simp
  have d: "?u div 4503599627370496 = (if s then 2048 else 0) + ex"
    unfolding eq using assms by (subst div_mult_self1) simp_all
  have r: "?u mod 4503599627370496 = fr"
    unfolding eq using assms by (subst mod_mult_self1) simp
  have x: "((if s then 2048 else 0) + ex) mod 2048 = ex" using assms by auto
  show ?thesis unfolding decode_def Let_def u sg d r x by simp
qed

lemma decode_encode: "canonical v \<Longrightarrow> decode (encode v) = v"
proof (cases v)
  case Nan
  then show ?thesis using decode_word [of 2047 "2251799813685248" False] by (simp add: encode.simps)
next
  case (Inf s)
  then show ?thesis using decode_word [of 2047 0 s] by (simp add: encode.simps)
next
  case (Fin s m e)
  assume c: "canonical v"
  show ?thesis
  proof (cases "m < 4503599627370496")
    case True
    then show ?thesis using Fin c decode_word [of 0 m s] by (auto simp: encode.simps)
  next
    case False
    then show ?thesis
      using Fin c decode_word [of "e + 1075" "m - 4503599627370496" s]
      by (auto simp: add.assoc encode.simps)
  qed
qed

fun fval_real :: "fval \<Rightarrow> real" where
  "fval_real (Fin s m e) = (if s then - 1 else 1) * real_of_int m * 2 powi e"
| "fval_real _ = 0"

lemma fval_real_with_sign: "fval_real (Fin s m e) = real_of_int (with_sign s m) * 2 powi e"
  by (simp add: with_sign_def)

fun is_fin :: "fval \<Rightarrow> bool" where
  "is_fin (Fin s m e) = True"
| "is_fin _ = False"

lemma is_fin_iff: "is_fin v \<longleftrightarrow> (\<exists>s m e. v = Fin s m e)"
  by (cases v) auto

text \<open>Rounding of a real of either sign.\<close>

definition rnd :: "real \<Rightarrow> real" where
  "rnd x = (if x < 0 then - rn (- x) else rn x)"

lemma rnd_nonneg: "0 \<le> x \<Longrightarrow> rnd x = rn x"
  by (simp add: rnd_def)

lemma round_exp_rn:
  assumes ab: "0 < a" "0 < b"
  shows "round_exp a b e = rn_exp (real_of_int a / real_of_int b * 2 powi e)"
  using floor_log_scaled [OF ab, of e] by (simp add: round_exp_def rn_exp_def)

lemma round_mant_rint:
  assumes ab: "0 < a" "0 < b"
  shows "round_mant a b e =
     rint (real_of_int a / real_of_int b * 2 powi e / 2 powi round_exp a b e)"
proof -
  let ?d = "round_exp a b e - e"
  have "round_mant a b e =
      rint (real_of_int (a * 2 ^ nat (- ?d)) / real_of_int (b * 2 ^ nat ?d))"
    unfolding round_mant_def Let_def using ab by (intro rne_rint) simp
  also have "real_of_int (a * 2 ^ nat (- ?d)) / real_of_int (b * 2 ^ nat ?d) =
      real_of_int a / real_of_int b * (2 ^ nat (- ?d) / 2 ^ nat ?d)"
    by simp
  also have "(2 :: real) ^ nat (- ?d) / 2 ^ nat ?d = 2 powi (e - round_exp a b e)"
    using pow_split [of "- ?d"] by simp
  finally show ?thesis by (simp add: powi_diff)
qed

lemma round_mant_rn:
  assumes ab: "0 < a" "0 < b"
  shows "real_of_int (round_mant a b e) * 2 powi round_exp a b e =
     rn (real_of_int a / real_of_int b * 2 powi e)"
  by (simp add: rn_def round_mant_rint [OF ab] round_exp_rn [OF ab])

lemma round_mant_bounds:
  assumes ab: "0 < a" "0 < b"
  shows "0 \<le> round_mant a b e" and "round_mant a b e \<le> 9007199254740992"
    and "round_mant a b e < 4503599627370496 \<Longrightarrow> round_exp a b e = - 1074"
proof -
  let ?x = "real_of_int a / real_of_int b * 2 powi e"
  have x0: "0 < ?x" using ab by simp
  show "0 \<le> round_mant a b e"
    unfolding round_mant_rint [OF ab] using x0
    by (intro rint_nonneg divide_nonneg_nonneg) (simp_all add: less_imp_le)
  have "real_of_int (round_mant a b e) * 2 powi round_exp a b e \<le> 2 ^ 53 * 2 powi round_exp a b e"
    unfolding round_mant_rn [OF ab] using rn_le_pow [OF x0]
    by (simp add: powi_add powi_nat round_exp_rn [OF ab] mult.commute)
  then have "real_of_int (round_mant a b e) \<le> 2 ^ 53" by (simp only: mult_le_cancel_right_pos powi_pos)
  then show "round_mant a b e \<le> 9007199254740992" by simp
  assume lt: "round_mant a b e < 4503599627370496"
  show "round_exp a b e = - 1074"
  proof (rule ccontr)
    assume "round_exp a b e \<noteq> - 1074"
    then have "- 1074 < rn_exp ?x" by (simp add: round_exp_rn [OF ab] rn_exp_def)
    from rn_ge_pow [OF x0 this]
    have "2 ^ 52 * 2 powi round_exp a b e \<le> real_of_int (round_mant a b e) * 2 powi round_exp a b e"
      unfolding round_mant_rn [OF ab] by (simp add: powi_add powi_nat round_exp_rn [OF ab] mult.commute)
    then have "2 ^ 52 \<le> real_of_int (round_mant a b e)"
      by (simp only: mult_le_cancel_right_pos powi_pos)
    with lt show False by simp
  qed
qed

lemma round_pos_canonical:
  assumes ab: "0 < a" "0 < b"
  shows "canonical (round_pos s a b e)"
proof -
  have "- 1074 \<le> round_exp a b e" by (simp add: round_exp_def)
  moreover have "round_mant a b e < 4503599627370496 \<longrightarrow> round_exp a b e = - 1074"
    using round_mant_bounds(3) [OF ab] by blast
  ultimately show ?thesis
    using round_mant_bounds(1,2) [OF ab, of e] by (auto simp: round_pos_def Let_def)
qed

lemma round_pos_value:
  assumes ab: "0 < a" "0 < b"
    and assms: "real_of_int a / real_of_int b * 2 powi e < 2 powi 1023"
  shows "is_fin (round_pos s a b e) \<and>
    fval_real (round_pos s a b e) =
      (if s then - 1 else 1) * rn (real_of_int a / real_of_int b * 2 powi e)"
proof -
  let ?x = "real_of_int a / real_of_int b * 2 powi e"
  have x0: "0 < ?x" using ab by simp
  have "2 powi \<lfloor>log 2 ?x\<rfloor> < (2 :: real) powi 1023"
    using log_powi_bounds(1) [OF x0] assms by linarith
  then have "\<lfloor>log 2 ?x\<rfloor> < 1023" by (simp only: powi_less_iff)
  then have E: "round_exp a b e \<le> 970" unfolding round_exp_rn [OF ab] rn_exp_def by linarith
  have two: "real_of_int 4503599627370496 * 2 powi (round_exp a b e + 1) =
      real_of_int 9007199254740992 * 2 powi round_exp a b e"
    by (simp add: powi_add)
  show ?thesis
  proof (cases "round_mant a b e = 9007199254740992")
    case True
    then have "round_pos s a b e = Fin s 4503599627370496 (round_exp a b e + 1)"
      using E by (simp add: round_pos_def Let_def)
    then show ?thesis
      unfolding round_mant_rn [OF ab, symmetric] True
      by (simp only: is_fin.simps fval_real.simps two mult.assoc)
  next
    case False
    then have "round_pos s a b e = Fin s (round_mant a b e) (round_exp a b e)"
      using E by (simp add: round_pos_def Let_def)
    then show ?thesis
      unfolding round_mant_rn [OF ab, symmetric]
      by (simp only: is_fin.simps fval_real.simps mult.assoc)
  qed
qed

lemma round_val_canonical: "0 < b \<Longrightarrow> canonical (round_val zs a b e)"
  using round_pos_canonical [of a b] round_pos_canonical [of "- a" b] by (simp add: round_val_def)

lemma round_val_value:
  assumes "0 < b" and lt: "\<bar>real_of_int a / real_of_int b * 2 powi e\<bar> < 2 powi 1023"
  shows "is_fin (round_val zs a b e) \<and>
    fval_real (round_val zs a b e) = rnd (real_of_int a / real_of_int b * 2 powi e)"
proof -
  let ?x = "real_of_int a / real_of_int b * 2 powi e"
  have neg: "real_of_int (- a) / real_of_int b * 2 powi e = - ?x" by simp
  consider "a = 0" | "0 < a" | "a < 0" by linarith
  then show ?thesis
  proof cases
    case 1
    then show ?thesis by (simp add: round_val_def rnd_def)
  next
    case 2
    have "?x < 2 powi 1023" using lt by linarith
    with 2 assms(1) have "is_fin (round_pos False a b e) \<and> fval_real (round_pos False a b e) = rn ?x"
      using round_pos_value [of a b e False] by simp
    moreover have "0 < ?x" using 2 assms(1) by simp
    ultimately show ?thesis using 2 by (simp add: round_val_def rnd_def)
  next
    case 3
    have "- ?x < 2 powi 1023" using lt by linarith
    with 3 assms(1) have "is_fin (round_pos True (- a) b e) \<and>
        fval_real (round_pos True (- a) b e) = - rn (- ?x)"
      using round_pos_value [of "- a" b e True, unfolded neg] by simp
    moreover have "?x < 0" using 3 assms(1) by (intro mult_neg_pos divide_neg_pos) simp_all
    ultimately show ?thesis using 3 by (simp add: round_val_def rnd_def)
  qed
qed

subsection \<open>The operations on reals\<close>

definition dval :: "double \<Rightarrow> real" where
  "dval x = fval_real (decode x)"

definition fp_finite :: "double \<Rightarrow> bool" where
  "fp_finite x \<longleftrightarrow> is_fin (decode x)"

lemma fp_finite_encode:
  "canonical v \<Longrightarrow> fp_finite (encode v) \<longleftrightarrow> is_fin v"
  by (simp add: fp_finite_def decode_encode)

lemma dval_encode: "canonical v \<Longrightarrow> dval (encode v) = fval_real v"
  by (simp add: dval_def decode_encode)

lemma encode_round:
  assumes "0 < b" and "\<bar>real_of_int a / real_of_int b * 2 powi e\<bar> < 2 powi 1023"
  shows "fp_finite (encode (round_val zs a b e))"
    and "dval (encode (round_val zs a b e)) = rnd (real_of_int a / real_of_int b * 2 powi e)"
  using round_val_value [OF assms, of zs] round_val_canonical [OF assms(1), of zs a e]
  by (simp_all add: fp_finite_encode dval_encode)

lemma of_integer_value:
  assumes "\<bar>real_of_int n\<bar> < 2 powi 1023"
  shows "fp_finite (of_integer n)" and "dval (of_integer n) = rnd (real_of_int n)"
  using encode_round [of 1 n 0] assms by (simp_all add: of_integer_def)

lemma pow1023_large: "(18446744073709551616 :: real) < 2 powi 1023"
proof -
  have "(18446744073709551616 :: real) = 2 powi 64" by simp
  also have "\<dots> < 2 powi 1023" by (simp only: powi_less_iff)
  finally show ?thesis .
qed

lemma of_integer_exact:
  assumes "\<bar>n\<bar> \<le> 9007199254740992"
  shows "fp_finite (of_integer n)" and "dval (of_integer n) = real_of_int n"
proof -
  have "\<bar>real_of_int n\<bar> < 2 powi 1023" using assms pow1023_large by linarith
  note v = of_integer_value [OF this]
  show "fp_finite (of_integer n)" by (rule v)
  show "dval (of_integer n) = real_of_int n"
    using assms rn_int [of n] rn_int [of "- n"] by (auto simp: v(2) rnd_def)
qed

lemma encode_round_int:
  assumes "\<bar>n\<bar> \<le> 9007199254740992"
  shows "fp_finite (encode (round_val s n 1 0)) \<and> dval (encode (round_val s n 1 0)) = real_of_int n"
proof -
  have lt: "\<bar>real_of_int n\<bar> < 2 powi 1023" using assms pow1023_large by linarith
  have "rnd (real_of_int n) = real_of_int n"
    using of_integer_exact(2) [OF assms] of_integer_value(2) [OF lt] by simp
  then show ?thesis using encode_round [of 1 n 0 s] lt by simp
qed

lemma lit_value:
  assumes "0 < b" and "\<bar>real_of_int a / real_of_int b\<bar> < 2 powi 1023"
  shows "fp_finite (lit a b)" and "dval (lit a b) = rnd (real_of_int a / real_of_int b)"
  using encode_round [of b a 0] assms by (simp_all add: lit_def)

lemma fmul_value:
  assumes "fp_finite x" and "fp_finite y" and "\<bar>dval x * dval y\<bar> < 2 powi 1023"
  shows "fp_finite (fmul x y)" and "dval (fmul x y) = rnd (dval x * dval y)"
proof -
  obtain s m e where x: "decode x = Fin s m e" using assms(1) by (auto simp: fp_finite_def is_fin_iff)
  obtain t n f where y: "decode y = Fin t n f" using assms(2) by (auto simp: fp_finite_def is_fin_iff)
  have eq: "real_of_int (with_sign (s \<noteq> t) (m * n)) / real_of_int 1 * 2 powi (e + f) = dval x * dval y"
    by (simp add: dval_def x y with_sign_def powi_add)
  show "fp_finite (fmul x y)" and "dval (fmul x y) = rnd (dval x * dval y)"
    using encode_round [of 1 "with_sign (s \<noteq> t) (m * n)" "e + f" "s \<noteq> t"] assms(3)
    unfolding eq by (simp_all add: fmul_def x y)
qed

lemma fdiv_value:
  assumes "fp_finite x" and "fp_finite y" and "dval y \<noteq> 0" and "\<bar>dval x / dval y\<bar> < 2 powi 1023"
  shows "fp_finite (fdiv x y)" and "dval (fdiv x y) = rnd (dval x / dval y)"
proof -
  obtain s m e where x: "decode x = Fin s m e" using assms(1) by (auto simp: fp_finite_def is_fin_iff)
  obtain t n f where y: "decode y = Fin t n f" using assms(2) by (auto simp: fp_finite_def is_fin_iff)
  have n: "0 < n" using canonical_decode [of y] assms(3) y by (auto simp: dval_def le_less)
  have eq: "real_of_int (with_sign (s \<noteq> t) m) / real_of_int n * 2 powi (e - f) = dval x / dval y"
    using n by (simp add: dval_def x y with_sign_def powi_diff)
  show "fp_finite (fdiv x y)" and "dval (fdiv x y) = rnd (dval x / dval y)"
    using encode_round [of n "with_sign (s \<noteq> t) m" "e - f" "s \<noteq> t"] assms(4) n
    unfolding eq by (simp_all add: fdiv_def x y)
qed

text \<open>Bringing two finite values to the smaller exponent: the comparisons and the sum are exact.\<close>

lemma align:
  fixes e f m n :: int
  defines "k \<equiv> min e f"
  shows "real_of_int m * 2 powi e = real_of_int (m * 2 ^ nat (e - k)) * 2 powi k"
    and "real_of_int n * 2 powi f = real_of_int (n * 2 ^ nat (f - k)) * 2 powi k"
proof -
  have "2 powi e = (2 :: real) powi (e - k) * 2 powi k" by (simp flip: powi_add)
  then show "real_of_int m * 2 powi e = real_of_int (m * 2 ^ nat (e - k)) * 2 powi k"
    by (simp add: k_def powi_nat)
  have "2 powi f = (2 :: real) powi (f - k) * 2 powi k" by (simp flip: powi_add)
  then show "real_of_int n * 2 powi f = real_of_int (n * 2 ^ nat (f - k)) * 2 powi k"
    by (simp add: k_def powi_nat)
qed

lemma flt_value:
  assumes "fp_finite x" and "fp_finite y"
  shows "flt x y \<longleftrightarrow> dval x < dval y"
proof -
  obtain s m e where x: "decode x = Fin s m e" using assms(1) by (auto simp: fp_finite_def is_fin_iff)
  obtain t n f where y: "decode y = Fin t n f" using assms(2) by (auto simp: fp_finite_def is_fin_iff)
  have "dval x < dval y \<longleftrightarrow>
      with_sign s m * 2 ^ nat (e - min e f) < with_sign t n * 2 ^ nat (f - min e f)"
    unfolding dval_def x y fval_real_with_sign align(1) [of "with_sign s m" e f] align(2) [of "with_sign t n" f e]
    by (simp only: mult_less_cancel_right_pos powi_pos of_int_less_iff)
  then show ?thesis by (simp add: flt_def x y Let_def)
qed

lemma feq_value:
  assumes "fp_finite x" and "fp_finite y"
  shows "feq x y \<longleftrightarrow> dval x = dval y"
proof -
  obtain s m e where x: "decode x = Fin s m e" using assms(1) by (auto simp: fp_finite_def is_fin_iff)
  obtain t n f where y: "decode y = Fin t n f" using assms(2) by (auto simp: fp_finite_def is_fin_iff)
  have "dval x = dval y \<longleftrightarrow>
      with_sign s m * 2 ^ nat (e - min e f) = with_sign t n * 2 ^ nat (f - min e f)"
    unfolding dval_def x y fval_real_with_sign align(1) [of "with_sign s m" e f] align(2) [of "with_sign t n" f e]
    using powi_pos [of "min e f"] by (simp only: mult_cancel_right of_int_eq_iff) auto
  then show ?thesis by (simp add: feq_def x y Let_def)
qed

lemma fle_value: "fp_finite x \<Longrightarrow> fp_finite y \<Longrightarrow> fle x y \<longleftrightarrow> dval x \<le> dval y"
  by (auto simp: fle_def flt_value feq_value)

lemma fadd_value:
  assumes "fp_finite x" and "fp_finite y" and "\<bar>dval x + dval y\<bar> < 2 powi 1023"
  shows "fp_finite (fadd x y)" and "dval (fadd x y) = rnd (dval x + dval y)"
proof -
  obtain s m e where x: "decode x = Fin s m e" using assms(1) by (auto simp: fp_finite_def is_fin_iff)
  obtain t n f where y: "decode y = Fin t n f" using assms(2) by (auto simp: fp_finite_def is_fin_iff)
  let ?a = "with_sign s m * 2 ^ nat (e - min e f) + with_sign t n * 2 ^ nat (f - min e f)"
  have eq: "real_of_int ?a / real_of_int 1 * 2 powi (min e f) = dval x + dval y"
    unfolding dval_def x y fval_real_with_sign align(1) [of "with_sign s m" e f] align(2) [of "with_sign t n" f e]
    by (simp add: algebra_simps)
  show "fp_finite (fadd x y)" and "dval (fadd x y) = rnd (dval x + dval y)"
    using encode_round [of 1 ?a "min e f" "s \<and> t"] assms(3)
    unfolding eq by (simp_all add: fadd_def x y Let_def)
qed

lemma fsub_value:
  assumes "fp_finite x" and "fp_finite y" and "\<bar>dval x - dval y\<bar> < 2 powi 1023"
  shows "fp_finite (fsub x y)" and "dval (fsub x y) = rnd (dval x - dval y)"
proof -
  obtain t n f where y: "decode y = Fin t n f" using assms(2) by (auto simp: fp_finite_def is_fin_iff)
  have c: "canonical (fneg_val (decode y))" using canonical_decode [of y] y by simp
  have "fp_finite (encode (fneg_val (decode y)))" and "dval (encode (fneg_val (decode y))) = - dval y"
    using c y by (simp_all add: fp_finite_encode dval_encode) (simp add: dval_def)
  then show "fp_finite (fsub x y)" and "dval (fsub x y) = rnd (dval x - dval y)"
    using fadd_value [of x "encode (fneg_val (decode y))"] assms by (simp_all add: fsub_def)
qed

lemma fceil_value:
  assumes "fp_finite x"
  shows "fp_finite (fceil x)" and "dval (fceil x) = real_of_int \<lceil>dval x\<rceil>"
proof -
  obtain s m e where x: "decode x = Fin s m e" using assms by (auto simp: fp_finite_def is_fin_iff)
  have mb: "0 \<le> m" "m < 9007199254740992" using canonical_decode [of x] x by auto
  have "fp_finite (fceil x) \<and> dval (fceil x) = real_of_int \<lceil>dval x\<rceil>"
  proof (cases "0 \<le> e")
    case True
    then have "dval x = real_of_int (with_sign s m * 2 ^ nat e)"
      by (simp add: dval_def x powi_nat with_sign_def)
    then show ?thesis using True assms by (simp add: fceil_def x)
  next
    case False
    let ?c = "ceil_div (with_sign s m) (2 ^ nat (- e))"
    have "(2 :: real) powi e = 1 / 2 ^ nat (- e)" using pow_split [of e] False by simp
    then have "dval x = real_of_int (with_sign s m) / real_of_int (2 ^ nat (- e))"
      unfolding dval_def x fval_real_with_sign by simp
    then have "- dval x = real_of_int (- with_sign s m) / real_of_int (2 ^ nat (- e))" by simp
    then have c: "\<lceil>dval x\<rceil> = ?c"
      by (simp only: ceiling_def ceil_div_def floor_divide_of_int_eq)
    have "\<bar>dval x\<bar> \<le> 2 ^ 53"
    proof -
      have "\<bar>dval x\<bar> = real_of_int m * 2 powi e" using mb by (simp add: dval_def x abs_mult)
      also have "\<dots> \<le> real_of_int m * 2 powi 0"
        using False mb by (intro mult_left_mono powi_mono) simp_all
      finally show ?thesis using mb by simp
    qed
    then have "\<bar>dval x\<bar> \<le> 9007199254740992" by simp
    then have "\<bar>?c\<bar> \<le> 9007199254740992" unfolding c [symmetric] by linarith
    then have "fp_finite (encode (round_val s ?c 1 0)) \<and> dval (encode (round_val s ?c 1 0)) = real_of_int ?c"
      by (rule encode_round_int)
    then show ?thesis using False c by (simp add: fceil_def x)
  qed
  then show "fp_finite (fceil x)" and "dval (fceil x) = real_of_int \<lceil>dval x\<rceil>" by simp_all
qed

lemma truncate_floor:
  assumes "decode x = Fin s m e" and "0 \<le> dval x"
  shows "truncate s m e = \<lfloor>dval x\<rfloor>"
proof -
  have m0: "0 \<le> m" using canonical_decode [of x] assms(1) by auto
  have v: "dval x = real_of_int (with_sign s m) * 2 powi e"
    by (simp only: dval_def assms(1) fval_real_with_sign)
  have sm: "with_sign s m = m"
  proof (cases "m = 0")
    case False
    have "\<not> with_sign s m < 0"
      using assms(2) v mult_neg_pos [of "real_of_int (with_sign s m)" "2 powi e"] by auto
    with m0 False show ?thesis by (auto simp: with_sign_def split: if_splits)
  qed (simp add: with_sign_def)
  show ?thesis
  proof (cases "0 \<le> e")
    case True
    then have "dval x = real_of_int (with_sign s m * 2 ^ nat e)" using v by (simp add: powi_nat)
    then have "\<lfloor>dval x\<rfloor> = with_sign s m * 2 ^ nat e" by (simp only: floor_of_int)
    with True show ?thesis by (simp add: truncate_def with_sign_def)
  next
    case False
    have "(2 :: real) powi e = 1 / 2 ^ nat (- e)" using pow_split [of e] False by simp
    then have "dval x = real_of_int m / real_of_int (2 ^ nat (- e))" using v sm by simp
    then have f: "\<lfloor>dval x\<rfloor> = m div 2 ^ nat (- e)" by (simp only: floor_divide_of_int_eq)
    have "with_sign s (m div 2 ^ nat (- e)) = m div 2 ^ nat (- e)"
      using sm m0 by (cases "m = 0") (auto simp: with_sign_def split: if_splits)
    with False f show ?thesis by (simp add: truncate_def)
  qed
qed

lemma to_u64_value:
  assumes "fp_finite x" and "0 \<le> dval x" and "dval x < 18446744073709551616"
  shows "to_u64 x = \<lfloor>dval x\<rfloor>"
proof -
  obtain s m e where x: "decode x = Fin s m e" using assms(1) by (auto simp: fp_finite_def is_fin_iff)
  have "0 \<le> \<lfloor>dval x\<rfloor>" and "\<lfloor>dval x\<rfloor> < 18446744073709551616" using assms(2,3) by linarith+
  then show ?thesis using truncate_floor [OF x assms(2)] by (simp add: to_u64_def x)
qed

lemma to_i64_value:
  assumes "fp_finite x" and "0 \<le> dval x" and "dval x < 9223372036854775808"
  shows "to_i64 x = \<lfloor>dval x\<rfloor>"
proof -
  obtain s m e where x: "decode x = Fin s m e" using assms(1) by (auto simp: fp_finite_def is_fin_iff)
  have "0 \<le> \<lfloor>dval x\<rfloor>" and "\<lfloor>dval x\<rfloor> \<le> 9223372036854775807" using assms(2,3) by linarith+
  then have "in_i64 \<lfloor>dval x\<rfloor>" by (simp add: in_i64_def i64_min_def i64_max_def)
  then show ?thesis using truncate_floor [OF x assms(2)] by (simp add: to_i64_def x)
qed

lemma in_i64_to_i64 [simp]: "in_i64 (to_i64 x)"
  by (simp add: to_i64_def Let_def in_i64_def i64_min_def i64_max_def split: fval.splits)

end
