(* ===== verification/Quantile.thy ===== *)
theory Quantile
  imports Durations Rounding
begin

text \<open>
  Percentiles and the nearest-rank quantile (quantile.hpp). The rank is computed in binary64, as
  \<open>std::ceil(p / 100.0 * n)\<close>; the lemmas compare it with the exact rational rank the
  documentation defines.
\<close>

datatype Percentile = Percentile (pvalue: double)

definition percentile :: "int \<Rightarrow> int \<Rightarrow> Percentile" where
  "percentile a b = Percentile (lit a b)"

abbreviation p50 :: Percentile where "p50 \<equiv> percentile 50 1"
abbreviation p95 :: Percentile where "p95 \<equiv> percentile 95 1"
abbreviation p99 :: Percentile where "p99 \<equiv> percentile 99 1"
abbreviation p999 :: Percentile where "p999 \<equiv> percentile 999 10"

definition isfinite :: "double \<Rightarrow> bool" where "isfinite x \<longleftrightarrow> is_fin (decode x)"

definition Percentile_validate :: "double \<Rightarrow> Percentile Result" where
  "Percentile_validate p =
     (if \<not> isfinite p \<or> fle p (lit 0 1) \<or> flt (lit 100 1) p
      then err INVALID_INPUT ''invalid percentile'' else Inr (Percentile p))"

definition as_fraction :: "Percentile \<Rightarrow> double" where
  "as_fraction p = fdiv (pvalue p) (lit 100 1)"

definition rank_of :: "Percentile \<Rightarrow> nat \<Rightarrow> nat" where
  "rank_of p n =
     (let rank_d = fceil (fmul (as_fraction p) (of_integer (int n)));
          rank = (if flt rank_d (lit 1 1) then 1 else nat (to_u64 rank_d))
      in if rank > n then n else rank)"

definition exact_quantile :: "Duration list \<Rightarrow> Percentile \<Rightarrow> Duration Result" where
  "exact_quantile sorted_ascending p =
     (if sorted_ascending = [] then err INSUFFICIENT_EVIDENCE ''no samples''
      else Inr (sorted_ascending ! (rank_of p (length sorted_ascending) - 1)))"

definition kMinSampleCap :: int where "kMinSampleCap = 10000000"

definition derived_min_samples :: "Percentile \<Rightarrow> nat" where
  "derived_min_samples p =
     (let denom = fsub (lit 100 1) (pvalue p) in
      if fle denom (lit 0 1) then 1
      else let v = fdiv (lit 100 1) denom;
               r = fceil (fsub v (lit 1 10000000));
               r = (if \<not> fle (lit 1 1) r then lit 1 1 else r);
               out = to_u64 r
           in nat (if out > kMinSampleCap then kMinSampleCap else out))"

datatype Sufficiency = SUFFICIENT | INSUFFICIENT_SAMPLES | INSUFFICIENT_WINDOW | STALE | UNKNOWN

fun Sufficiency_to_string :: "Sufficiency \<Rightarrow> string" where
  "Sufficiency_to_string SUFFICIENT = ''SUFFICIENT''"
| "Sufficiency_to_string INSUFFICIENT_SAMPLES = ''INSUFFICIENT_SAMPLES''"
| "Sufficiency_to_string INSUFFICIENT_WINDOW = ''INSUFFICIENT_WINDOW''"
| "Sufficiency_to_string STALE = ''STALE''"
| "Sufficiency_to_string UNKNOWN = ''UNKNOWN''"

lemma Sufficiency_to_string_inj: "Sufficiency_to_string a = Sufficiency_to_string b \<longleftrightarrow> a = b"
  by (cases a; cases b) simp_all

subsection \<open>The derived minimum sample counts\<close>

lemma derived_min_samples_95: "derived_min_samples p95 = 20" by code_simp
lemma derived_min_samples_99: "derived_min_samples p99 = 100" by code_simp
lemma derived_min_samples_999: "derived_min_samples p999 = 1000" by code_simp

lemma derived_min_samples_bounds: "derived_min_samples p \<le> 10000000"
  by (simp add: derived_min_samples_def Let_def kMinSampleCap_def nat_le_iff)

subsection \<open>The rank is always a valid position\<close>

lemma to_u64_nonneg: "0 \<le> to_u64 x"
  by (simp add: to_u64_def Let_def split: fval.splits)

lemma rank_of_le: "rank_of p n \<le> n"
  by (simp add: rank_of_def Let_def)

subsection \<open>The rank on reals\<close>

lemma lit_int: "0 \<le> n \<Longrightarrow> n \<le> 9007199254740992 \<Longrightarrow> fp_finite (lit n 1) \<and> dval (lit n 1) = real_of_int n"
  using of_integer_exact [of n] by (simp add: lit_def of_integer_def)

text \<open>\<open>frac p c\<close>: the fraction of the percentile is the binary64 number \<open>c\<close>, in (0, 1].\<close>

definition frac :: "Percentile \<Rightarrow> real \<Rightarrow> bool" where
  "frac p c \<longleftrightarrow> fp_finite (as_fraction p) \<and> dval (as_fraction p) = c \<and> 0 < c \<and> c \<le> 1"

lemma frac_decode:
  assumes "decode (as_fraction p) = Fin False m (- 53)" and "0 < m" and "m \<le> 9007199254740992"
  shows "frac p (real_of_int m / 9007199254740992)"
proof -
  have "(2 :: real) powi (- 53) = 1 / 9007199254740992" using pow_split [of "- 53"] by simp
  then show ?thesis
    using assms by (simp add: frac_def fp_finite_def dval_def)
qed

lemma frac_50: "frac p50 (1 / 2)"
proof -
  have "decode (as_fraction p50) = Fin False 4503599627370496 (- 53)" by code_simp
  from frac_decode [OF this] show ?thesis by simp
qed

lemma frac_95: "frac p95 (8556839292003942 / 9007199254740992)"
proof -
  have "decode (as_fraction p95) = Fin False 8556839292003942 (- 53)" by code_simp
  from frac_decode [OF this] show ?thesis by simp
qed

lemma frac_99: "frac p99 (8917127262193582 / 9007199254740992)"
proof -
  have "decode (as_fraction p99) = Fin False 8917127262193582 (- 53)" by code_simp
  from frac_decode [OF this] show ?thesis by simp
qed

lemma frac_999: "frac p999 (8998192055486252 / 9007199254740992)"
proof -
  have "decode (as_fraction p999) = Fin False 8998192055486252 (- 53)" by code_simp
  from frac_decode [OF this] show ?thesis by simp
qed

lemma rank_real:
  assumes c: "frac p c" and n: "0 < n" "n \<le> 9007199254740992"
  shows "int (rank_of p n) = max 1 \<lceil>rn (c * real n)\<rceil>" and "\<lceil>rn (c * real n)\<rceil> \<le> int n"
proof -
  let ?x = "fmul (as_fraction p) (of_integer (int n))"
  have c01: "0 < c" "c \<le> 1" and fr: "fp_finite (as_fraction p)" "dval (as_fraction p) = c"
    using c by (simp_all add: frac_def)
  have ni: "fp_finite (of_integer (int n))" "dval (of_integer (int n)) = real n"
    using of_integer_exact [of "int n"] n by simp_all
  have cn: "0 \<le> c * real n" "c * real n \<le> real n"
    using c01 by (simp_all add: mult_left_le_one_le)
  have "real n \<le> 9007199254740992" using n(2) by linarith
  then have lt: "\<bar>c * real n\<bar> < 2 powi 1023" using cn pow1023_large by linarith
  have x: "fp_finite ?x" "dval ?x = rn (c * real n)"
    using fmul_value [OF fr(1) ni(1)] lt cn by (simp_all add: fr(2) ni(2) rnd_nonneg)
  have "rn (c * real n) \<le> rn (real_of_int (int n))" using cn by (intro rn_mono) simp_all
  also have "\<dots> = real n" using rn_int [of "int n"] n by simp
  finally have up: "rn (c * real n) \<le> real n" .
  then show le: "\<lceil>rn (c * real n)\<rceil> \<le> int n" by linarith
  have r: "fp_finite (fceil ?x)" "dval (fceil ?x) = real_of_int \<lceil>rn (c * real n)\<rceil>"
    using fceil_value [OF x(1)] x(2) by simp_all
  have nn: "0 \<le> \<lceil>rn (c * real n)\<rceil>" using rn_nonneg [OF cn(1)] by linarith
  have one: "flt (fceil ?x) (lit 1 1) \<longleftrightarrow> \<lceil>rn (c * real n)\<rceil> < 1"
    using flt_value [OF r(1)] lit_int [of 1] r(2) by simp
  have tu: "to_u64 (fceil ?x) = \<lceil>rn (c * real n)\<rceil>"
  proof (subst to_u64_value)
    have "real_of_int \<lceil>rn (c * real n)\<rceil> \<le> real n" using le by linarith
    then show "dval (fceil ?x) < 18446744073709551616"
      using r(2) \<open>real n \<le> 9007199254740992\<close> by linarith
  qed (use r nn in simp_all)
  show "int (rank_of p n) = max 1 \<lceil>rn (c * real n)\<rceil>"
    using le n(1) nn one tu by (auto simp: rank_of_def Let_def)
qed

lemma rank_of_pos:
  "frac p c \<Longrightarrow> 0 < n \<Longrightarrow> n \<le> 9007199254740992 \<Longrightarrow> 1 \<le> rank_of p n"
  using rank_real(1) [of p c n] by linarith

text \<open>A larger fraction never gives a smaller rank: rounding and ceiling are monotone.\<close>

lemma rank_of_mono:
  assumes "frac p c" and "frac q d" and "c \<le> d" and "0 < n" and "n \<le> 9007199254740992"
  shows "rank_of p n \<le> rank_of q n"
proof -
  have "0 \<le> c * real n" and "c * real n \<le> d * real n"
    using assms by (simp_all add: frac_def mult_right_mono)
  then have "\<lceil>rn (c * real n)\<rceil> \<le> \<lceil>rn (d * real n)\<rceil>" by (intro ceiling_mono rn_mono)
  then show ?thesis
    using rank_real(1) [OF assms(1,4,5)] rank_real(1) [OF assms(2,4,5)] by linarith
qed

subsection \<open>Comparison with the exact rational rank\<close>

text \<open>\<open>nearest_rank a b n\<close> is the least integer that is at least \<open>a * n / b\<close>.\<close>

definition nearest_rank :: "nat \<Rightarrow> nat \<Rightarrow> nat \<Rightarrow> nat" where
  "nearest_rank a b n = (a * n + b - 1) div b"

lemma nearest_rank_bounds:
  assumes "0 < b"
  shows "a * n \<le> b * nearest_rank a b n" and "b * nearest_rank a b n < a * n + b"
proof -
  have e: "b * nearest_rank a b n + (a * n + b - 1) mod b = a * n + b - 1"
    by (simp add: nearest_rank_def)
  have "(a * n + b - 1) mod b < b" using assms by simp
  with e assms show "a * n \<le> b * nearest_rank a b n" and "b * nearest_rank a b n < a * n + b"
    by linarith+
qed

lemma rank_near_exact:
  assumes c: "frac p c" and b: "0 < b" "b \<le> 1000" and a: "0 < a"
    and n: "0 < n" "n \<le> 1099511627776"
    and lo: "real a / real b - c \<le> 1 / 9007199254740992"
  shows "nearest_rank a b n \<le> rank_of p n"
    and "c * real n \<le> real (nearest_rank a b n) \<Longrightarrow> rank_of p n \<le> nearest_rank a b n"
proof -
  let ?k = "nearest_rank a b n" and ?x = "c * real n"
  have c01: "0 < c" "c \<le> 1" using c by (simp_all add: frac_def)
  have k1: "1 \<le> ?k" using nearest_rank_bounds(1) [OF b(1), of a n] a n by (cases ?k) auto
  have n53: "n \<le> 9007199254740992" using n by simp
  note rank = rank_real [OF c n(1) n53]
  show "rank_of p n \<le> ?k" if up: "?x \<le> real ?k"
  proof -
    have "?k \<le> 9007199254740992 \<or> 9007199254740992 < ?k" by linarith
    then show ?thesis
    proof
      assume "?k \<le> 9007199254740992"
      then have "rn (real ?k) = real ?k" using rn_int [of "int ?k"] by simp
      then have "rn ?x \<le> real ?k" using rn_mono [of ?x "real ?k"] up c01 by simp
      then show ?thesis using rank(1) k1 by linarith
    next
      assume "9007199254740992 < ?k"
      then show ?thesis using rank_of_le [of p n] n53 by linarith
    qed
  qed
  have "b * ?k + 1 \<le> a * n + b" using nearest_rank_bounds(2) [OF b(1), of a n] by linarith
  then have "real (b * ?k + 1) \<le> real (a * n + b)" by (simp only: of_nat_le_iff)
  then have "real (b * ?k + 1) / real b \<le> real (a * n + b) / real b"
    by (rule divide_right_mono) simp
  then have "real ?k + 1 / real b \<le> real a / real b * real n + 1"
    using b(1) by (simp add: add_divide_distrib)
  moreover have "1 / 1000 \<le> 1 / real b" using b by (simp add: frac_le)
  moreover have "(real a / real b - c) * real n \<le> 1 / 8192"
  proof -
    have "(real a / real b - c) * real n \<le> 1 / 9007199254740992 * real n"
      using lo by (rule mult_right_mono) simp
    also have "\<dots> \<le> 1 / 9007199254740992 * 1099511627776"
      using n(2) by (intro mult_left_mono) simp_all
    finally show ?thesis by simp
  qed
  ultimately have below: "real ?k - 1 + 1 / 1000 - 1 / 8192 \<le> ?x"
    by (simp add: left_diff_distrib)
  have "rn ?x > real ?k - 1"
  proof (cases "1 / 2000 \<le> ?x")
    case True
    have "2 powi (- 1022) \<le> (2 :: real) powi (- 11)" by (rule powi_mono) simp
    also have "\<dots> = 1 / 2048" using pow_split [of "- 11"] by simp
    finally have "2 powi (- 1022) \<le> ?x" using True by linarith
    from rn_error [OF this] have "?x - ?x / 2 ^ 53 \<le> rn ?x" by linarith
    moreover have "?x / 2 ^ 53 \<le> 1 / 8192"
    proof -
      have "?x \<le> 1099511627776" using c01 n(2) mult_left_le_one_le [of "real n" c] by simp
      then show ?thesis by simp
    qed
    ultimately show ?thesis using below by linarith
  next
    case False
    with below k1 show ?thesis by linarith
  qed
  then show "?k \<le> rank_of p n" using rank(1) by linarith
qed

lemma rank_of_50: "0 < n \<Longrightarrow> n \<le> 1099511627776 \<Longrightarrow> rank_of p50 n = nearest_rank 1 2 n"
proof -
  assume n: "0 < n" "n \<le> 1099511627776"
  have "real (1 * n) \<le> real (2 * nearest_rank 1 2 n)"
    using nearest_rank_bounds(1) [of 2 1 n] by (simp only: of_nat_le_iff)
  then have "1 / 2 * real n \<le> real (nearest_rank 1 2 n)" by simp
  then show ?thesis
    using rank_near_exact [OF frac_50, of 2 1 n] n by simp
qed

lemma rank_of_95: "0 < n \<Longrightarrow> n \<le> 1099511627776 \<Longrightarrow> rank_of p95 n = nearest_rank 19 20 n"
proof -
  assume n: "0 < n" "n \<le> 1099511627776"
  have "real (19 * n) \<le> real (20 * nearest_rank 19 20 n)"
    using nearest_rank_bounds(1) [of 20 19 n] by (simp only: of_nat_le_iff)
  then have "8556839292003942 / 9007199254740992 * real n \<le> real (nearest_rank 19 20 n)" by simp
  then show ?thesis
    using rank_near_exact [OF frac_95, of 20 19 n] n by simp
qed

lemma rank_of_99: "0 < n \<Longrightarrow> n \<le> 1099511627776 \<Longrightarrow> rank_of p99 n = nearest_rank 99 100 n"
proof -
  assume n: "0 < n" "n \<le> 1099511627776"
  have "real (99 * n) \<le> real (100 * nearest_rank 99 100 n)"
    using nearest_rank_bounds(1) [of 100 99 n] by (simp only: of_nat_le_iff)
  then have "8917127262193582 / 9007199254740992 * real n \<le> real (nearest_rank 99 100 n)" by simp
  then show ?thesis
    using rank_near_exact [OF frac_99, of 100 99 n] n by simp
qed

text \<open>
  At 99.9 the division by 100 rounds upwards, to \<open>0.9990000000000001\<close>. Where the exact rank is
  not an integer this does not matter; at multiples of 1000 the rank can be one too large.
\<close>

lemma rank_of_999_lower:
  "0 < n \<Longrightarrow> n \<le> 1099511627776 \<Longrightarrow> nearest_rank 999 1000 n \<le> rank_of p999 n"
  using rank_near_exact(1) [OF frac_999, of 1000 999 n] by simp

lemma rank_of_999_exact:
  assumes n: "0 < n" "n \<le> 1099511627776" and nd: "\<not> 1000 dvd n"
  shows "rank_of p999 n = nearest_rank 999 1000 n"
proof -
  let ?k = "nearest_rank 999 1000 n"
  have "999 * n \<noteq> 1000 * ?k"
  proof
    assume "999 * n = 1000 * ?k"
    then have "n = 1000 * (n - ?k)" by arith
    then have "1000 dvd n" by (rule dvdI)
    with nd show False by blast
  qed
  then have "999 * n + 1 \<le> 1000 * ?k" using nearest_rank_bounds(1) [of 1000 999 n] by simp
  then have "real (999 * n + 1) \<le> real (1000 * ?k)" by (simp only: of_nat_le_iff)
  moreover have "real n \<le> 1099511627776" using n(2) by linarith
  ultimately have "8998192055486252 / 9007199254740992 * real n \<le> real ?k" by simp
  then show ?thesis
    using rank_near_exact [OF frac_999, of 1000 999 n] n by simp
qed

lemma rank_of_999_1000: "rank_of p999 1000 = 1000"
  by code_simp

subsection \<open>Quantiles of a sorted list\<close>

lemma exact_quantile_nth:
  assumes "xs \<noteq> []"
  shows "exact_quantile xs p = Inr (xs ! (rank_of p (length xs) - 1))"
    and "rank_of p (length xs) - 1 < length xs"
proof -
  show "exact_quantile xs p = Inr (xs ! (rank_of p (length xs) - 1))"
    using assms by (simp add: exact_quantile_def)
  have "0 < length xs" using assms by simp
  then show "rank_of p (length xs) - 1 < length xs"
    using rank_of_le [of p "length xs"] by linarith
qed

lemma exact_quantile_in: "exact_quantile xs p = Inr q \<Longrightarrow> q \<in> set xs"
  by (metis exact_quantile_def exact_quantile_nth err_not_value(2) nth_mem sum.inject(2))

lemma sorted_count_le:
  assumes "sorted xs" and "i < length xs"
  shows "i < length (filter (\<lambda>x. x \<le> xs ! i) xs)"
proof -
  have "\<forall>x \<in> set (take (Suc i) xs). x \<le> xs ! i"
    using assms by (auto simp: in_set_conv_nth sorted_nth_mono)
  then have "filter (\<lambda>x. x \<le> xs ! i) (take (Suc i) xs) = take (Suc i) xs" by simp
  then have "Suc i \<le> length (filter (\<lambda>x. x \<le> xs ! i) (take (Suc i) xs))" using assms(2) by simp
  also have "\<dots> \<le> length (filter (\<lambda>x. x \<le> xs ! i) xs)"
    by (metis append_take_drop_id filter_append length_append le_add1)
  finally show ?thesis by simp
qed

lemma sorted_count_less:
  assumes "sorted xs" and "i < length xs"
  shows "length (filter (\<lambda>x. x < xs ! i) xs) \<le> i"
proof -
  have "\<forall>x \<in> set (drop i xs). \<not> x < xs ! i"
    using assms by (auto simp: in_set_conv_nth not_less sorted_nth_mono)
  then have "filter (\<lambda>x. x < xs ! i) (drop i xs) = []" by simp
  then have "length (filter (\<lambda>x. x < xs ! i) xs) = length (filter (\<lambda>x. x < xs ! i) (take i xs))"
    by (metis append_take_drop_id filter_append append_Nil2)
  also have "\<dots> \<le> i" by (rule order_trans [OF length_filter_le]) simp
  finally show ?thesis .
qed

text \<open>What a rank at or above the nearest rank means for the samples, and what one at it means.\<close>

lemma quantile_covers:
  assumes "sorted xs" and "xs \<noteq> []" and "0 < b" and "0 < a"
    and "exact_quantile xs p = Inr q" and "nearest_rank a b (length xs) \<le> rank_of p (length xs)"
  shows "a * length xs \<le> b * length (filter (\<lambda>x. x \<le> q) xs)"
proof -
  let ?n = "length xs" and ?i = "rank_of p (length xs) - 1"
  have q: "q = xs ! ?i" and i: "?i < ?n" using exact_quantile_nth [OF assms(2), of p] assms(5) by simp_all
  have "a * ?n \<le> b * nearest_rank a b ?n" by (rule nearest_rank_bounds(1) [OF assms(3)])
  also have "\<dots> \<le> b * length (filter (\<lambda>x. x \<le> q) xs)"
    using sorted_count_le [OF assms(1) i] assms(6) q by (intro mult_left_mono) simp_all
  finally show ?thesis .
qed

lemma quantile_least:
  assumes "sorted xs" and "xs \<noteq> []" and "0 < b" and "0 < a"
    and "exact_quantile xs p = Inr q" and "rank_of p (length xs) = nearest_rank a b (length xs)"
  shows "b * length (filter (\<lambda>x. x < q) xs) < a * length xs"
proof -
  let ?n = "length xs" and ?k = "nearest_rank a b (length xs)"
  have q: "q = xs ! (?k - 1)" and i: "?k - 1 < ?n"
    using exact_quantile_nth [OF assms(2), of p] assms(5,6) by simp_all
  have "b * length (filter (\<lambda>x. x < q) xs) \<le> b * (?k - 1)"
    using sorted_count_less [OF assms(1) i] q by simp
  also have "\<dots> < a * ?n"
    using nearest_rank_bounds(2) [OF assms(3), of a ?n] assms(2,4)
    by (cases ?k) (simp_all add: diff_mult_distrib2)
  finally show ?thesis .
qed

lemma nearest_rank_quantile:
  assumes "exact_quantile xs p = Inr q" and "sorted xs" and "length xs \<le> 1099511627776"
    and "(p, a, b) \<in> {(p50, 1, 2), (p95, 19, 20), (p99, 99, 100)}"
  shows "a * length xs \<le> b * length (filter (\<lambda>x. x \<le> q) xs)"
    and "b * length (filter (\<lambda>x. x < q) xs) < a * length xs"
proof -
  have ne: "xs \<noteq> []" using assms(1) by (auto simp: exact_quantile_def err_def)
  then have r: "rank_of p (length xs) = nearest_rank a b (length xs)" and ab: "0 < a" "0 < b"
    using assms(3,4) rank_of_50 rank_of_95 rank_of_99 by auto
  show "a * length xs \<le> b * length (filter (\<lambda>x. x \<le> q) xs)" "b * length (filter (\<lambda>x. x < q) xs) < a * length xs"
    using quantile_covers [OF assms(2) ne ab(2,1) assms(1)] quantile_least [OF assms(2) ne ab(2,1) assms(1) r] r by auto
qed

subsection \<open>Properties\<close>

text \<open>C19: For p50, p95 and p99 the floating-point rank of \<open>exact_quantile\<close> is the exact
  nearest rank: on a sorted vector of up to 2 to the 40 samples it returns a sample that at least
  the given share of the samples do not exceed, while fewer than that share lie strictly below.\<close>

theorem exact_quantile_is_nearest_rank:
  assumes "sorted xs" and "xs \<noteq> []" and "length xs \<le> 1099511627776"
    and "(p, a, b) \<in> {(p50, 1, 2), (p95, 19, 20), (p99, 99, 100)}"
  shows "\<exists>q. exact_quantile xs p = Inr q \<and> q \<in> set xs \<and>
    a * length xs \<le> b * length (filter (\<lambda>x. x \<le> q) xs) \<and>
    b * length (filter (\<lambda>x. x < q) xs) < a * length xs"
proof -
  obtain q where q: "exact_quantile xs p = Inr q" using exact_quantile_nth(1) [OF assms(2)] by blast
  then show ?thesis using exact_quantile_in [OF q] nearest_rank_quantile [OF q assms(1,3,4)] by blast
qed

theorem exact_quantile_is_nearest_rank_witness:
  "\<exists>q. exact_quantile [Duration 1, Duration 2, Duration 3] p95 = Inr q \<and>
    q \<in> set [Duration 1, Duration 2, Duration 3] \<and>
    19 * length [Duration 1, Duration 2, Duration 3] \<le>
      20 * length (filter (\<lambda>x. x \<le> q) [Duration 1, Duration 2, Duration 3]) \<and>
    20 * length (filter (\<lambda>x. x < q) [Duration 1, Duration 2, Duration 3]) <
      19 * length [Duration 1, Duration 2, Duration 3]"
  by (rule exact_quantile_is_nearest_rank) simp_all

text \<open>p50, p95, p99 and p99.9 of the same sorted vector never decrease in this order, although
  each rank is computed in floating point; every one of them is produced.\<close>

theorem quantiles_ordered:
  assumes "sorted xs" and "xs \<noteq> []" and "length xs \<le> 9007199254740992"
  shows "\<exists>a b c d. exact_quantile xs p50 = Inr a \<and> exact_quantile xs p95 = Inr b \<and>
    exact_quantile xs p99 = Inr c \<and> exact_quantile xs p999 = Inr d \<and> a \<le> b \<and> b \<le> c \<and> c \<le> d"
proof -
  let ?n = "length xs"
  have n: "0 < ?n" using assms(2) by simp
  have r: "rank_of p50 ?n \<le> rank_of p95 ?n" "rank_of p95 ?n \<le> rank_of p99 ?n"
    "rank_of p99 ?n \<le> rank_of p999 ?n"
    by (rule rank_of_mono [OF frac_50 frac_95 _ n assms(3)], simp,
        rule rank_of_mono [OF frac_95 frac_99 _ n assms(3)], simp,
        rule rank_of_mono [OF frac_99 frac_999 _ n assms(3)], simp)
  have mono: "xs ! (rank_of p ?n - 1) \<le> xs ! (rank_of q ?n - 1)"
    if "rank_of p ?n \<le> rank_of q ?n" for p q
    using that exact_quantile_nth(2) [OF assms(2), of q] assms(1)
    by (intro sorted_nth_mono) simp_all
  show ?thesis
    using mono [OF r(1)] mono [OF r(2)] mono [OF r(3)]
    by (simp add: exact_quantile_nth(1) [OF assms(2)])
qed

theorem quantiles_ordered_witness:
  "\<exists>a b c d. exact_quantile [Duration 1, Duration 2] p50 = Inr a \<and>
    exact_quantile [Duration 1, Duration 2] p95 = Inr b \<and>
    exact_quantile [Duration 1, Duration 2] p99 = Inr c \<and>
    exact_quantile [Duration 1, Duration 2] p999 = Inr d \<and> a \<le> b \<and> b \<le> c \<and> c \<le> d"
  by (rule quantiles_ordered) simp_all

text \<open>C30: On 1000 samples (the documented minimum for p99.9) the 99.9 quantile is the maximum,
  the 1000th sample, where the documented nearest rank (0.999 * 1000 rounded up) is 999: the
  quotient \<open>99.9 / 100.0\<close> is rounded to a number above 0.999, and the product above 999.\<close>

theorem p999_of_1000_is_the_maximum:
  assumes "sorted xs" and "length xs = 1000"
  shows "exact_quantile xs p999 = Inr (last xs) \<and> nearest_rank 999 1000 (length xs) = 999"
proof -
  have "xs \<noteq> []" using assms(2) by auto
  then show ?thesis
    using exact_quantile_nth(1) [of xs p999] assms(2)
    by (simp add: rank_of_999_1000 last_conv_nth nearest_rank_def)
qed

theorem p999_of_1000_is_the_maximum_witness:
  "exact_quantile (map (\<lambda>i. Duration (int i)) [0..<1000]) p999 = Inr (Duration 999) \<and>
    nearest_rank 999 1000 1000 = 999"
proof -
  let ?xs = "map (\<lambda>i. Duration (int i)) [0..<1000]"
  have "sorted ?xs" by (simp add: sorted_map sorted_wrt_upt sorted_wrt_mono_rel [OF _ sorted_wrt_upt])
  moreover have "length ?xs = 1000" by simp
  moreover have "last ?xs = Duration 999" by (simp add: last_map)
  ultimately show ?thesis using p999_of_1000_is_the_maximum [of ?xs] by simp
qed

text \<open>The 99.9 quantile always covers 99.9 percent of the samples; unless the number of samples
  is a multiple of 1000 it is exactly the nearest rank, so it is the least sample that does.\<close>

theorem p999_covers:
  assumes "sorted xs" and "xs \<noteq> []" and "length xs \<le> 1099511627776"
  shows "\<exists>q. exact_quantile xs p999 = Inr q \<and> q \<in> set xs \<and>
    999 * length xs \<le> 1000 * length (filter (\<lambda>x. x \<le> q) xs) \<and>
    (\<not> 1000 dvd length xs \<longrightarrow> 1000 * length (filter (\<lambda>x. x < q) xs) < 999 * length xs)"
proof -
  have n: "0 < length xs" using assms(2) by simp
  obtain q where q: "exact_quantile xs p999 = Inr q" using exact_quantile_nth(1) [OF assms(2)] by blast
  show ?thesis
    using q exact_quantile_in [OF q] quantile_covers [OF assms(1,2) _ _ q, of 1000 999]
      quantile_least [OF assms(1,2) _ _ q, of 1000 999]
      rank_of_999_lower [OF n assms(3)] rank_of_999_exact [OF n assms(3)] by auto
qed

theorem p999_covers_witness:
  "\<exists>q. exact_quantile [Duration 4, Duration 9] p999 = Inr q \<and> q \<in> set [Duration 4, Duration 9] \<and>
    999 * length [Duration 4, Duration 9] \<le>
      1000 * length (filter (\<lambda>x. x \<le> q) [Duration 4, Duration 9]) \<and>
    (\<not> 1000 dvd length [Duration 4, Duration 9] \<longrightarrow>
      1000 * length (filter (\<lambda>x. x < q) [Duration 4, Duration 9]) < 999 * length [Duration 4, Duration 9])"
  by (rule p999_covers) simp_all

end
