(* ===== verification/Window.thy ===== *)
theory Window
  imports Latency Quantile "HOL-Library.Sublist"
begin

text \<open>
  The bounded observation window (window.hpp): retained samples in insertion order, pruned against
  an explicit clock reading, with a lazily rebuilt cache of the sorted latencies. The locale
  \<open>evidence_window\<close> states what the governor relies on; the cache never shows through it.
\<close>

datatype WindowMode = ROLLING_TIME | ROLLING_COUNT | TUMBLING | FIXED_RECENT | Unlisted nat

fun WindowMode_to_string :: "WindowMode \<Rightarrow> string" where
  "WindowMode_to_string ROLLING_TIME = ''ROLLING_TIME''"
| "WindowMode_to_string ROLLING_COUNT = ''ROLLING_COUNT''"
| "WindowMode_to_string TUMBLING = ''TUMBLING''"
| "WindowMode_to_string FIXED_RECENT = ''FIXED_RECENT''"
| "WindowMode_to_string (Unlisted k) = ''UNKNOWN''"

fun WindowMode_code :: "WindowMode \<Rightarrow> nat" where
  "WindowMode_code ROLLING_TIME = 0"
| "WindowMode_code ROLLING_COUNT = 1"
| "WindowMode_code TUMBLING = 2"
| "WindowMode_code FIXED_RECENT = 3"
| "WindowMode_code (Unlisted k) = 4 + k"

definition WindowMode_list :: "WindowMode list" where
  "WindowMode_list = [ROLLING_TIME, ROLLING_COUNT, TUMBLING, FIXED_RECENT]"

definition WindowMode_of_code :: "nat \<Rightarrow> WindowMode" where
  "WindowMode_of_code c = (if c < 4 then WindowMode_list ! c else Unlisted (c - 4))"

lemma WindowMode_code_of_code: "WindowMode_code (WindowMode_of_code c) = c"
proof (cases "c < length WindowMode_list")
  case True
  have "map WindowMode_code WindowMode_list = [0..<length WindowMode_list]"
    by (simp add: WindowMode_list_def upt_rec)
  from nth_code [OF this True] True show ?thesis by (simp add: WindowMode_of_code_def WindowMode_list_def)
next
  case False
  then show ?thesis by (simp add: WindowMode_of_code_def WindowMode_list_def)
qed

lemma WindowMode_of_code_code: "WindowMode_of_code (WindowMode_code x) = x"
  by (cases x) (simp_all add: WindowMode_of_code_def WindowMode_list_def)

interpretation window_mode_enum: enumeration WindowMode_code WindowMode_of_code
  by unfold_locales (simp_all add: WindowMode_code_of_code WindowMode_of_code_code)

record WindowConfig =
  wc_mode :: WindowMode
  wc_window_duration :: Duration
  wc_fixed_count :: u64
  wc_max_samples :: u64

definition window_config_default :: WindowConfig where
  "window_config_default = \<lparr>wc_mode = ROLLING_TIME, wc_window_duration = Duration 5000000000,
     wc_fixed_count = 1000, wc_max_samples = 1000000\<rparr>"

record TailSample =
  ts_latency :: Duration
  ts_captured_ns :: int
  ts_arrival_ns :: int
  ts_phases :: "PhaseLatency list"
  ts_request_class :: RequestClassId
  ts_worker_boot :: WorkerBootId
  ts_epoch :: CoordinatorEpoch
  ts_retry_count :: u32
  ts_worst_phase :: Phase

fun dominant_loop :: "Phase \<Rightarrow> Duration \<Rightarrow> PhaseLatency list \<Rightarrow> Phase" where
  "dominant_loop best best_d [] = best"
| "dominant_loop best best_d (p # ps) =
     (if pl_duration p > best_d then dominant_loop (pl_phase p) (pl_duration p) ps
      else dominant_loop best best_d ps)"

definition dominant_phase :: "TailSample \<Rightarrow> Phase" where
  "dominant_phase s = (case ts_phases s of [] \<Rightarrow> OTHER
     | p # ps \<Rightarrow> dominant_loop (pl_phase p) (pl_duration p) ps)"

record ObservationWindow =
  w_cfg :: WindowConfig
  w_samples :: "TailSample list"
  w_sorted :: "Duration list"
  w_dirty :: bool

definition window_new :: "WindowConfig \<Rightarrow> ObservationWindow" where
  "window_new cfg = \<lparr>w_cfg = cfg, w_samples = [], w_sorted = [], w_dirty = False\<rparr>"

definition window_set_config :: "WindowConfig \<Rightarrow> ObservationWindow \<Rightarrow> ObservationWindow" where
  "window_set_config cfg w = w\<lparr>w_cfg := cfg\<rparr>"

definition window_size :: "ObservationWindow \<Rightarrow> nat" where "window_size w = length (w_samples w)"
definition window_empty :: "ObservationWindow \<Rightarrow> bool" where "window_empty w \<longleftrightarrow> w_samples w = []"

definition window_insert :: "TailSample \<Rightarrow> ObservationWindow \<Rightarrow> Status \<times> ObservationWindow" where
  "window_insert s w =
     (if nanos (ts_latency s) < 0 then (status INVALID_INPUT ''negative latency sample'', w)
      else let xs = w_samples w @ [s]; m = unat (wc_max_samples (w_cfg w));
               xs = (if length xs > m \<and> m > 0 then keep_last m xs else xs)
           in (status_ok, w\<lparr>w_samples := xs, w_dirty := True\<rparr>))"

text \<open>What pruning at \<open>now\<close> leaves of a non-empty vector of samples.\<close>

definition retain :: "WindowConfig \<Rightarrow> int \<Rightarrow> TailSample list \<Rightarrow> TailSample list" where
  "retain cfg now xs = (case wc_mode cfg of
     ROLLING_TIME \<Rightarrow>
       (let cutoff = i64 (now - nanos (wc_window_duration cfg)) in filter (\<lambda>s. \<not> ts_captured_ns s < cutoff) xs)
   | FIXED_RECENT \<Rightarrow>
       (let cutoff = i64 (now - nanos (wc_window_duration cfg));
            ys = filter (\<lambda>s. \<not> ts_captured_ns s < cutoff) xs; c = unat (wc_fixed_count cfg)
        in if length ys > c then keep_last c ys else ys)
   | ROLLING_COUNT \<Rightarrow>
       (let c = unat (wc_fixed_count cfg) in if length xs > c then keep_last c xs else xs)
   | TUMBLING \<Rightarrow>
       (let interval = nanos (wc_window_duration cfg) in
        if interval \<le> 0 then xs
        else let bucket = i64 (trunc_div now interval * interval)
             in filter (\<lambda>s. \<not> ts_captured_ns s < bucket) xs)
   | Unlisted _ \<Rightarrow> xs)"

definition window_prune :: "int \<Rightarrow> ObservationWindow \<Rightarrow> nat \<times> ObservationWindow" where
  "window_prune now w =
     (if w_samples w = [] then (0, w)
      else let before_count = length (w_samples w); xs = retain (w_cfg w) now (w_samples w);
               w' = w\<lparr>w_samples := xs, w_dirty := (if length xs \<noteq> before_count then True else w_dirty w)\<rparr>
           in (before_count - length xs, w'))"

definition window_clear :: "ObservationWindow \<Rightarrow> ObservationWindow" where
  "window_clear w = w\<lparr>w_samples := [], w_dirty := True\<rparr>"

definition samples_pruned :: "int \<Rightarrow> ObservationWindow \<Rightarrow> TailSample list \<times> ObservationWindow" where
  "samples_pruned now w = (let w' = snd (window_prune now w) in (w_samples w', w'))"

definition rebuild_sorted :: "ObservationWindow \<Rightarrow> ObservationWindow" where
  "rebuild_sorted w = w\<lparr>w_sorted := sort (map ts_latency (w_samples w)), w_dirty := False\<rparr>"

definition window_sorted :: "int \<Rightarrow> ObservationWindow \<Rightarrow> Duration list \<times> ObservationWindow" where
  "window_sorted now w =
     (let w1 = snd (window_prune now w); w2 = (if w_dirty w1 then rebuild_sorted w1 else w1)
      in (w_sorted w2, w2))"

text \<open>The loops that look for the latest timestamp start from the first sample.\<close>

fun latest_of :: "int list \<Rightarrow> int" where
  "latest_of [] = 0"
| "latest_of (t # ts) = foldl (\<lambda>m c. if c > m then c else m) t ts"

definition latest_captured_ns :: "ObservationWindow \<Rightarrow> int" where
  "latest_captured_ns w = latest_of (map ts_captured_ns (w_samples w))"

definition latest_arrival_ns :: "ObservationWindow \<Rightarrow> int" where
  "latest_arrival_ns w = latest_of (map ts_arrival_ns (w_samples w))"

definition window_percentile ::
    "Percentile \<Rightarrow> nat \<Rightarrow> int \<Rightarrow> ObservationWindow \<Rightarrow> (Duration \<times> Sufficiency) Result \<times> ObservationWindow" where
  "window_percentile p min_samples now w =
     (let (vals, w') = window_sorted now w; n = length vals in
      (if n < min_samples
       then Inr (if vals = [] then Duration 0 else last vals, INSUFFICIENT_SAMPLES)
       else (case exact_quantile vals p of Inl s \<Rightarrow> err (code s) (message s)
             | Inr q \<Rightarrow> Inr (q, SUFFICIENT)), w'))"

subsection \<open>The loops\<close>

lemma latest_of_eq: "xs \<noteq> [] \<Longrightarrow> latest_of xs = Max (set xs)"
proof (cases xs)
  case (Cons t ts)
  have "foldl (\<lambda>m c. if c > m then c else m) t ts = fold max ts t" for t :: int and ts
    by (induction ts arbitrary: t) (auto simp: max_def intro: arg_cong)
  then show ?thesis using Cons by (simp add: fold_max_eq)
qed simp

lemma dominant_loop_spec:
  "(dominant_loop best best_d ps = best \<and> (\<forall>q \<in> set ps. pl_duration q \<le> best_d)) \<or>
   (\<exists>i < length ps. dominant_loop best best_d ps = pl_phase (ps ! i) \<and> best_d < pl_duration (ps ! i) \<and>
      (\<forall>q \<in> set ps. pl_duration q \<le> pl_duration (ps ! i)) \<and>
      (\<forall>j < i. pl_duration (ps ! j) < pl_duration (ps ! i)))"
proof (induction ps arbitrary: best best_d)
  case (Cons p ps)
  show ?case
  proof (cases "best_d < pl_duration p")
    case True
    from Cons.IH [of "pl_phase p" "pl_duration p"] show ?thesis
    proof (elim disjE conjE exE)
      assume "dominant_loop (pl_phase p) (pl_duration p) ps = pl_phase p"
        and "\<forall>q \<in> set ps. pl_duration q \<le> pl_duration p"
      with True show ?thesis by (intro disjI2 exI [of _ 0]) simp
    next
      fix i
      assume i: "i < length ps" "dominant_loop (pl_phase p) (pl_duration p) ps = pl_phase (ps ! i)"
        "pl_duration p < pl_duration (ps ! i)" "\<forall>q \<in> set ps. pl_duration q \<le> pl_duration (ps ! i)"
        "\<forall>j < i. pl_duration (ps ! j) < pl_duration (ps ! i)"
      with True show ?thesis
        by (intro disjI2 exI [of _ "Suc i"]) (auto simp: less_Suc_eq_0_disj)
    qed
  next
    case False
    from Cons.IH [of best best_d] show ?thesis
    proof (elim disjE conjE exE)
      fix i
      assume i: "i < length ps" "dominant_loop best best_d ps = pl_phase (ps ! i)"
        "best_d < pl_duration (ps ! i)" "\<forall>q \<in> set ps. pl_duration q \<le> pl_duration (ps ! i)"
        "\<forall>j < i. pl_duration (ps ! j) < pl_duration (ps ! i)"
      with False show ?thesis
        by (intro disjI2 exI [of _ "Suc i"]) (auto simp: less_Suc_eq_0_disj)
    qed (use False in auto)
  qed
qed simp

text \<open>The dominant phase is that of the first longest entry.\<close>

lemma dominant_phase_first_longest:
  assumes "ts_phases s \<noteq> []"
  shows "\<exists>i < length (ts_phases s). dominant_phase s = pl_phase (ts_phases s ! i) \<and>
    (\<forall>q \<in> set (ts_phases s). pl_duration q \<le> pl_duration (ts_phases s ! i)) \<and>
    (\<forall>j < i. pl_duration (ts_phases s ! j) < pl_duration (ts_phases s ! i))"
proof (cases "ts_phases s")
  case (Cons p ps)
  from dominant_loop_spec [of "pl_phase p" "pl_duration p" ps] show ?thesis
  proof (elim disjE conjE exE)
    assume "dominant_loop (pl_phase p) (pl_duration p) ps = pl_phase p"
      and "\<forall>q \<in> set ps. pl_duration q \<le> pl_duration p"
    then show ?thesis by (intro exI [of _ 0]) (simp add: Cons dominant_phase_def)
  next
    fix i
    assume i: "i < length ps" "dominant_loop (pl_phase p) (pl_duration p) ps = pl_phase (ps ! i)"
      "pl_duration p < pl_duration (ps ! i)" "\<forall>q \<in> set ps. pl_duration q \<le> pl_duration (ps ! i)"
      "\<forall>j < i. pl_duration (ps ! j) < pl_duration (ps ! i)"
    then show ?thesis
      by (intro exI [of _ "Suc i"]) (auto simp: Cons dominant_phase_def less_Suc_eq_0_disj)
  qed
qed (use assms in simp)

subsection \<open>What pruning retains\<close>

lemma retain_Nil [simp]: "retain cfg now [] = []"
  by (simp add: retain_def keep_last_def Let_def split: WindowMode.splits)

lemma subseq_keep_last: "subseq (keep_last n xs) xs"
  by (simp add: keep_last_def suffix_imp_subseq suffix_drop)

lemma retain_subseq: "subseq (retain cfg now xs) xs"
  by (auto simp: retain_def Let_def subseq_keep_last split: WindowMode.splits
      intro: subseq_order.order_trans [OF subseq_keep_last])

lemma subseq_set_mono: "subseq xs ys \<Longrightarrow> set xs \<subseteq> set ys"
  by (induction rule: list_emb.induct) auto

lemma set_retain: "set (retain cfg now xs) \<subseteq> set xs"
  by (rule subseq_set_mono [OF retain_subseq])

lemma length_retain_le: "length (retain cfg now xs) \<le> length xs"
  by (rule list_emb_length [OF retain_subseq])

lemma retain_same_length: "length (retain cfg now xs) = length xs \<Longrightarrow> retain cfg now xs = xs"
  by (rule subseq_same_length [OF retain_subseq])

lemma window_prune_samples: "w_samples (snd (window_prune now w)) = retain (w_cfg w) now (w_samples w)"
  by (simp add: window_prune_def Let_def)

lemma window_prune_cfg [simp]: "w_cfg (snd (window_prune now w)) = w_cfg w"
  by (simp add: window_prune_def Let_def)

lemma window_prune_count:
  "fst (window_prune now w) + length (w_samples (snd (window_prune now w))) = length (w_samples w)"
  using length_retain_le [of "w_cfg w" now "w_samples w"] by (simp add: window_prune_def Let_def)

subsection \<open>The cache is coherent\<close>

definition win_inv :: "ObservationWindow \<Rightarrow> bool" where
  "win_inv w \<longleftrightarrow> (\<not> w_dirty w \<longrightarrow> w_sorted w = sort (map ts_latency (w_samples w)))"

definition win_bounded :: "ObservationWindow \<Rightarrow> bool" where
  "win_bounded w \<longleftrightarrow>
     (0 < unat (wc_max_samples (w_cfg w)) \<longrightarrow> length (w_samples w) \<le> unat (wc_max_samples (w_cfg w)))"

lemma win_inv_new [simp]: "win_inv (window_new cfg)"
  by (simp add: win_inv_def window_new_def)

lemma win_inv_insert: "win_inv w \<Longrightarrow> win_inv (snd (window_insert s w))"
  by (simp add: win_inv_def window_insert_def Let_def)

lemma win_inv_prune: "win_inv w \<Longrightarrow> win_inv (snd (window_prune now w))"
  using retain_same_length [of "w_cfg w" now "w_samples w"]
  by (auto simp: win_inv_def window_prune_def Let_def)

lemma win_inv_clear: "win_inv (window_clear w)"
  by (simp add: win_inv_def window_clear_def)

lemma win_inv_set_config: "win_inv w \<Longrightarrow> win_inv (window_set_config cfg w)"
  by (simp add: win_inv_def window_set_config_def)

lemma window_sorted_cfg [simp]: "w_cfg (snd (window_sorted now w)) = w_cfg w"
  by (simp add: window_sorted_def rebuild_sorted_def Let_def)

lemma window_sorted_samples:
  "w_samples (snd (window_sorted now w)) = retain (w_cfg w) now (w_samples w)"
  by (simp add: window_sorted_def rebuild_sorted_def Let_def window_prune_samples)

lemma win_inv_sorted: "win_inv w \<Longrightarrow> win_inv (snd (window_sorted now w))"
  using win_inv_prune [of w now]
  by (simp add: window_sorted_def rebuild_sorted_def Let_def win_inv_def)

lemma window_sorted_value:
  "win_inv w \<Longrightarrow> fst (window_sorted now w) = sort (map ts_latency (retain (w_cfg w) now (w_samples w)))"
  using win_inv_prune [of w now] window_prune_samples [of now w]
  by (simp add: window_sorted_def rebuild_sorted_def Let_def win_inv_def)

lemma window_insert_samples:
  "0 \<le> nanos (ts_latency s) \<Longrightarrow>
     \<exists>pre. w_samples w @ [s] = pre @ w_samples (snd (window_insert s w))"
  using keep_last_suffix [of "w_samples w @ [s]"]
  by (auto simp: window_insert_def Let_def)

lemma window_insert_cfg [simp]: "w_cfg (snd (window_insert s w)) = w_cfg w"
  by (simp add: window_insert_def Let_def)

lemma win_bounded_insert: "win_bounded w \<Longrightarrow> win_bounded (snd (window_insert s w))"
  by (auto simp: win_bounded_def window_insert_def Let_def)

lemma win_bounded_shrink:
  "win_bounded w \<Longrightarrow> w_cfg w' = w_cfg w \<Longrightarrow> length (w_samples w') \<le> length (w_samples w) \<Longrightarrow> win_bounded w'"
  by (auto simp: win_bounded_def)

subsection \<open>The interface of a window\<close>

text \<open>
  A buffer of samples that forgets from the front on insertion and by its retention rule on
  reading, and reports sorted latencies. What is reported is always about samples that were
  inserted and are still retained.
\<close>

locale evidence_window =
  fixes contents :: "'w \<Rightarrow> TailSample list" and add :: "TailSample \<Rightarrow> 'w \<Rightarrow> 'w"
    and report :: "int \<Rightarrow> 'w \<Rightarrow> Duration list \<times> 'w" and ok :: "'w \<Rightarrow> bool"
  assumes add_suffix: "ok w \<Longrightarrow> 0 \<le> nanos (ts_latency s) \<Longrightarrow> \<exists>pre. contents w @ [s] = pre @ contents (add s w)"
    and report_subseq: "ok w \<Longrightarrow> subseq (contents (snd (report now w))) (contents w)"
    and report_value: "ok w \<Longrightarrow> fst (report now w) = sort (map ts_latency (contents (snd (report now w))))"
    and ok_add: "ok w \<Longrightarrow> ok (add s w)"
    and ok_report: "ok w \<Longrightarrow> ok (snd (report now w))"
begin

lemma report_sorted: "ok w \<Longrightarrow> sorted (fst (report now w))"
  by (simp add: report_value)

lemma report_length: "ok w \<Longrightarrow> length (fst (report now w)) = length (contents (snd (report now w)))"
  by (simp add: report_value)

lemma report_from_sample:
  "ok w \<Longrightarrow> d \<in> set (fst (report now w)) \<Longrightarrow> \<exists>s \<in> set (contents (snd (report now w))). ts_latency s = d"
  by (auto simp: report_value)

lemma report_contents: "ok w \<Longrightarrow> set (contents (snd (report now w))) \<subseteq> set (contents w)"
  by (rule subseq_set_mono [OF report_subseq])

lemma add_contents:
  "ok w \<Longrightarrow> 0 \<le> nanos (ts_latency s) \<Longrightarrow> set (contents (add s w)) \<subseteq> insert s (set (contents w))"
  using add_suffix [of w s] by (metis Un_subset_iff list.simps(15) set_append subset_insertI
      insert_is_Un le_sup_iff order_refl sup_commute list.set(1))

lemma quantile_of_sample:
  assumes "ok w" and "exact_quantile (fst (report now w)) p = Inr q"
  shows "\<exists>s \<in> set (contents w). ts_latency s = q"
  using report_from_sample [OF assms(1) exact_quantile_in [OF assms(2)]] report_contents [OF assms(1)]
  by blast

end

interpretation window: evidence_window w_samples "\<lambda>s w. snd (window_insert s w)" window_sorted win_inv
  by unfold_locales
    (simp_all add: window_insert_samples window_sorted_samples retain_subseq window_sorted_value
      win_inv_insert win_inv_sorted)

subsection \<open>Runs of a window\<close>

datatype window_op = Insert TailSample | Prune int | ReadSorted int | Clear | SetConfig WindowConfig

fun window_step :: "ObservationWindow \<Rightarrow> window_op \<Rightarrow> ObservationWindow" where
  "window_step w (Insert s) = snd (window_insert s w)"
| "window_step w (Prune now) = snd (window_prune now w)"
| "window_step w (ReadSorted now) = snd (window_sorted now w)"
| "window_step w Clear = window_clear w"
| "window_step w (SetConfig cfg) = window_set_config cfg w"

definition window_run :: "ObservationWindow \<Rightarrow> window_op list \<Rightarrow> ObservationWindow" where
  "window_run w ops = foldl window_step w ops"

lemma win_inv_step: "win_inv w \<Longrightarrow> win_inv (window_step w p)"
  by (cases p) (simp_all add: win_inv_insert win_inv_prune win_inv_sorted win_inv_clear win_inv_set_config)

lemma win_inv_run: "win_inv w \<Longrightarrow> win_inv (window_run w ops)"
  unfolding window_run_def by (induction ops arbitrary: w) (auto intro: win_inv_step)

fun inserted :: "window_op list \<Rightarrow> TailSample set" where
  "inserted [] = {}"
| "inserted (Insert s # ops) = insert s (inserted ops)"
| "inserted (_ # ops) = inserted ops"

lemma step_samples: "set (w_samples (window_step w p)) \<subseteq> set (w_samples w) \<union> inserted [p]"
proof (cases p)
  case (Insert s)
  have "set (w_samples (window_step w p)) \<subseteq> set (w_samples w @ [s])"
    using set_keep_last [of "unat (wc_max_samples (w_cfg w))" "w_samples w @ [s]"]
    by (auto simp: Insert window_insert_def Let_def)
  then show ?thesis by (simp add: Insert)
qed (use set_retain [of "w_cfg w"] in
    \<open>auto simp: window_prune_samples window_sorted_samples window_clear_def window_set_config_def\<close>)

lemma run_samples: "set (w_samples (window_run w ops)) \<subseteq> set (w_samples w) \<union> inserted ops"
proof (induction ops arbitrary: w)
  case (Cons p ops)
  have "set (w_samples (window_run (window_step w p) ops)) \<subseteq>
      set (w_samples (window_step w p)) \<union> inserted ops"
    by (rule Cons.IH)
  moreover have "inserted (p # ops) = inserted [p] \<union> inserted ops" by (cases p) auto
  ultimately show ?case using step_samples [of w p] by (auto simp: window_run_def)
qed (simp add: window_run_def)

lemma win_bounded_step:
  "win_bounded w \<Longrightarrow> p \<notin> range SetConfig \<Longrightarrow> win_bounded (window_step w p)"
proof (cases p)
  case (Insert s)
  assume "win_bounded w"
  then show ?thesis by (simp add: Insert win_bounded_insert)
qed (auto intro!: win_bounded_shrink [of w]
      simp: window_prune_samples window_sorted_samples length_retain_le window_clear_def)

subsection \<open>Properties\<close>

text \<open>C18: Whatever sequence of insertions, prunings, reads, clears and reconfigurations a fresh
  window went through, reading the sorted latencies at \<open>now\<close> gives the sorted latencies of exactly
  the samples its retention rule keeps at \<open>now\<close> (the lazy cache is never stale), and every one of
  those samples had been inserted.\<close>

theorem window_sorted_is_current:
  "fst (window_sorted now (window_run (window_new cfg) ops)) =
     sort (map ts_latency (retain (w_cfg (window_run (window_new cfg) ops)) now
       (w_samples (window_run (window_new cfg) ops)))) \<and>
   set (w_samples (window_run (window_new cfg) ops)) \<subseteq> inserted ops"
  using window_sorted_value [OF win_inv_run [OF win_inv_new]] run_samples [of "window_new cfg" ops]
  by (simp add: window_new_def)

text \<open>A window never retains more than \<open>max_samples\<close> samples (when that bound is not zero),
  whatever operations other than a reconfiguration it went through.\<close>

theorem window_is_bounded:
  assumes "\<forall>p \<in> set ops. p \<notin> range SetConfig" and "0 < unat (wc_max_samples cfg)"
  shows "window_size (window_run (window_new cfg) ops) \<le> unat (wc_max_samples cfg)"
proof -
  have cfg: "w_cfg (window_step w p) = w_cfg w" if "p \<notin> range SetConfig" for w p
    using that by (cases p) (auto simp: window_clear_def)
  have "win_bounded (window_run w ops) \<and> w_cfg (window_run w ops) = w_cfg w"
    if "win_bounded w" for w
    using assms(1) that
  proof (induction ops arbitrary: w)
    case (Cons p ops)
    then show ?case
      using Cons.IH [of "window_step w p"] by (simp add: window_run_def win_bounded_step cfg)
  qed (simp add: window_run_def)
  moreover have "win_bounded (window_new cfg)" and "w_cfg (window_new cfg) = cfg"
    by (simp_all add: win_bounded_def window_new_def)
  ultimately have "win_bounded (window_run (window_new cfg) ops)"
    and "w_cfg (window_run (window_new cfg) ops) = cfg" by metis+
  with assms(2) show ?thesis by (simp add: win_bounded_def window_size_def)
qed

text \<open>With a clock that does not run backwards, pruning in between does not matter for rolling
  time, rolling count and tumbling windows: pruning at \<open>t1\<close> and then at \<open>t2\<close> retains what pruning
  at \<open>t2\<close> alone does.\<close>

theorem prune_absorbs_earlier_prune:
  assumes "wc_mode (w_cfg w) \<in> {ROLLING_TIME, ROLLING_COUNT, TUMBLING}"
    and "0 \<le> t1" and "t1 \<le> t2" and "in_i64 t2"
    and "0 \<le> nanos (wc_window_duration (w_cfg w))" and "in_i64 (nanos (wc_window_duration (w_cfg w)))"
  shows "w_samples (snd (window_prune t2 (snd (window_prune t1 w)))) = w_samples (snd (window_prune t2 w))"
proof -
  let ?d = "nanos (wc_window_duration (w_cfg w))"
  have r: "in_i64 (t1 - ?d)" "in_i64 (t2 - ?d)"
    using assms(2-6) by (auto simp: in_i64_def i64_min_def i64_max_def)
  have b: "trunc_div t1 ?d * ?d \<le> trunc_div t2 ?d * ?d" "in_i64 (trunc_div t1 ?d * ?d)"
    "in_i64 (trunc_div t2 ?d * ?d)" if "0 < ?d"
  proof -
    have "t1 div ?d \<le> t2 div ?d" using that assms(3) by (simp add: zdiv_mono1)
    then show "trunc_div t1 ?d * ?d \<le> trunc_div t2 ?d * ?d"
      using that assms(2,3) by (simp add: trunc_div_pos mult_right_mono)
    have "0 \<le> trunc_div t1 ?d * ?d" "0 \<le> trunc_div t2 ?d * ?d"
      using that assms(2,3) by (simp_all add: trunc_div_pos pos_imp_zdiv_nonneg_iff)
    moreover have "trunc_div t1 ?d * ?d \<le> t1" "trunc_div t2 ?d * ?d \<le> t2"
      using trunc_div_bucket(1) [OF _ that] assms(2,3) by simp_all
    ultimately show "in_i64 (trunc_div t1 ?d * ?d)" "in_i64 (trunc_div t2 ?d * ?d)"
      using assms(3,4) by (auto simp: in_i64_def i64_min_def)
  qed
  have cut: "filter (\<lambda>s. \<not> ts_captured_ns s < c2) (filter (\<lambda>s. \<not> ts_captured_ns s < c1) xs) =
      filter (\<lambda>s. \<not> ts_captured_ns s < c2) xs" if "c1 \<le> c2" for c1 c2 xs
    using that by (auto intro: filter_cong)
  have le: "t1 - ?d \<le> t2 - ?d" using assms(3) by simp
  consider "wc_mode (w_cfg w) = ROLLING_TIME" | "wc_mode (w_cfg w) = ROLLING_COUNT"
    | "wc_mode (w_cfg w) = TUMBLING" using assms(1) by blast
  then show ?thesis
  proof cases
    case 1
    then show ?thesis by (simp only: window_prune_samples window_prune_cfg retain_def Let_def
          WindowMode.case i64_id [OF r(1)] i64_id [OF r(2)] cut [OF le])
  next
    case 2
    then show ?thesis by (simp add: window_prune_samples retain_def Let_def)
  next
    case 3
    show ?thesis
    proof (cases "0 < ?d")
      case True
      then show ?thesis using 3
        by (simp add: window_prune_samples retain_def Let_def i64_id [OF b(2) [OF True]]
            i64_id [OF b(3) [OF True]] cut [OF b(1) [OF True]] del: filter_filter)
    qed (use 3 in \<open>simp add: window_prune_samples retain_def Let_def\<close>)
  qed
qed

definition demo_sample :: "int \<Rightarrow> int \<Rightarrow> TailSample" where
  "demo_sample t lat = \<lparr>ts_latency = Duration lat, ts_captured_ns = t, ts_arrival_ns = t, ts_phases = [],
     ts_request_class = Id 0, ts_worker_boot = Id 0, ts_epoch = Id 1, ts_retry_count = 0,
     ts_worst_phase = OTHER\<rparr>"

lemma window_is_bounded_witness:
  "window_size (window_run (window_new (window_config_default\<lparr>wc_max_samples := 2\<rparr>))
     [Insert (demo_sample 1 7), Insert (demo_sample 2 9), Insert (demo_sample 3 5)]) \<le> 2"
  using window_is_bounded [of "[Insert (demo_sample 1 7), Insert (demo_sample 2 9), Insert (demo_sample 3 5)]"
      "window_config_default\<lparr>wc_max_samples := 2\<rparr>"] by auto

lemma prune_absorbs_earlier_prune_witness:
  "w_samples (snd (window_prune 6000000000 (snd (window_prune 5500000000
       (window_run (window_new window_config_default)
         [Insert (demo_sample 1 7), Insert (demo_sample 2000000000 9)]))))) =
   w_samples (snd (window_prune 6000000000
       (window_run (window_new window_config_default)
         [Insert (demo_sample 1 7), Insert (demo_sample 2000000000 9)])))"
  by (rule prune_absorbs_earlier_prune)
    (simp_all add: window_run_def window_insert_def window_new_def window_config_default_def
      in_i64_def i64_min_def i64_max_def Let_def)

end
