(* ===== verification/Objective.thy ===== *)
theory Objective
  imports Window
begin

text \<open>Tail objectives and the policy that bundles them (objective.hpp).\<close>

text \<open>A 32-bit \<open>int\<close> of the code, as \<open>static_cast<std::int32_t>\<close> reads it from a word.\<close>

definition in_i32 :: "int \<Rightarrow> bool" where "in_i32 x \<longleftrightarrow> - 2147483648 \<le> x \<and> x \<le> 2147483647"
definition u32_of_i32 :: "int \<Rightarrow> u32" where "u32_of_i32 x = word_of_int x"
definition i32_of_u32 :: "u32 \<Rightarrow> int" where "i32_of_u32 w = sint w"

lemma i32_of_u32_of_i32 [simp]: "in_i32 x \<Longrightarrow> i32_of_u32 (u32_of_i32 x) = x"
  unfolding i32_of_u32_def u32_of_i32_def in_i32_def by (simp add: int_word_sint)

record TailObjective =
  o_id :: TailObjectiveId
  o_generation :: TailObjectiveGeneration
  o_percentile :: Percentile
  o_target :: Duration
  o_window :: WindowConfig
  o_min_samples :: u64
  o_freshness :: Duration
  o_hard :: bool
  o_recovery_fraction :: double
  o_cool_down :: Duration
  o_class_scope :: "RequestClassId option"
  o_priority :: int
  o_enabled :: bool

definition tail_objective_default :: TailObjective where
  "tail_objective_default = \<lparr>o_id = Id 0, o_generation = Id 0, o_percentile = p99,
     o_target = Duration 0, o_window = window_config_default, o_min_samples = 0,
     o_freshness = Duration 0, o_hard = True, o_recovery_fraction = lit 9 10,
     o_cool_down = Duration 0, o_class_scope = None, o_priority = 0, o_enabled = True\<rparr>"

definition effective_min_samples :: "TailObjective \<Rightarrow> nat" where
  "effective_min_samples obj =
     (if o_min_samples obj > 0 then unat (o_min_samples obj) else derived_min_samples (o_percentile obj))"

definition violation_threshold :: "TailObjective \<Rightarrow> Duration" where
  "violation_threshold obj = o_target obj"

definition recovery_threshold :: "TailObjective \<Rightarrow> Duration" where
  "recovery_threshold obj =
     (if fle (o_recovery_fraction obj) (lit 0 1) then o_target obj
      else let r = to_i64 (fmul (of_integer (nanos (o_target obj))) (o_recovery_fraction obj))
           in Duration (if r < 0 then 0 else r))"

record TailPolicy =
  po_id :: TailPolicyId
  po_generation :: TailPolicyGeneration
  po_objectives :: "TailObjective list"
  po_name :: string

definition tail_policy_default :: TailPolicy where
  "tail_policy_default = \<lparr>po_id = Id 0, po_generation = Id 0, po_objectives = [], po_name = ''''\<rparr>"

subsection \<open>The recovery threshold\<close>

lemma recovery_threshold_range:
  assumes "0 \<le> nanos (o_target obj)"
  shows "0 \<le> nanos (recovery_threshold obj)"
  using assms by (simp add: recovery_threshold_def Let_def)

lemma in_i64_recovery_threshold:
  "in_i64 (nanos (o_target obj)) \<Longrightarrow> in_i64 (nanos (recovery_threshold obj))"
  by (simp add: recovery_threshold_def Let_def)

lemma lit_fraction: "0 \<le> a \<Longrightarrow> a \<le> b \<Longrightarrow> 0 < b \<Longrightarrow> fp_finite (lit a b) \<and> dval (lit a b) \<le> 1"
proof -
  assume ab: "0 \<le> a" "a \<le> b" "0 < b"
  then have r: "0 \<le> real_of_int a / real_of_int b" "real_of_int a / real_of_int b \<le> 1" by simp_all
  then have lt: "\<bar>real_of_int a / real_of_int b\<bar> < 2 powi 1023" using pow1023_large by linarith
  have "rn (real_of_int a / real_of_int b) \<le> rn 1" using r by (intro rn_mono)
  also have "rn 1 = (1 :: real)" using rn_int [of 1] by simp
  finally show ?thesis using lit_value [OF ab(3) lt] r(1) by (simp add: rnd_nonneg)
qed

text \<open>The recovery threshold never exceeds the target when the recovery fraction is a finite
  number not above 1 (targets up to 2^53 ns, where the conversion to binary64 is exact): the band
  between the two, in which an objective is at risk, never inverts.\<close>

theorem recovery_threshold_le_target:
  assumes "0 \<le> nanos (o_target obj)" and "nanos (o_target obj) \<le> 9007199254740992"
    and "fp_finite (o_recovery_fraction obj)" and "dval (o_recovery_fraction obj) \<le> 1"
  shows "recovery_threshold obj \<le> o_target obj"
proof (cases "fle (o_recovery_fraction obj) (lit 0 1)")
  case True
  then show ?thesis by (simp add: recovery_threshold_def)
next
  case False
  let ?t = "nanos (o_target obj)" and ?f = "o_recovery_fraction obj"
  have f: "0 < dval ?f" using False lit_int [of 0] assms(3) by (simp add: fle_value)
  have t: "fp_finite (of_integer ?t)" "dval (of_integer ?t) = real_of_int ?t"
    using of_integer_exact [of ?t] assms(1,2) by simp_all
  have p: "0 \<le> real_of_int ?t * dval ?f" "real_of_int ?t * dval ?f \<le> real_of_int ?t"
    using f assms(1,4) by (simp_all add: mult_left_le)
  moreover have "real_of_int ?t < 2 powi 1023" using assms(2) pow1023_large by linarith
  ultimately have "\<bar>dval (of_integer ?t) * dval ?f\<bar> < 2 powi 1023" unfolding t(2) by linarith
  note v = fmul_value [OF t(1) assms(3) this]
  have d: "dval (fmul (of_integer ?t) ?f) = rn (real_of_int ?t * dval ?f)"
    using v(2) t(2) p(1) by (simp add: rnd_nonneg)
  have "rn (real_of_int ?t * dval ?f) \<le> rn (real_of_int ?t)" using p by (intro rn_mono)
  also have "\<dots> = real_of_int ?t" using assms(1,2) by (rule rn_int)
  finally have le: "dval (fmul (of_integer ?t) ?f) \<le> real_of_int ?t" by (simp add: d)
  have "0 \<le> dval (fmul (of_integer ?t) ?f)" using p(1) by (simp add: d rn_nonneg)
  then have "to_i64 (fmul (of_integer ?t) ?f) = \<lfloor>dval (fmul (of_integer ?t) ?f)\<rfloor>"
    using v(1) le assms(2) by (intro to_i64_value) linarith+
  also have "\<dots> \<le> ?t" using le by linarith
  finally show ?thesis
    using False assms(1) by (simp add: recovery_threshold_def Let_def less_eq_Duration_def)
qed

lemma recovery_threshold_le_target_witness:
  "recovery_threshold (tail_objective_default\<lparr>o_target := Duration 200000000\<rparr>) \<le> Duration 200000000"
  using recovery_threshold_le_target [of "tail_objective_default\<lparr>o_target := Duration 200000000\<rparr>"]
    lit_fraction [of 9 10] by (simp add: tail_objective_default_def)

end
