(* ===== verification/TailStates.thy ===== *)
theory TailStates
  imports Quantile
begin

text \<open>Tail states and amplification ratios (tail_state.hpp).\<close>

datatype TailState = HEALTHY | ELEVATED | AT_RISK | VIOLATING | SEVERE | RECOVERING | INSUFFICIENT_EVIDENCE
    | REVALIDATION_REQUIRED | STALE | UNKNOWN

fun TailState_to_string :: "TailState \<Rightarrow> string" where
  "TailState_to_string HEALTHY = ''HEALTHY''"
| "TailState_to_string ELEVATED = ''ELEVATED''"
| "TailState_to_string AT_RISK = ''AT_RISK''"
| "TailState_to_string VIOLATING = ''VIOLATING''"
| "TailState_to_string SEVERE = ''SEVERE''"
| "TailState_to_string RECOVERING = ''RECOVERING''"
| "TailState_to_string INSUFFICIENT_EVIDENCE = ''INSUFFICIENT_EVIDENCE''"
| "TailState_to_string REVALIDATION_REQUIRED = ''REVALIDATION_REQUIRED''"
| "TailState_to_string STALE = ''STALE''"
| "TailState_to_string UNKNOWN = ''UNKNOWN''"

record Amplification =
  am_p99_over_p50 :: "double option"
  am_p999_over_p50 :: "double option"
  am_p99_over_mean :: "double option"
  am_p999_over_p95 :: "double option"

definition amplification_default :: Amplification where
  "amplification_default = \<lparr>am_p99_over_p50 = None, am_p999_over_p50 = None,
     am_p99_over_mean = None, am_p999_over_p95 = None\<rparr>"

text \<open>A ratio is produced when both values are present and the denominator is not zero.\<close>

definition ratio :: "Duration option \<Rightarrow> Duration option \<Rightarrow> double option" where
  "ratio num denom = (case (num, denom) of
     (Some a, Some b) \<Rightarrow>
       (if \<not> is_zero b then Some (fdiv (of_integer (nanos a)) (of_integer (nanos b))) else None)
   | _ \<Rightarrow> None)"

definition compute_amplification ::
    "Duration option \<Rightarrow> Duration option \<Rightarrow> Duration option \<Rightarrow> Duration option \<Rightarrow> Duration option
     \<Rightarrow> Amplification" where
  "compute_amplification q50 q95 q99 q999 mean = \<lparr>am_p99_over_p50 = ratio q99 q50,
     am_p999_over_p50 = ratio q999 q50, am_p99_over_mean = ratio q99 mean,
     am_p999_over_p95 = ratio q999 q95\<rparr>"

end
