(* ===== verification/Authority.thy ===== *)
theory Authority
  imports Identity
begin

text \<open>The generations a decision was made under, and the comparison that fences it (authority.hpp).\<close>

record AuthorityContext =
  a_epoch :: CoordinatorEpoch
  a_service :: ServiceId
  a_service_generation :: ServiceGeneration
  a_workload :: WorkloadId
  a_workload_generation :: WorkloadGeneration
  a_policy :: TailPolicyId
  a_policy_generation :: TailPolicyGeneration
  a_objective :: TailObjectiveId
  a_objective_generation :: TailObjectiveGeneration
  a_queue_generation :: "QueueGeneration option"
  a_batch_generation :: "BatchGeneration option"
  a_resource_generation :: "ResourceGeneration option"
  a_worker_boot :: "WorkerBootId option"
  a_engine_incarnation :: "EngineIncarnationId option"
  a_recovery_generation :: "RecoveryGeneration option"
  a_topology_generation :: "TopologyGeneration option"

definition authority_default :: AuthorityContext where
  "authority_default = \<lparr>a_epoch = Id 0, a_service = Id 0, a_service_generation = Id 0,
     a_workload = Id 0, a_workload_generation = Id 0, a_policy = Id 0, a_policy_generation = Id 0,
     a_objective = Id 0, a_objective_generation = Id 0, a_queue_generation = None,
     a_batch_generation = None, a_resource_generation = None, a_worker_boot = None,
     a_engine_incarnation = None, a_recovery_generation = None, a_topology_generation = None\<rparr>"

definition same :: "AuthorityContext \<Rightarrow> AuthorityContext \<Rightarrow> bool" where
  "same a b =
     (if a_epoch a \<noteq> a_epoch b then False
      else if a_service a \<noteq> a_service b then False
      else if a_service_generation a \<noteq> a_service_generation b then False
      else if a_workload a \<noteq> a_workload b then False
      else if a_workload_generation a \<noteq> a_workload_generation b then False
      else if a_policy a \<noteq> a_policy b then False
      else if a_policy_generation a \<noteq> a_policy_generation b then False
      else if a_objective a \<noteq> a_objective b then False
      else if a_objective_generation a \<noteq> a_objective_generation b then False
      else if a_queue_generation a \<noteq> a_queue_generation b then False
      else if a_batch_generation a \<noteq> a_batch_generation b then False
      else if a_resource_generation a \<noteq> a_resource_generation b then False
      else if a_worker_boot a \<noteq> a_worker_boot b then False
      else if a_engine_incarnation a \<noteq> a_engine_incarnation b then False
      else if a_recovery_generation a \<noteq> a_recovery_generation b then False
      else if a_topology_generation a \<noteq> a_topology_generation b then False
      else True)"

text \<open>The comparison covers every field: no generation can change unnoticed.\<close>

lemma same_iff_eq: "same a b \<longleftrightarrow> a = b"
  by (cases a; cases b) (simp add: same_def)

end
