(* ===== verification/Causes.thy ===== *)
theory Causes
  imports Latency
begin

text \<open>Cause categories, attribution strength and the mapping from phases to causes (cause.hpp).\<close>

datatype TailCauseCategory = QUEUEING | BATCHING | COLD_RESIDENCY | MODEL_OR_STATE_LOAD | TRANSFER | MEMORY_PRESSURE
    | RESOURCE_CONTENTION | EXECUTION_VARIANCE | PREEMPTION | RECOVERY | RETRY
    | BACKEND_STALL | PUBLICATION_DELAY | CAPACITY_SHORTAGE | PRIORITY_INVERSION | UNKNOWN
    | Unlisted nat

fun TailCauseCategory_to_string :: "TailCauseCategory \<Rightarrow> string" where
  "TailCauseCategory_to_string QUEUEING = ''QUEUEING''"
| "TailCauseCategory_to_string BATCHING = ''BATCHING''"
| "TailCauseCategory_to_string COLD_RESIDENCY = ''COLD_RESIDENCY''"
| "TailCauseCategory_to_string MODEL_OR_STATE_LOAD = ''MODEL_OR_STATE_LOAD''"
| "TailCauseCategory_to_string TRANSFER = ''TRANSFER''"
| "TailCauseCategory_to_string MEMORY_PRESSURE = ''MEMORY_PRESSURE''"
| "TailCauseCategory_to_string RESOURCE_CONTENTION = ''RESOURCE_CONTENTION''"
| "TailCauseCategory_to_string EXECUTION_VARIANCE = ''EXECUTION_VARIANCE''"
| "TailCauseCategory_to_string PREEMPTION = ''PREEMPTION''"
| "TailCauseCategory_to_string RECOVERY = ''RECOVERY''"
| "TailCauseCategory_to_string RETRY = ''RETRY''"
| "TailCauseCategory_to_string BACKEND_STALL = ''BACKEND_STALL''"
| "TailCauseCategory_to_string PUBLICATION_DELAY = ''PUBLICATION_DELAY''"
| "TailCauseCategory_to_string CAPACITY_SHORTAGE = ''CAPACITY_SHORTAGE''"
| "TailCauseCategory_to_string PRIORITY_INVERSION = ''PRIORITY_INVERSION''"
| "TailCauseCategory_to_string UNKNOWN = ''UNKNOWN''"
| "TailCauseCategory_to_string (Unlisted k) = ''UNKNOWN''"

fun TailCauseCategory_code :: "TailCauseCategory \<Rightarrow> nat" where
  "TailCauseCategory_code QUEUEING = 0"
| "TailCauseCategory_code BATCHING = 1"
| "TailCauseCategory_code COLD_RESIDENCY = 2"
| "TailCauseCategory_code MODEL_OR_STATE_LOAD = 3"
| "TailCauseCategory_code TRANSFER = 4"
| "TailCauseCategory_code MEMORY_PRESSURE = 5"
| "TailCauseCategory_code RESOURCE_CONTENTION = 6"
| "TailCauseCategory_code EXECUTION_VARIANCE = 7"
| "TailCauseCategory_code PREEMPTION = 8"
| "TailCauseCategory_code RECOVERY = 9"
| "TailCauseCategory_code RETRY = 10"
| "TailCauseCategory_code BACKEND_STALL = 11"
| "TailCauseCategory_code PUBLICATION_DELAY = 12"
| "TailCauseCategory_code CAPACITY_SHORTAGE = 13"
| "TailCauseCategory_code PRIORITY_INVERSION = 14"
| "TailCauseCategory_code UNKNOWN = 15"
| "TailCauseCategory_code (Unlisted k) = 16 + k"

definition TailCauseCategory_list :: "TailCauseCategory list" where
  "TailCauseCategory_list = [QUEUEING, BATCHING, COLD_RESIDENCY, MODEL_OR_STATE_LOAD,
     TRANSFER, MEMORY_PRESSURE, RESOURCE_CONTENTION, EXECUTION_VARIANCE,
     PREEMPTION, RECOVERY, RETRY, BACKEND_STALL,
     PUBLICATION_DELAY, CAPACITY_SHORTAGE, PRIORITY_INVERSION, UNKNOWN]"

definition TailCauseCategory_of_code :: "nat \<Rightarrow> TailCauseCategory" where
  "TailCauseCategory_of_code c = (if c < 16 then TailCauseCategory_list ! c else Unlisted (c - 16))"

lemma TailCauseCategory_code_of_code: "TailCauseCategory_code (TailCauseCategory_of_code c) = c"
proof (cases "c < length TailCauseCategory_list")
  case True
  have "map TailCauseCategory_code TailCauseCategory_list = [0..<length TailCauseCategory_list]"
    by (simp add: TailCauseCategory_list_def upt_rec)
  from nth_code [OF this True] True show ?thesis by (simp add: TailCauseCategory_of_code_def TailCauseCategory_list_def)
next
  case False
  then show ?thesis by (simp add: TailCauseCategory_of_code_def TailCauseCategory_list_def)
qed

lemma TailCauseCategory_of_code_code: "TailCauseCategory_of_code (TailCauseCategory_code x) = x"
  by (cases x) (simp_all add: TailCauseCategory_of_code_def TailCauseCategory_list_def)

interpretation cause_enum: enumeration TailCauseCategory_code TailCauseCategory_of_code
  by unfold_locales (simp_all add: TailCauseCategory_code_of_code TailCauseCategory_of_code_code)

fun phase_to_cause :: "Phase \<Rightarrow> TailCauseCategory" where
  "phase_to_cause Phase.ADMISSION_WAIT = TailCauseCategory.QUEUEING"
| "phase_to_cause Phase.QUEUE_WAIT = TailCauseCategory.QUEUEING"
| "phase_to_cause Phase.BATCH_WAIT = TailCauseCategory.BATCHING"
| "phase_to_cause Phase.MODEL_LOAD = TailCauseCategory.COLD_RESIDENCY"
| "phase_to_cause Phase.ENGINE_WARMUP = TailCauseCategory.COLD_RESIDENCY"
| "phase_to_cause Phase.STATE_FETCH = TailCauseCategory.MODEL_OR_STATE_LOAD"
| "phase_to_cause Phase.TRANSFER = TailCauseCategory.TRANSFER"
| "phase_to_cause Phase.MEMORY_RECLAIM = TailCauseCategory.MEMORY_PRESSURE"
| "phase_to_cause Phase.EXECUTION = TailCauseCategory.EXECUTION_VARIANCE"
| "phase_to_cause Phase.PREFILL = TailCauseCategory.EXECUTION_VARIANCE"
| "phase_to_cause Phase.DECODE = TailCauseCategory.EXECUTION_VARIANCE"
| "phase_to_cause Phase.BACKEND_WAIT = TailCauseCategory.EXECUTION_VARIANCE"
| "phase_to_cause Phase.PREEMPTION_WAIT = TailCauseCategory.PREEMPTION"
| "phase_to_cause Phase.RECOVERY_WAIT = TailCauseCategory.RECOVERY"
| "phase_to_cause Phase.RETRY_DELAY = TailCauseCategory.RETRY"
| "phase_to_cause Phase.PUBLICATION = TailCauseCategory.PUBLICATION_DELAY"
| "phase_to_cause Phase.OTHER = TailCauseCategory.UNKNOWN"
| "phase_to_cause (Phase.Unlisted k) = TailCauseCategory.UNKNOWN"

datatype Attribution = DOMINANT_CONTRIBUTOR | ASSOCIATED_CONTRIBUTOR | UNKNOWN_CAUSE

fun Attribution_to_string :: "Attribution \<Rightarrow> string" where
  "Attribution_to_string DOMINANT_CONTRIBUTOR = ''DOMINANT_CONTRIBUTOR''"
| "Attribution_to_string ASSOCIATED_CONTRIBUTOR = ''ASSOCIATED_CONTRIBUTOR''"
| "Attribution_to_string UNKNOWN_CAUSE = ''UNKNOWN_CAUSE''"

record TailCause =
  tc_category :: TailCauseCategory
  tc_attribution :: Attribution
  tc_confidence :: double
  tc_excess :: Duration
  tc_share :: Duration
  tc_evidence :: string

definition tail_cause_default :: TailCause where
  "tail_cause_default = \<lparr>tc_category = TailCauseCategory.UNKNOWN, tc_attribution = UNKNOWN_CAUSE,
     tc_confidence = lit 0 1, tc_excess = Duration 0, tc_share = Duration 0, tc_evidence = ''''\<rparr>"

text \<open>Only the catch-all phase and codes without a phase have no cause.\<close>

lemma phase_to_cause_unknown:
  "phase_to_cause p = TailCauseCategory.UNKNOWN \<longleftrightarrow> p = Phase.OTHER \<or> (\<exists>k. p = Phase.Unlisted k)"
  by (cases p) simp_all

end
