(* ===== verification/Interventions.thy ===== *)
theory Interventions
  imports Authority Causes
begin

text \<open>Intervention classes, their lifecycle, rejection reasons and outcomes (intervention.hpp).\<close>

datatype InterventionType = NO_ACTION | QUEUE_REPRIORITIZE | QUEUE_SHAPE | LIMIT_QUEUE_DEPTH | BOUND_QUEUE_WAIT
    | REDUCE_BATCH_SIZE | SPLIT_BATCH | DISABLE_BATCH_FOR_CLASS | WARM_RESIDENCY
    | PIN_RESIDENCY | PROMOTE_WARM_ENGINE | RESERVE_CAPACITY | RESERVE_BANDWIDTH
    | PREEMPT_LOWER_PRIORITY | DEFER_LOW_PRIORITY | SHED_LOAD | RECLAIM_MEMORY
    | CHANGE_PLACEMENT | ACCELERATE_RECOVERY | REPLAN_RECOVERY | FAILOVER | ESCALATE
    | MANUAL_INTERVENTION_REQUIRED | Unlisted nat

fun InterventionType_to_string :: "InterventionType \<Rightarrow> string" where
  "InterventionType_to_string NO_ACTION = ''NO_ACTION''"
| "InterventionType_to_string QUEUE_REPRIORITIZE = ''QUEUE_REPRIORITIZE''"
| "InterventionType_to_string QUEUE_SHAPE = ''QUEUE_SHAPE''"
| "InterventionType_to_string LIMIT_QUEUE_DEPTH = ''LIMIT_QUEUE_DEPTH''"
| "InterventionType_to_string BOUND_QUEUE_WAIT = ''BOUND_QUEUE_WAIT''"
| "InterventionType_to_string REDUCE_BATCH_SIZE = ''REDUCE_BATCH_SIZE''"
| "InterventionType_to_string SPLIT_BATCH = ''SPLIT_BATCH''"
| "InterventionType_to_string DISABLE_BATCH_FOR_CLASS = ''DISABLE_BATCH_FOR_CLASS''"
| "InterventionType_to_string WARM_RESIDENCY = ''WARM_RESIDENCY''"
| "InterventionType_to_string PIN_RESIDENCY = ''PIN_RESIDENCY''"
| "InterventionType_to_string PROMOTE_WARM_ENGINE = ''PROMOTE_WARM_ENGINE''"
| "InterventionType_to_string RESERVE_CAPACITY = ''RESERVE_CAPACITY''"
| "InterventionType_to_string RESERVE_BANDWIDTH = ''RESERVE_BANDWIDTH''"
| "InterventionType_to_string PREEMPT_LOWER_PRIORITY = ''PREEMPT_LOWER_PRIORITY''"
| "InterventionType_to_string DEFER_LOW_PRIORITY = ''DEFER_LOW_PRIORITY''"
| "InterventionType_to_string SHED_LOAD = ''SHED_LOAD''"
| "InterventionType_to_string RECLAIM_MEMORY = ''RECLAIM_MEMORY''"
| "InterventionType_to_string CHANGE_PLACEMENT = ''CHANGE_PLACEMENT''"
| "InterventionType_to_string ACCELERATE_RECOVERY = ''ACCELERATE_RECOVERY''"
| "InterventionType_to_string REPLAN_RECOVERY = ''REPLAN_RECOVERY''"
| "InterventionType_to_string FAILOVER = ''FAILOVER''"
| "InterventionType_to_string ESCALATE = ''ESCALATE''"
| "InterventionType_to_string MANUAL_INTERVENTION_REQUIRED = ''MANUAL_INTERVENTION_REQUIRED''"
| "InterventionType_to_string (Unlisted k) = ''UNKNOWN''"

fun InterventionType_code :: "InterventionType \<Rightarrow> nat" where
  "InterventionType_code NO_ACTION = 0"
| "InterventionType_code QUEUE_REPRIORITIZE = 1"
| "InterventionType_code QUEUE_SHAPE = 2"
| "InterventionType_code LIMIT_QUEUE_DEPTH = 3"
| "InterventionType_code BOUND_QUEUE_WAIT = 4"
| "InterventionType_code REDUCE_BATCH_SIZE = 5"
| "InterventionType_code SPLIT_BATCH = 6"
| "InterventionType_code DISABLE_BATCH_FOR_CLASS = 7"
| "InterventionType_code WARM_RESIDENCY = 8"
| "InterventionType_code PIN_RESIDENCY = 9"
| "InterventionType_code PROMOTE_WARM_ENGINE = 10"
| "InterventionType_code RESERVE_CAPACITY = 11"
| "InterventionType_code RESERVE_BANDWIDTH = 12"
| "InterventionType_code PREEMPT_LOWER_PRIORITY = 13"
| "InterventionType_code DEFER_LOW_PRIORITY = 14"
| "InterventionType_code SHED_LOAD = 15"
| "InterventionType_code RECLAIM_MEMORY = 16"
| "InterventionType_code CHANGE_PLACEMENT = 17"
| "InterventionType_code ACCELERATE_RECOVERY = 18"
| "InterventionType_code REPLAN_RECOVERY = 19"
| "InterventionType_code FAILOVER = 20"
| "InterventionType_code ESCALATE = 21"
| "InterventionType_code MANUAL_INTERVENTION_REQUIRED = 22"
| "InterventionType_code (Unlisted k) = 23 + k"

definition InterventionType_list :: "InterventionType list" where
  "InterventionType_list = [NO_ACTION, QUEUE_REPRIORITIZE, QUEUE_SHAPE, LIMIT_QUEUE_DEPTH,
     BOUND_QUEUE_WAIT, REDUCE_BATCH_SIZE, SPLIT_BATCH, DISABLE_BATCH_FOR_CLASS,
     WARM_RESIDENCY, PIN_RESIDENCY, PROMOTE_WARM_ENGINE, RESERVE_CAPACITY,
     RESERVE_BANDWIDTH, PREEMPT_LOWER_PRIORITY, DEFER_LOW_PRIORITY, SHED_LOAD,
     RECLAIM_MEMORY, CHANGE_PLACEMENT, ACCELERATE_RECOVERY, REPLAN_RECOVERY,
     FAILOVER, ESCALATE, MANUAL_INTERVENTION_REQUIRED]"

definition InterventionType_of_code :: "nat \<Rightarrow> InterventionType" where
  "InterventionType_of_code c = (if c < 23 then InterventionType_list ! c else Unlisted (c - 23))"

lemma InterventionType_code_of_code: "InterventionType_code (InterventionType_of_code c) = c"
proof (cases "c < length InterventionType_list")
  case True
  have "map InterventionType_code InterventionType_list = [0..<length InterventionType_list]"
    by (simp add: InterventionType_list_def upt_rec)
  from nth_code [OF this True] True show ?thesis by (simp add: InterventionType_of_code_def InterventionType_list_def)
next
  case False
  then show ?thesis by (simp add: InterventionType_of_code_def InterventionType_list_def)
qed

lemma InterventionType_of_code_code: "InterventionType_of_code (InterventionType_code x) = x"
  by (cases x) (simp_all add: InterventionType_of_code_def InterventionType_list_def)

interpretation intervention_type_enum: enumeration InterventionType_code InterventionType_of_code
  by unfold_locales (simp_all add: InterventionType_code_of_code InterventionType_of_code_code)

datatype InterventionStatus = PROPOSED | AUTHORIZED | DISPATCHED | ACKNOWLEDGED | EFFECTIVE | INEFFECTIVE | FAILED
    | CANCELLED | SUPERSEDED | EXPIRED | OUTCOME_UNKNOWN | Unlisted nat

fun InterventionStatus_to_string :: "InterventionStatus \<Rightarrow> string" where
  "InterventionStatus_to_string PROPOSED = ''PROPOSED''"
| "InterventionStatus_to_string AUTHORIZED = ''AUTHORIZED''"
| "InterventionStatus_to_string DISPATCHED = ''DISPATCHED''"
| "InterventionStatus_to_string ACKNOWLEDGED = ''ACKNOWLEDGED''"
| "InterventionStatus_to_string EFFECTIVE = ''EFFECTIVE''"
| "InterventionStatus_to_string INEFFECTIVE = ''INEFFECTIVE''"
| "InterventionStatus_to_string FAILED = ''FAILED''"
| "InterventionStatus_to_string CANCELLED = ''CANCELLED''"
| "InterventionStatus_to_string SUPERSEDED = ''SUPERSEDED''"
| "InterventionStatus_to_string EXPIRED = ''EXPIRED''"
| "InterventionStatus_to_string OUTCOME_UNKNOWN = ''OUTCOME_UNKNOWN''"
| "InterventionStatus_to_string (Unlisted k) = ''UNKNOWN''"

fun InterventionStatus_code :: "InterventionStatus \<Rightarrow> nat" where
  "InterventionStatus_code PROPOSED = 0"
| "InterventionStatus_code AUTHORIZED = 1"
| "InterventionStatus_code DISPATCHED = 2"
| "InterventionStatus_code ACKNOWLEDGED = 3"
| "InterventionStatus_code EFFECTIVE = 4"
| "InterventionStatus_code INEFFECTIVE = 5"
| "InterventionStatus_code FAILED = 6"
| "InterventionStatus_code CANCELLED = 7"
| "InterventionStatus_code SUPERSEDED = 8"
| "InterventionStatus_code EXPIRED = 9"
| "InterventionStatus_code OUTCOME_UNKNOWN = 10"
| "InterventionStatus_code (Unlisted k) = 11 + k"

definition InterventionStatus_list :: "InterventionStatus list" where
  "InterventionStatus_list = [PROPOSED, AUTHORIZED, DISPATCHED, ACKNOWLEDGED,
     EFFECTIVE, INEFFECTIVE, FAILED, CANCELLED,
     SUPERSEDED, EXPIRED, OUTCOME_UNKNOWN]"

definition InterventionStatus_of_code :: "nat \<Rightarrow> InterventionStatus" where
  "InterventionStatus_of_code c = (if c < 11 then InterventionStatus_list ! c else Unlisted (c - 11))"

lemma InterventionStatus_code_of_code: "InterventionStatus_code (InterventionStatus_of_code c) = c"
proof (cases "c < length InterventionStatus_list")
  case True
  have "map InterventionStatus_code InterventionStatus_list = [0..<length InterventionStatus_list]"
    by (simp add: InterventionStatus_list_def upt_rec)
  from nth_code [OF this True] True show ?thesis by (simp add: InterventionStatus_of_code_def InterventionStatus_list_def)
next
  case False
  then show ?thesis by (simp add: InterventionStatus_of_code_def InterventionStatus_list_def)
qed

lemma InterventionStatus_of_code_code: "InterventionStatus_of_code (InterventionStatus_code x) = x"
  by (cases x) (simp_all add: InterventionStatus_of_code_def InterventionStatus_list_def)

interpretation intervention_status_enum: enumeration InterventionStatus_code InterventionStatus_of_code
  by unfold_locales (simp_all add: InterventionStatus_code_of_code InterventionStatus_of_code_code)

datatype Infeasibility = NONE | NON_PREEMPTIBLE | ENGINE_UNAVAILABLE | CAPACITY_UNAVAILABLE | INCOMPATIBLE_TARGET
    | NO_FAILOVER_CANDIDATE | BELOW_MIN_BATCH | PROTECTED_TRAFFIC | VIOLATES_HARD_SLO
    | EXCEEDS_HARD_ECONOMY | STALE_AUTHORITY | SHUTTING_DOWN | Unlisted nat

fun Infeasibility_to_string :: "Infeasibility \<Rightarrow> string" where
  "Infeasibility_to_string NONE = ''NONE''"
| "Infeasibility_to_string NON_PREEMPTIBLE = ''NON_PREEMPTIBLE''"
| "Infeasibility_to_string ENGINE_UNAVAILABLE = ''ENGINE_UNAVAILABLE''"
| "Infeasibility_to_string CAPACITY_UNAVAILABLE = ''CAPACITY_UNAVAILABLE''"
| "Infeasibility_to_string INCOMPATIBLE_TARGET = ''INCOMPATIBLE_TARGET''"
| "Infeasibility_to_string NO_FAILOVER_CANDIDATE = ''NO_FAILOVER_CANDIDATE''"
| "Infeasibility_to_string BELOW_MIN_BATCH = ''BELOW_MIN_BATCH''"
| "Infeasibility_to_string PROTECTED_TRAFFIC = ''PROTECTED_TRAFFIC''"
| "Infeasibility_to_string VIOLATES_HARD_SLO = ''VIOLATES_HARD_SLO''"
| "Infeasibility_to_string EXCEEDS_HARD_ECONOMY = ''EXCEEDS_HARD_ECONOMY''"
| "Infeasibility_to_string STALE_AUTHORITY = ''STALE_AUTHORITY''"
| "Infeasibility_to_string SHUTTING_DOWN = ''SHUTTING_DOWN''"
| "Infeasibility_to_string (Unlisted k) = ''UNKNOWN''"

fun Infeasibility_code :: "Infeasibility \<Rightarrow> nat" where
  "Infeasibility_code NONE = 0"
| "Infeasibility_code NON_PREEMPTIBLE = 1"
| "Infeasibility_code ENGINE_UNAVAILABLE = 2"
| "Infeasibility_code CAPACITY_UNAVAILABLE = 3"
| "Infeasibility_code INCOMPATIBLE_TARGET = 4"
| "Infeasibility_code NO_FAILOVER_CANDIDATE = 5"
| "Infeasibility_code BELOW_MIN_BATCH = 6"
| "Infeasibility_code PROTECTED_TRAFFIC = 7"
| "Infeasibility_code VIOLATES_HARD_SLO = 8"
| "Infeasibility_code EXCEEDS_HARD_ECONOMY = 9"
| "Infeasibility_code STALE_AUTHORITY = 10"
| "Infeasibility_code SHUTTING_DOWN = 11"
| "Infeasibility_code (Unlisted k) = 12 + k"

definition Infeasibility_list :: "Infeasibility list" where
  "Infeasibility_list = [NONE, NON_PREEMPTIBLE, ENGINE_UNAVAILABLE, CAPACITY_UNAVAILABLE,
     INCOMPATIBLE_TARGET, NO_FAILOVER_CANDIDATE, BELOW_MIN_BATCH, PROTECTED_TRAFFIC,
     VIOLATES_HARD_SLO, EXCEEDS_HARD_ECONOMY, STALE_AUTHORITY, SHUTTING_DOWN]"

definition Infeasibility_of_code :: "nat \<Rightarrow> Infeasibility" where
  "Infeasibility_of_code c = (if c < 12 then Infeasibility_list ! c else Unlisted (c - 12))"

lemma Infeasibility_code_of_code: "Infeasibility_code (Infeasibility_of_code c) = c"
proof (cases "c < length Infeasibility_list")
  case True
  have "map Infeasibility_code Infeasibility_list = [0..<length Infeasibility_list]"
    by (simp add: Infeasibility_list_def upt_rec)
  from nth_code [OF this True] True show ?thesis by (simp add: Infeasibility_of_code_def Infeasibility_list_def)
next
  case False
  then show ?thesis by (simp add: Infeasibility_of_code_def Infeasibility_list_def)
qed

lemma Infeasibility_of_code_code: "Infeasibility_of_code (Infeasibility_code x) = x"
  by (cases x) (simp_all add: Infeasibility_of_code_def Infeasibility_list_def)

interpretation infeasibility_enum: enumeration Infeasibility_code Infeasibility_of_code
  by unfold_locales (simp_all add: Infeasibility_code_of_code Infeasibility_of_code_code)

record InterventionEconomics =
  ie_expected_p99_reduction :: double
  ie_expected_p999_reduction :: double
  ie_p50_p95_impact :: double
  ie_throughput_impact :: double
  ie_capacity_cost :: double
  ie_memory_cost :: double
  ie_transfer_cost :: double
  ie_displaced_work :: double
  ie_fairness_impact :: double
  ie_recovery_risk :: double
  ie_preemption_resume_cost :: double
  ie_expected_effect_duration :: double
  ie_uncertainty :: double

definition economics_default :: InterventionEconomics where
  "economics_default = \<lparr>ie_expected_p99_reduction = lit 0 1, ie_expected_p999_reduction = lit 0 1,
     ie_p50_p95_impact = lit 0 1, ie_throughput_impact = lit 0 1, ie_capacity_cost = lit 0 1,
     ie_memory_cost = lit 0 1, ie_transfer_cost = lit 0 1, ie_displaced_work = lit 0 1,
     ie_fairness_impact = lit 0 1, ie_recovery_risk = lit 0 1, ie_preemption_resume_cost = lit 0 1,
     ie_expected_effect_duration = lit 0 1, ie_uncertainty = lit 0 1\<rparr>"

record Intervention =
  inv_id :: InterventionId
  inv_generation :: InterventionGeneration
  inv_type :: InterventionType
  inv_status :: InterventionStatus
  inv_target_cause :: TailCauseCategory
  inv_target_class :: RequestClassId
  inv_authority :: AuthorityContext
  inv_objective :: TailObjectiveId
  inv_objective_generation :: TailObjectiveGeneration
  inv_estimated_tail_effect :: Duration
  inv_economics :: InterventionEconomics
  inv_feasibility :: Infeasibility
  inv_confidence :: double
  inv_proposed_at_ns :: int
  inv_expiry_at_ns :: int
  inv_reason :: string

definition intervention_default :: Intervention where
  "intervention_default = \<lparr>inv_id = Id 0, inv_generation = Id 0, inv_type = NO_ACTION,
     inv_status = PROPOSED, inv_target_cause = TailCauseCategory.UNKNOWN, inv_target_class = Id 0,
     inv_authority = authority_default, inv_objective = Id 0, inv_objective_generation = Id 0,
     inv_estimated_tail_effect = Duration 0, inv_economics = economics_default,
     inv_feasibility = Infeasibility.NONE, inv_confidence = lit 0 1, inv_proposed_at_ns = 0,
     inv_expiry_at_ns = 0, inv_reason = ''''\<rparr>"

definition terminal_status :: "InterventionStatus \<Rightarrow> bool" where
  "terminal_status s = (case s of
     InterventionStatus.EFFECTIVE \<Rightarrow> True | InterventionStatus.INEFFECTIVE \<Rightarrow> True
   | InterventionStatus.FAILED \<Rightarrow> True | InterventionStatus.CANCELLED \<Rightarrow> True
   | SUPERSEDED \<Rightarrow> True | EXPIRED \<Rightarrow> True | InterventionStatus.OUTCOME_UNKNOWN \<Rightarrow> True
   | _ \<Rightarrow> False)"

definition is_terminal :: "Intervention \<Rightarrow> bool" where
  "is_terminal i = terminal_status (inv_status i)"

datatype PostOutcome = EFFECTIVE | PARTIALLY_EFFECTIVE | INEFFECTIVE | WORSENED_TAIL
    | CREATED_SECONDARY_VIOLATION | INSUFFICIENT_POST_ACTION_EVIDENCE | OUTCOME_UNKNOWN
    | Unlisted nat

fun PostOutcome_to_string :: "PostOutcome \<Rightarrow> string" where
  "PostOutcome_to_string EFFECTIVE = ''EFFECTIVE''"
| "PostOutcome_to_string PARTIALLY_EFFECTIVE = ''PARTIALLY_EFFECTIVE''"
| "PostOutcome_to_string INEFFECTIVE = ''INEFFECTIVE''"
| "PostOutcome_to_string WORSENED_TAIL = ''WORSENED_TAIL''"
| "PostOutcome_to_string CREATED_SECONDARY_VIOLATION = ''CREATED_SECONDARY_VIOLATION''"
| "PostOutcome_to_string INSUFFICIENT_POST_ACTION_EVIDENCE = ''INSUFFICIENT_POST_ACTION_EVIDENCE''"
| "PostOutcome_to_string OUTCOME_UNKNOWN = ''OUTCOME_UNKNOWN''"
| "PostOutcome_to_string (Unlisted k) = ''UNKNOWN''"

fun PostOutcome_code :: "PostOutcome \<Rightarrow> nat" where
  "PostOutcome_code EFFECTIVE = 0"
| "PostOutcome_code PARTIALLY_EFFECTIVE = 1"
| "PostOutcome_code INEFFECTIVE = 2"
| "PostOutcome_code WORSENED_TAIL = 3"
| "PostOutcome_code CREATED_SECONDARY_VIOLATION = 4"
| "PostOutcome_code INSUFFICIENT_POST_ACTION_EVIDENCE = 5"
| "PostOutcome_code OUTCOME_UNKNOWN = 6"
| "PostOutcome_code (Unlisted k) = 7 + k"

definition PostOutcome_list :: "PostOutcome list" where
  "PostOutcome_list = [EFFECTIVE, PARTIALLY_EFFECTIVE, INEFFECTIVE, WORSENED_TAIL,
     CREATED_SECONDARY_VIOLATION, INSUFFICIENT_POST_ACTION_EVIDENCE, OUTCOME_UNKNOWN]"

definition PostOutcome_of_code :: "nat \<Rightarrow> PostOutcome" where
  "PostOutcome_of_code c = (if c < 7 then PostOutcome_list ! c else Unlisted (c - 7))"

lemma PostOutcome_code_of_code: "PostOutcome_code (PostOutcome_of_code c) = c"
proof (cases "c < length PostOutcome_list")
  case True
  have "map PostOutcome_code PostOutcome_list = [0..<length PostOutcome_list]"
    by (simp add: PostOutcome_list_def upt_rec)
  from nth_code [OF this True] True show ?thesis by (simp add: PostOutcome_of_code_def PostOutcome_list_def)
next
  case False
  then show ?thesis by (simp add: PostOutcome_of_code_def PostOutcome_list_def)
qed

lemma PostOutcome_of_code_code: "PostOutcome_of_code (PostOutcome_code x) = x"
  by (cases x) (simp_all add: PostOutcome_of_code_def PostOutcome_list_def)

interpretation post_outcome_enum: enumeration PostOutcome_code PostOutcome_of_code
  by unfold_locales (simp_all add: PostOutcome_code_of_code PostOutcome_of_code_code)

end
