(* ===== verification/Evaluation.thy ===== *)
theory Evaluation
  imports Objective TailStates Interventions
begin

text \<open>The structured result of evaluating one objective (evaluation.hpp).\<close>

datatype WhatWouldChange = P99_BELOW_RECOVERY | MORE_CAPACITY | QUEUE_DEPTH_DROPS | BATCH_WAIT_DISAPPEARS
    | WARM_ENGINE_READY | TRANSFER_PATH_CLEARS | MEMORY_PRESSURE_FALLS
    | HIGHER_PRIORITY_CLASS_ARRIVES | PREEMPTION_SAFE | TAIL_SUFFICIENCY_IMPROVES
    | P999_EVIDENCE_FRESH | HARD_SLO_BLOCKS | COST_CONSTRAINT_RELAXES

fun WhatWouldChange_to_string :: "WhatWouldChange \<Rightarrow> string" where
  "WhatWouldChange_to_string P99_BELOW_RECOVERY = ''P99_BELOW_RECOVERY''"
| "WhatWouldChange_to_string MORE_CAPACITY = ''MORE_CAPACITY''"
| "WhatWouldChange_to_string QUEUE_DEPTH_DROPS = ''QUEUE_DEPTH_DROPS''"
| "WhatWouldChange_to_string BATCH_WAIT_DISAPPEARS = ''BATCH_WAIT_DISAPPEARS''"
| "WhatWouldChange_to_string WARM_ENGINE_READY = ''WARM_ENGINE_READY''"
| "WhatWouldChange_to_string TRANSFER_PATH_CLEARS = ''TRANSFER_PATH_CLEARS''"
| "WhatWouldChange_to_string MEMORY_PRESSURE_FALLS = ''MEMORY_PRESSURE_FALLS''"
| "WhatWouldChange_to_string HIGHER_PRIORITY_CLASS_ARRIVES = ''HIGHER_PRIORITY_CLASS_ARRIVES''"
| "WhatWouldChange_to_string PREEMPTION_SAFE = ''PREEMPTION_SAFE''"
| "WhatWouldChange_to_string TAIL_SUFFICIENCY_IMPROVES = ''TAIL_SUFFICIENCY_IMPROVES''"
| "WhatWouldChange_to_string P999_EVIDENCE_FRESH = ''P999_EVIDENCE_FRESH''"
| "WhatWouldChange_to_string HARD_SLO_BLOCKS = ''HARD_SLO_BLOCKS''"
| "WhatWouldChange_to_string COST_CONSTRAINT_RELAXES = ''COST_CONSTRAINT_RELAXES''"

record RejectedAlternative =
  ra_type :: InterventionType
  ra_reason :: Infeasibility
  ra_detail :: string

record WhatWouldChangeRecord =
  ww_trigger :: WhatWouldChange
  ww_note :: string

record PhaseContribution =
  pc_phase :: Phase
  pc_total :: Duration
  pc_share :: double
  pc_dominant :: bool

record TailEvaluation =
  ev_id :: EvaluationId
  ev_generation :: EvaluationGeneration
  ev_objective :: TailObjectiveId
  ev_objective_generation :: TailObjectiveGeneration
  ev_percentile :: Percentile
  ev_state :: TailState
  ev_sufficiency :: Sufficiency
  ev_target :: Duration
  ev_recovered_threshold :: Duration
  ev_observed :: Duration
  ev_p50 :: "Duration option"
  ev_p95 :: "Duration option"
  ev_p99_for_p95 :: "Duration option"
  ev_p999 :: "Duration option"
  ev_sample_count :: nat
  ev_min_required :: nat
  ev_window_begin_ns :: int
  ev_window_end_ns :: int
  ev_latest_capture_ns :: int
  ev_freshness_age_ms :: double
  ev_amplification :: Amplification
  ev_causes :: "TailCause list"
  ev_phase_contributions :: "PhaseContribution list"
  ev_selected_intervention :: InterventionType
  ev_selected_intervention_id :: InterventionId
  ev_rejected_alternatives :: "RejectedAlternative list"
  ev_binding_hard_constraint :: "Infeasibility option"
  ev_expected_tail_reduction :: Duration
  ev_expected_collateral :: Duration
  ev_uncertainty :: double
  ev_uncertainty_reason :: string
  ev_what_would_change :: "WhatWouldChangeRecord list"
  ev_authority :: AuthorityContext
  ev_revalidation_required :: bool

definition tail_evaluation_default :: TailEvaluation where
  "tail_evaluation_default = \<lparr>ev_id = Id 0, ev_generation = Id 0, ev_objective = Id 0,
     ev_objective_generation = Id 0, ev_percentile = p99, ev_state = TailState.UNKNOWN,
     ev_sufficiency = Sufficiency.UNKNOWN, ev_target = Duration 0,
     ev_recovered_threshold = Duration 0, ev_observed = Duration 0, ev_p50 = None, ev_p95 = None,
     ev_p99_for_p95 = None, ev_p999 = None, ev_sample_count = 0, ev_min_required = 0,
     ev_window_begin_ns = 0, ev_window_end_ns = 0, ev_latest_capture_ns = 0,
     ev_freshness_age_ms = lit 0 1, ev_amplification = amplification_default, ev_causes = [],
     ev_phase_contributions = [], ev_selected_intervention = NO_ACTION,
     ev_selected_intervention_id = Id 0, ev_rejected_alternatives = [],
     ev_binding_hard_constraint = None, ev_expected_tail_reduction = Duration 0,
     ev_expected_collateral = Duration 0, ev_uncertainty = lit 0 1, ev_uncertainty_reason = '''',
     ev_what_would_change = [], ev_authority = authority_default, ev_revalidation_required = False\<rparr>"

end
