(* ===== verification/StdMap.thy ===== *)
theory StdMap
  imports Prelude
begin

text \<open>
  \<open>std::map\<close> as the code uses it: an association list with strictly ascending keys, so that
  iteration visits the keys in order, which the decision pipeline and the persistence format
  depend on. The interface the other components use is the locale \<open>finite_map\<close>, with the
  ordered iteration added in \<open>ordered_map\<close>; both are interpreted on the association list.
\<close>

type_synonym ('k, 'v) omap = "('k \<times> 'v) list"

definition om_empty :: "('k, 'v) omap" where "om_empty = []"

definition om_find :: "('k, 'v) omap \<Rightarrow> 'k \<Rightarrow> 'v option" where "om_find m = map_of m"

text \<open>\<open>m[k] = v\<close>\<close>

fun om_put :: "'k::linorder \<Rightarrow> 'v \<Rightarrow> ('k, 'v) omap \<Rightarrow> ('k, 'v) omap" where
  "om_put k v [] = [(k, v)]"
| "om_put k v ((a, b) # m) =
     (if k < a then (k, v) # (a, b) # m else if k = a then (k, v) # m else (a, b) # om_put k v m)"

text \<open>\<open>m.erase(k)\<close>\<close>

definition om_erase :: "'k \<Rightarrow> ('k, 'v) omap \<Rightarrow> ('k, 'v) omap" where
  "om_erase k m = filter (\<lambda>kv. fst kv \<noteq> k) m"

text \<open>\<open>m.emplace(k, v)\<close> keeps an existing entry.\<close>

definition om_emplace :: "'k::linorder \<Rightarrow> 'v \<Rightarrow> ('k, 'v) omap \<Rightarrow> ('k, 'v) omap" where
  "om_emplace k v m = (case om_find m k of None \<Rightarrow> om_put k v m | Some _ \<Rightarrow> m)"

text \<open>Reading through \<open>m[k]\<close> inserts the value-initialised element when the key is absent.\<close>

definition om_index :: "'v \<Rightarrow> ('k::linorder, 'v) omap \<Rightarrow> 'k \<Rightarrow> 'v \<times> ('k, 'v) omap" where
  "om_index d m k = (case om_find m k of Some v \<Rightarrow> (v, m) | None \<Rightarrow> (d, om_put k d m))"

definition om_inv :: "('k::linorder, 'v) omap \<Rightarrow> bool" where
  "om_inv m \<longleftrightarrow> sorted_wrt (<) (map fst m)"

lemma map_of_keys:
  "distinct (map fst l) \<Longrightarrow> map (\<lambda>k. (k, the (map_of l k))) (map fst l) = l"
  by (induction l) (auto intro!: map_idI simp: rev_image_eqI)

lemma map_of_rev_distinct:
  assumes "distinct (map fst l)"
  shows "map_of (rev l) = map_of l"
proof (rule ext)
  fix k
  have "distinct (map fst (rev l))" using assms by (simp add: rev_map [symmetric])
  then have "map_of (rev l) k = Some v \<longleftrightarrow> map_of l k = Some v" for v
    using assms by (simp only: map_of_eq_Some_iff set_rev)
  then show "map_of (rev l) k = map_of l k" by (metis option.exhaust)
qed

subsection \<open>The interfaces\<close>

locale finite_map =
  fixes empty :: "'m" and lookup :: "'m \<Rightarrow> 'k \<Rightarrow> 'v option"
    and put :: "'k \<Rightarrow> 'v \<Rightarrow> 'm \<Rightarrow> 'm" and erase :: "'k \<Rightarrow> 'm \<Rightarrow> 'm"
  assumes lookup_empty: "lookup empty = Map.empty"
    and lookup_put: "lookup (put k v m) = (lookup m)(k \<mapsto> v)"
    and lookup_erase: "lookup (erase k m) = (lookup m)(k := None)"
begin

lemma lookup_put_same: "lookup (put k v m) k = Some v"
  by (simp add: lookup_put)

lemma lookup_put_other: "j \<noteq> k \<Longrightarrow> lookup (put k v m) j = lookup m j"
  by (simp add: lookup_put)

lemma lookup_put_cases:
  "lookup (put k v m) j = Some w \<longleftrightarrow> (if j = k then w = v else lookup m j = Some w)"
  by (auto simp: lookup_put)

lemma lookup_fold_put:
  "lookup (foldl (\<lambda>m (k, v). put k v m) m kvs) = lookup m ++ map_of (rev kvs)"
  by (induction kvs arbitrary: m) (auto simp: lookup_put map_add_def fun_eq_iff split: option.splits)

end

locale ordered_map = finite_map empty lookup put erase
  for empty :: "'m" and lookup :: "'m \<Rightarrow> 'k::linorder \<Rightarrow> 'v option"
    and put :: "'k \<Rightarrow> 'v \<Rightarrow> 'm \<Rightarrow> 'm" and erase :: "'k \<Rightarrow> 'm \<Rightarrow> 'm" +
  fixes entries :: "'m \<Rightarrow> ('k \<times> 'v) list" and inv :: "'m \<Rightarrow> bool"
  assumes entries_sorted: "inv m \<Longrightarrow> sorted_wrt (<) (map fst (entries m))"
    and entries_lookup: "inv m \<Longrightarrow> map_of (entries m) = lookup m"
    and inv_empty: "inv empty"
    and inv_put: "inv m \<Longrightarrow> inv (put k v m)"
    and inv_erase: "inv m \<Longrightarrow> inv (erase k m)"
begin

lemma entries_distinct: "inv m \<Longrightarrow> distinct (map fst (entries m))"
  by (metis entries_sorted strict_sorted_iff)

lemma set_entries: "inv m \<Longrightarrow> (k, v) \<in> set (entries m) \<longleftrightarrow> lookup m k = Some v"
  by (metis entries_distinct entries_lookup map_of_eq_Some_iff)

text \<open>What a map holds determines the order in which it is iterated.\<close>

lemma entries_canonical:
  assumes "inv m" and "inv m'" and "lookup m = lookup m'"
  shows "entries m = entries m'"
proof -
  have e: "map_of (entries m) = map_of (entries m')"
    using assms entries_lookup by metis
  then have "set (map fst (entries m)) = set (map fst (entries m'))"
    by (metis dom_map_of_conv_image_fst set_map)
  then have k: "map fst (entries m) = map fst (entries m')"
    using assms(1,2) entries_sorted by (metis strict_sorted_equal)
  show ?thesis
    using map_of_keys [OF entries_distinct [OF assms(1)]]
      map_of_keys [OF entries_distinct [OF assms(2)]] unfolding e k by simp
qed

lemma inv_fold_put: "inv m \<Longrightarrow> inv (foldl (\<lambda>m (k, v). put k v m) m kvs)"
  by (induction kvs arbitrary: m) (auto intro: inv_put)

text \<open>Inserting the entries one by one rebuilds the map.\<close>

lemma rebuild:
  assumes "inv m"
  shows "entries (foldl (\<lambda>m (k, v). put k v m) empty (entries m)) = entries m"
proof (rule entries_canonical)
  show "inv (foldl (\<lambda>m (k, v). put k v m) empty (entries m))"
    by (rule inv_fold_put) (rule inv_empty)
  have "map_of (rev (entries m)) = map_of (entries m)"
    by (rule map_of_rev_distinct) (rule entries_distinct [OF assms])
  then show "lookup (foldl (\<lambda>m (k, v). put k v m) empty (entries m)) = lookup m"
    by (simp add: lookup_fold_put lookup_empty entries_lookup [OF assms])
qed (rule assms)

end

subsection \<open>The association list implements them\<close>

lemma om_find_empty [simp]: "om_find om_empty = Map.empty"
  by (simp add: om_find_def om_empty_def)

lemma om_find_put [simp]: "om_find (om_put k v m) = (om_find m)(k \<mapsto> v)"
  by (induction k v m rule: om_put.induct) (auto simp: om_find_def)

lemma om_find_erase [simp]: "om_find (om_erase k m) = (om_find m)(k := None)"
  by (induction m) (auto simp: om_find_def om_erase_def fun_eq_iff)

lemma set_om_put: "set (map fst (om_put k v m)) = insert k (set (map fst m))"
  by (induction k v m rule: om_put.induct) auto

lemma om_inv_empty [simp, intro]: "om_inv om_empty"
  by (simp add: om_inv_def om_empty_def)

lemma om_inv_put [simp, intro]: "om_inv m \<Longrightarrow> om_inv (om_put k v m)"
proof (induction k v m rule: om_put.induct)
  case (2 k v a b m)
  then show ?case
    using set_om_put [of k v m] by (force simp: om_inv_def)
qed (simp add: om_inv_def)

lemma om_inv_erase [simp, intro]: "om_inv m \<Longrightarrow> om_inv (om_erase k m)"
  by (induction m) (auto simp: om_inv_def om_erase_def)

interpretation om: ordered_map om_empty om_find om_put om_erase id om_inv
  by unfold_locales (simp_all flip: om_find_def, simp add: om_inv_def)

lemma om_find_emplace:
  "om_find (om_emplace k v m) =
     (case om_find m k of None \<Rightarrow> (om_find m)(k \<mapsto> v) | Some _ \<Rightarrow> om_find m)"
  by (simp add: om_emplace_def split: option.splits)

lemma om_inv_emplace [simp, intro]: "om_inv m \<Longrightarrow> om_inv (om_emplace k v m)"
  by (simp add: om_emplace_def split: option.splits)

lemma om_index_fst: "fst (om_index d m k) = (case om_find m k of Some v \<Rightarrow> v | None \<Rightarrow> d)"
  by (simp add: om_index_def split: option.splits)

lemma om_index_snd:
  "om_find (snd (om_index d m k)) =
     (case om_find m k of Some _ \<Rightarrow> om_find m | None \<Rightarrow> (om_find m)(k \<mapsto> d))"
  by (simp add: om_index_def split: option.splits)

lemma om_inv_index [simp, intro]: "om_inv m \<Longrightarrow> om_inv (snd (om_index d m k))"
  by (simp add: om_index_def split: option.splits)

lemma om_rebuild: "om_inv m \<Longrightarrow> foldl (\<lambda>m (k, v). om_put k v m) om_empty m = m"
  using om.rebuild [of m] by simp

end
