(* ===== verification/Decompose.thy ===== *)
theory Decompose
  imports Evaluation StdMap "HOL-Library.Multiset"
begin

text \<open>
  Attribution of a tail to its phases (\<open>decompose_tail\<close> of governor.cpp): which samples form the
  tail, what each phase contributed to them, and the causes that follow.
\<close>

definition slower :: "TailSample \<Rightarrow> TailSample \<Rightarrow> bool" where
  "slower a b \<longleftrightarrow> nanos (ts_latency a) > nanos (ts_latency b)"

text \<open>The samples at or above the cutoff, or else the slowest 64.\<close>

definition tail_samples :: "Duration \<Rightarrow> TailSample list \<Rightarrow> TailSample list" where
  "tail_samples cutoff samples =
     (let tail = filter (\<lambda>s. nanos cutoff > 0 \<and> ts_latency s \<ge> cutoff) samples
      in if tail = [] then take (min 64 (length samples)) (stable_sort slower samples) else tail)"

definition add_phase :: "(Phase, int) omap \<Rightarrow> PhaseLatency \<Rightarrow> (Phase, int) omap" where
  "add_phase totals ph = (let (v, m) = om_index 0 totals (pl_phase ph)
     in om_put (pl_phase ph) (i64 (v + nanos (pl_duration ph))) m)"

definition phase_totals :: "TailSample list \<Rightarrow> (Phase, int) omap" where
  "phase_totals tail = foldl (\<lambda>totals s. foldl add_phase totals (ts_phases s)) om_empty tail"

definition total_latency_of :: "TailSample list \<Rightarrow> int" where
  "total_latency_of tail = foldl (\<lambda>t s. i64 (t + nanos (ts_latency s))) 0 tail"

fun dominant_step :: "Phase \<times> int \<Rightarrow> Phase \<times> int \<Rightarrow> Phase \<times> int" where
  "dominant_step (dominant, dominant_ns) (p, ns) =
     (if ns > dominant_ns \<or> (ns = dominant_ns \<and>
           int_of_code (Phase_code p) < int_of_code (Phase_code dominant))
      then (p, ns) else (dominant, dominant_ns))"

definition find_dominant :: "(Phase, int) omap \<Rightarrow> Phase \<times> int" where
  "find_dominant totals = foldl dominant_step (Phase.OTHER, - 1) totals"

definition contributions :: "(Phase, int) omap \<Rightarrow> int \<Rightarrow> Phase \<Rightarrow> PhaseContribution list" where
  "contributions totals total_latency dominant =
     (if total_latency > 0
      then map (\<lambda>(p, ns). \<lparr>pc_phase = p, pc_total = Duration ns,
                 pc_share = fdiv (of_integer ns) (of_integer total_latency),
                 pc_dominant = (p = dominant)\<rparr>)
             (filter (\<lambda>(p, ns). \<not> ns \<le> 0) totals)
      else [])"

definition primary_cause :: "TailSample list \<Rightarrow> Phase \<Rightarrow> int \<Rightarrow> TailCause" where
  "primary_cause tail dominant dominant_ns =
     (let matching = length (filter (\<lambda>s. dominant_phase s = dominant) tail);
          conf = (if tail = [] then lit 0 1
                  else fdiv (of_integer (int matching)) (of_integer (int (length tail))))
      in \<lparr>tc_category = phase_to_cause dominant, tc_attribution = DOMINANT_CONTRIBUTOR,
          tc_confidence = conf, tc_excess = Duration (if dominant_ns < 0 then 0 else dominant_ns),
          tc_share = Duration (if dominant_ns < 0 then 0 else dominant_ns),
          tc_evidence = Phase_to_string dominant @ '' dominates tail samples''\<rparr>)"

definition secondary_causes :: "(Phase, int) omap \<Rightarrow> int \<Rightarrow> Phase \<Rightarrow> TailCause list" where
  "secondary_causes totals total_latency dominant =
     map (\<lambda>(p, ns). \<lparr>tc_category = phase_to_cause p, tc_attribution = ASSOCIATED_CONTRIBUTOR,
            tc_confidence = fdiv (of_integer ns) (of_integer total_latency), tc_excess = Duration ns,
            tc_share = Duration ns,
            tc_evidence = Phase_to_string p @ '' is an associated contributor''\<rparr>)
       (filter (\<lambda>(p, ns). p \<noteq> dominant \<and>
            fle (lit 20 100) (fdiv (of_integer ns) (of_integer total_latency))) totals)"

definition unknown_cause :: TailCause where
  "unknown_cause = tail_cause_default\<lparr>tc_category := TailCauseCategory.UNKNOWN,
     tc_attribution := UNKNOWN_CAUSE, tc_confidence := lit 0 1,
     tc_evidence := ''no phase evidence present''\<rparr>"

text \<open>What the samples that pruning left contribute; nothing when there are none.\<close>

definition decompose_samples ::
    "PhaseContribution list \<Rightarrow> TailCause list \<Rightarrow> TailSample list \<Rightarrow> Duration
     \<Rightarrow> PhaseContribution list \<times> TailCause list" where
  "decompose_samples out causes samples cutoff =
     (if samples = [] then (out, causes)
      else let tail = tail_samples cutoff samples; totals = phase_totals tail;
               total_latency = total_latency_of tail;
               (dominant, dominant_ns) = find_dominant totals;
               out = out @ contributions totals total_latency dominant
           in if totals = [] then (out, causes @ [unknown_cause])
              else (out, causes @ primary_cause tail dominant dominant_ns #
                      secondary_causes totals total_latency dominant))"

definition decompose_tail ::
    "PhaseContribution list \<Rightarrow> TailCause list \<Rightarrow> ObservationWindow \<Rightarrow> int \<Rightarrow> Duration \<Rightarrow> Sufficiency
     \<Rightarrow> (PhaseContribution list \<times> TailCause list) \<times> ObservationWindow" where
  "decompose_tail out causes w now cutoff suff =
     (let (samples, w') = samples_pruned now w in (decompose_samples out causes samples cutoff, w'))"

subsection \<open>The tail\<close>

interpretation slower: strict_weak_order slower "\<lambda>_. True"
  by unfold_locales (auto simp: slower_def)

lemma tail_samples_set: "set (tail_samples cutoff samples) \<subseteq> set samples"
  using set_take_subset [of _ "stable_sort slower samples"]
  by (auto simp: tail_samples_def Let_def split: if_splits)

lemma tail_samples_nonempty: "samples \<noteq> [] \<Longrightarrow> tail_samples cutoff samples \<noteq> []"
  by (simp add: tail_samples_def Let_def)

text \<open>No sample outside the tail is slower than one in it.\<close>

lemma tail_samples_slowest:
  assumes "s \<in> set samples" and "s \<notin> set (tail_samples cutoff samples)"
    and "t \<in> set (tail_samples cutoff samples)"
  shows "ts_latency s \<le> ts_latency t"
proof (cases "filter (\<lambda>s. nanos cutoff > 0 \<and> ts_latency s \<ge> cutoff) samples = []")
  case True
  let ?k = "min 64 (length samples)"
  have tail: "tail_samples cutoff samples = take ?k (stable_sort slower samples)"
    unfolding tail_samples_def Let_def using True by simp
  have "s \<in> set (take ?k (stable_sort slower samples) @ drop ?k (stable_sort slower samples))"
    using assms(1) by simp
  then have "s \<in> set (drop ?k (stable_sort slower samples))"
    using assms(2) tail by (simp only: set_append Un_iff) blast
  then have "\<not> slower s t"
    using slower.stable_sort_take [of samples t ?k s] assms(3) tail by simp
  then show ?thesis by (simp add: slower_def less_eq_Duration_def)
next
  case False
  then have tail: "tail_samples cutoff samples =
      filter (\<lambda>s. nanos cutoff > 0 \<and> ts_latency s \<ge> cutoff) samples"
    unfolding tail_samples_def Let_def by (simp only: if_False)
  show ?thesis using assms unfolding tail by auto
qed

subsection \<open>Totals per phase\<close>

definition phase_sum :: "Phase \<Rightarrow> PhaseLatency list \<Rightarrow> int" where
  "phase_sum p phs = sum_list (map (\<lambda>ph. nanos (pl_duration ph)) (filter (\<lambda>ph. pl_phase ph = p) phs))"

definition all_phases :: "TailSample list \<Rightarrow> PhaseLatency list" where
  "all_phases tail = concat (map ts_phases tail)"

definition nonneg_phases :: "PhaseLatency list \<Rightarrow> bool" where
  "nonneg_phases phs \<longleftrightarrow> (\<forall>ph \<in> set phs. 0 \<le> nanos (pl_duration ph))"

abbreviation duration_sum :: "PhaseLatency list \<Rightarrow> int" where
  "duration_sum phs \<equiv> sum_list (map (\<lambda>ph. nanos (pl_duration ph)) phs)"

lemma phase_sum_nonneg: "nonneg_phases phs \<Longrightarrow> 0 \<le> phase_sum p phs"
  by (auto simp: phase_sum_def nonneg_phases_def intro!: sum_list_nonneg)

lemma phase_sum_le: "nonneg_phases phs \<Longrightarrow> phase_sum p phs \<le> duration_sum phs"
  by (induction phs) (auto simp: phase_sum_def nonneg_phases_def)

lemma phase_sum_simps [simp]:
  "phase_sum p [] = 0"
  "phase_sum p (ph # phs) = (if pl_phase ph = p then nanos (pl_duration ph) else 0) + phase_sum p phs"
  by (simp_all add: phase_sum_def)

lemma phase_sum_absent: "p \<notin> pl_phase ` set phs \<Longrightarrow> phase_sum p phs = 0"
  by (induction phs) auto

lemma phase_sums_total:
  "finite P \<Longrightarrow> pl_phase ` set phs \<subseteq> P \<Longrightarrow> (\<Sum>p \<in> P. phase_sum p phs) = duration_sum phs"
proof (induction phs)
  case (Cons ph phs)
  then have "(\<Sum>p \<in> P. if pl_phase ph = p then nanos (pl_duration ph) else 0) = nanos (pl_duration ph)"
    by (simp add: sum.delta)
  with Cons show ?case by (simp add: sum.distrib)
qed simp

lemma foldl_concat: "foldl (\<lambda>m x. foldl f m (g x)) m xs = foldl f m (concat (map g xs))"
  by (induction xs arbitrary: m) auto

lemma phase_totals_alt: "phase_totals tail = foldl add_phase om_empty (all_phases tail)"
  by (simp add: phase_totals_def all_phases_def foldl_concat)

lemma om_inv_add_phase [simp]: "om_inv m \<Longrightarrow> om_inv (add_phase m ph)"
  by (simp add: add_phase_def split_beta)

lemma om_inv_totals: "om_inv m \<Longrightarrow> om_inv (foldl add_phase m phs)"
  by (induction phs arbitrary: m) auto

definition at0 :: "(Phase, int) omap \<Rightarrow> Phase \<Rightarrow> int" where
  "at0 m p = (case om_find m p of Some v \<Rightarrow> v | None \<Rightarrow> 0)"

lemma add_phase_find:
  "om_find (add_phase m ph) =
     (om_find m)(pl_phase ph \<mapsto> i64 (at0 m (pl_phase ph) + nanos (pl_duration ph)))"
  by (auto simp: add_phase_def split_beta om_index_fst om_index_snd at0_def split: option.splits)

lemma add_phases_find:
  assumes "nonneg_phases phs" and "\<forall>p. 0 \<le> at0 m p \<and> at0 m p + duration_sum phs \<le> i64_max"
  shows "om_find (foldl add_phase m phs) p =
     (if p \<in> pl_phase ` set phs then Some (at0 m p + phase_sum p phs) else om_find m p)"
  using assms
proof (induction phs arbitrary: m)
  case (Cons ph phs)
  let ?d = "nanos (pl_duration ph)" and ?m = "add_phase m ph"
  have d: "0 \<le> ?d" and n: "nonneg_phases phs" using Cons.prems(1) by (simp_all add: nonneg_phases_def)
  have s: "0 \<le> duration_sum phs" using n by (auto simp: nonneg_phases_def intro!: sum_list_nonneg)
  have r: "i64 (at0 m q + ?d) = at0 m q + ?d" for q
  proof (rule i64_id)
    have "0 \<le> at0 m q" and "at0 m q + (?d + duration_sum phs) \<le> i64_max"
      using Cons.prems(2) by simp_all
    with d s have "0 \<le> at0 m q + ?d" and "at0 m q + ?d \<le> i64_max" by linarith+
    then show "in_i64 (at0 m q + ?d)" by (simp add: in_i64_def i64_min_def)
  qed
  have at: "at0 ?m q = at0 m q + (if pl_phase ph = q then ?d else 0)" for q
    using add_phase_find [of m ph] r by (simp add: at0_def)
  have IH: "om_find (foldl add_phase ?m phs) p =
      (if p \<in> pl_phase ` set phs then Some (at0 ?m p + phase_sum p phs) else om_find ?m p)"
  proof (rule Cons.IH [OF n], rule allI)
    fix q
    have "0 \<le> at0 m q" and "at0 m q + (?d + duration_sum phs) \<le> i64_max"
      using Cons.prems(2) by simp_all
    then show "0 \<le> at0 ?m q \<and> at0 ?m q + duration_sum phs \<le> i64_max"
      unfolding at [of q] using d by (cases "pl_phase ph = q") auto
  qed
  show ?case
    using IH at [of p] r [of p] add_phase_find [of m ph] phase_sum_absent [of p phs] by auto
qed simp

lemma phase_totals_find:
  assumes "nonneg_phases (all_phases tail)" and "duration_sum (all_phases tail) \<le> i64_max"
  shows "om_find (phase_totals tail) p =
     (if p \<in> pl_phase ` set (all_phases tail) then Some (phase_sum p (all_phases tail)) else None)"
  using add_phases_find [of "all_phases tail" om_empty p] assms by (simp add: phase_totals_alt at0_def)

lemma phase_totals_entries:
  assumes "nonneg_phases (all_phases tail)" and "duration_sum (all_phases tail) \<le> i64_max"
  shows "(p, v) \<in> set (phase_totals tail) \<longleftrightarrow>
     p \<in> pl_phase ` set (all_phases tail) \<and> v = phase_sum p (all_phases tail)"
  using om.set_entries [of "phase_totals tail" p v] phase_totals_find [OF assms, of p]
    om_inv_totals [OF om_inv_empty, of "all_phases tail"] by (auto simp: phase_totals_alt)

lemma phase_totals_sorted: "sorted_wrt (<) (map fst (phase_totals tail))"
  using om_inv_totals [OF om_inv_empty, of "all_phases tail"] by (simp add: phase_totals_alt om_inv_def)

lemma phase_totals_Nil_iff: "phase_totals tail = [] \<longleftrightarrow> all_phases tail = []"
proof (cases "all_phases tail" rule: rev_cases)
  case (snoc phs ph)
  have "om_find (phase_totals tail) (pl_phase ph) \<noteq> None"
    unfolding phase_totals_alt snoc by (simp add: add_phase_find)
  then show ?thesis unfolding om_find_def using snoc by auto
qed (simp add: phase_totals_alt om_empty_def)

subsection \<open>The dominant phase\<close>

definition outranks :: "Phase \<times> int \<Rightarrow> Phase \<times> int \<Rightarrow> bool" where
  "outranks a b \<longleftrightarrow> snd b < snd a \<or> (snd b = snd a \<and> fst a \<le> fst b)"

lemma outranks_refl [simp]: "outranks a a" by (simp add: outranks_def)
lemma outranks_trans: "outranks a b \<Longrightarrow> outranks b c \<Longrightarrow> outranks a c" by (auto simp: outranks_def)

lemma dominant_step_cases: "dominant_step d e = e \<and> outranks e d \<or> dominant_step d e = d \<and> outranks d e"
  by (cases d; cases e)
    (auto simp: outranks_def less_eq_Phase_def not_less)

lemma dominant_fold:
  "foldl dominant_step d es \<in> insert d (set es) \<and>
     (\<forall>e \<in> insert d (set es). outranks (foldl dominant_step d es) e)"
proof (induction es arbitrary: d)
  case (Cons e es)
  show ?case
    using Cons.IH [of "dominant_step d e"] dominant_step_cases [of d e]
    by (auto intro: outranks_trans)
qed simp

lemma find_dominant_spec:
  assumes "es \<noteq> []" and "\<forall>e \<in> set es. 0 \<le> snd e"
  shows "find_dominant es \<in> set es" and "e \<in> set es \<Longrightarrow> outranks (find_dominant es) e"
proof -
  note f = dominant_fold [of "(Phase.OTHER, - 1)" es, folded find_dominant_def]
  obtain e where e: "e \<in> set es" using assms(1) by (cases es) auto
  then have "outranks (find_dominant es) e" using f by blast
  then have "find_dominant es \<noteq> (Phase.OTHER, - 1)"
    using assms(2) e by (auto simp: outranks_def)
  then show "find_dominant es \<in> set es" using f by blast
  show "e \<in> set es \<Longrightarrow> outranks (find_dominant es) e" for e using f by blast
qed

subsection \<open>Evidence that has passed ingestion\<close>

definition sample_ok :: "TailSample \<Rightarrow> bool" where
  "sample_ok s \<longleftrightarrow> 0 \<le> nanos (ts_latency s) \<and> in_i64 (nanos (ts_latency s)) \<and>
     nonneg_phases (ts_phases s) \<and> duration_sum (ts_phases s) \<le> nanos (ts_latency s)"

abbreviation latency_sum :: "TailSample list \<Rightarrow> int" where
  "latency_sum tail \<equiv> sum_list (map (\<lambda>s. nanos (ts_latency s)) tail)"

lemma total_latency_acc:
  assumes "\<forall>s \<in> set tail. 0 \<le> nanos (ts_latency s)" and "0 \<le> t" and "t + latency_sum tail \<le> i64_max"
  shows "foldl (\<lambda>t s. i64 (t + nanos (ts_latency s))) t tail = t + latency_sum tail"
  using assms
proof (induction tail arbitrary: t)
  case (Cons s tail)
  have "0 \<le> latency_sum tail" using Cons.prems(1) by (auto intro!: sum_list_nonneg)
  then have "in_i64 (t + nanos (ts_latency s))"
    using Cons.prems by (simp add: in_i64_def i64_min_def)
  then show ?case using Cons.IH [of "t + nanos (ts_latency s)"] Cons.prems by simp
qed simp

lemma total_latency_sum:
  "\<forall>s \<in> set tail. sample_ok s \<Longrightarrow> latency_sum tail \<le> i64_max \<Longrightarrow> total_latency_of tail = latency_sum tail"
  using total_latency_acc [of tail 0] by (simp add: total_latency_of_def sample_ok_def)

lemma phases_within_latency:
  assumes "\<forall>s \<in> set tail. sample_ok s"
  shows "nonneg_phases (all_phases tail)" and "duration_sum (all_phases tail) \<le> latency_sum tail"
  using assms by (induction tail) (auto simp: all_phases_def nonneg_phases_def sample_ok_def)

lemma share_bounds:
  assumes "0 \<le> a" and "a \<le> b" and "0 < b" and "b \<le> i64_max"
  shows "fp_finite (fdiv (of_integer a) (of_integer b))" (is ?fin)
    and "0 \<le> dval (fdiv (of_integer a) (of_integer b))" (is ?lo)
    and "dval (fdiv (of_integer a) (of_integer b)) \<le> 1" (is ?hi)
proof -
  have big: "\<bar>real_of_int a\<bar> < 2 powi 1023" "\<bar>real_of_int b\<bar> < 2 powi 1023"
    using assms pow1023_large by (auto simp: i64_max_def)
  note va = of_integer_value [OF big(1)] and vb = of_integer_value [OF big(2)]
  have a: "dval (of_integer a) = rn (real_of_int a)" and b: "dval (of_integer b) = rn (real_of_int b)"
    using va(2) vb(2) assms by (simp_all add: rnd_nonneg)
  have "rn 1 \<le> rn (real_of_int b)" using assms(3) by (intro rn_mono) simp_all
  then have bpos: "1 \<le> rn (real_of_int b)" using rn_int [of 1] by simp
  have ab: "rn (real_of_int a) \<le> rn (real_of_int b)" using assms by (intro rn_mono) simp_all
  have a0: "0 \<le> rn (real_of_int a)" using assms(1) by (intro rn_nonneg) simp
  have q: "0 \<le> dval (of_integer a) / dval (of_integer b)" "dval (of_integer a) / dval (of_integer b) \<le> 1"
    using ab a0 bpos unfolding a b by simp_all
  then have lt: "\<bar>dval (of_integer a) / dval (of_integer b)\<bar> < 2 powi 1023"
    using pow1023_large by linarith
  have "dval (of_integer b) \<noteq> 0" using bpos unfolding b by simp
  note v = fdiv_value [OF va(1) vb(1) this lt]
  show ?fin by (rule v)
  show ?lo using v(2) q(1) by (simp add: rnd_nonneg rn_nonneg)
  have "rn (dval (of_integer a) / dval (of_integer b)) \<le> rn 1" using q by (intro rn_mono)
  then show ?hi using v(2) q(1) rn_int [of 1] by (simp add: rnd_nonneg)
qed

subsection \<open>Properties\<close>

lemma samples_pruned_value [simp]: "fst (samples_pruned now w) = retain (w_cfg w) now (w_samples w)"
  by (simp add: samples_pruned_def Let_def window_prune_samples)

lemma tail_ok:
  assumes "\<forall>s \<in> set samples. sample_ok s" and "latency_sum (tail_samples cutoff samples) \<le> i64_max"
  defines "tail \<equiv> tail_samples cutoff samples"
  shows "\<forall>s \<in> set tail. sample_ok s" and "nonneg_phases (all_phases tail)"
    and "duration_sum (all_phases tail) \<le> latency_sum tail"
    and "duration_sum (all_phases tail) \<le> i64_max" and "total_latency_of tail = latency_sum tail"
proof -
  show ok: "\<forall>s \<in> set tail. sample_ok s" using assms(1) tail_samples_set [of cutoff samples] tail_def by blast
  show "nonneg_phases (all_phases tail)" by (rule phases_within_latency(1) [OF ok])
  show le: "duration_sum (all_phases tail) \<le> latency_sum tail" by (rule phases_within_latency(2) [OF ok])
  show "duration_sum (all_phases tail) \<le> i64_max" using le assms(2) unfolding tail_def by linarith
  show "total_latency_of tail = latency_sum tail" using total_latency_sum [OF ok] assms(2) tail_def by simp
qed

lemma find_dominant_totals:
  assumes "nonneg_phases (all_phases tail)" and "duration_sum (all_phases tail) \<le> i64_max"
    and "all_phases tail \<noteq> []"
  obtains p where "find_dominant (phase_totals tail) = (p, phase_sum p (all_phases tail))"
    and "p \<in> pl_phase ` set (all_phases tail)"
    and "\<forall>q. outranks (p, phase_sum p (all_phases tail)) (q, phase_sum q (all_phases tail)) \<or>
           q \<notin> pl_phase ` set (all_phases tail)"
proof -
  note e = phase_totals_entries [OF assms(1,2)]
  have ne: "phase_totals tail \<noteq> []" using assms(3) by (simp add: phase_totals_Nil_iff)
  have pos: "\<forall>e \<in> set (phase_totals tail). 0 \<le> snd e"
    using e phase_sum_nonneg [OF assms(1)] by force
  obtain p v where f: "find_dominant (phase_totals tail) = (p, v)" by fastforce
  then have "(p, v) \<in> set (phase_totals tail)" using find_dominant_spec(1) [OF ne pos] by simp
  then have p: "p \<in> pl_phase ` set (all_phases tail)" "v = phase_sum p (all_phases tail)" using e by auto
  have "outranks (p, v) (q, phase_sum q (all_phases tail))" if "q \<in> pl_phase ` set (all_phases tail)" for q
    using find_dominant_spec(2) [OF ne pos, of "(q, phase_sum q (all_phases tail))"] e that f by simp
  then show thesis using that f p by blast
qed

text \<open>C27: For evidence that passed ingestion, the first cause names the phase that took most of the
  time of the tail samples, ties going to the earlier phase; it carries that phase's exact total as
  its share, and every further cause is only an associated contributor.\<close>

theorem dominant_phase_is_named:
  assumes "samples = retain (w_cfg w) now (w_samples w)" and "tail = tail_samples cutoff samples"
    and "\<forall>s \<in> set samples. sample_ok s" and "latency_sum tail \<le> i64_max" and "all_phases tail \<noteq> []"
  shows "\<exists>p c rest. snd (fst (decompose_tail [] [] w now cutoff suff)) = c # rest \<and>
     tc_category c = phase_to_cause p \<and> tc_attribution c = DOMINANT_CONTRIBUTOR \<and>
     tc_share c = Duration (phase_sum p (all_phases tail)) \<and>
     p \<in> pl_phase ` set (all_phases tail) \<and>
     (\<forall>q \<in> pl_phase ` set (all_phases tail).
        phase_sum q (all_phases tail) < phase_sum p (all_phases tail) \<or>
        (phase_sum q (all_phases tail) = phase_sum p (all_phases tail) \<and> p \<le> q)) \<and>
     (\<forall>d \<in> set rest. tc_attribution d = ASSOCIATED_CONTRIBUTOR)"
proof -
  note ok = tail_ok [OF assms(3) assms(4) [unfolded assms(2)], folded assms(2)]
  obtain p where p: "find_dominant (phase_totals tail) = (p, phase_sum p (all_phases tail))"
    "p \<in> pl_phase ` set (all_phases tail)"
    "\<forall>q. outranks (p, phase_sum p (all_phases tail)) (q, phase_sum q (all_phases tail)) \<or>
       q \<notin> pl_phase ` set (all_phases tail)"
    using find_dominant_totals [OF ok(2,4) assms(5)] by blast
  have ne: "samples \<noteq> []" using assms(2,5) tail_samples_set [of cutoff samples]
    by (auto simp: all_phases_def)
  have tot: "phase_totals tail \<noteq> []" using assms(5) by (simp add: phase_totals_Nil_iff)
  have "snd (fst (decompose_tail [] [] w now cutoff suff)) =
      primary_cause tail p (phase_sum p (all_phases tail)) #
        secondary_causes (phase_totals tail) (latency_sum tail) p"
    using ne tot p(1) ok(5) by (simp add: decompose_tail_def split_beta decompose_samples_def Let_def
        assms(1,2) [symmetric])
  then show ?thesis
    using p(2,3) phase_sum_nonneg [OF ok(2), of p]
    by (intro exI [of _ p] exI conjI) (auto simp: primary_cause_def secondary_causes_def Let_def outranks_def)
qed

definition demo_phase_sample :: "int \<Rightarrow> (Phase \<times> int) list \<Rightarrow> TailSample" where
  "demo_phase_sample lat phs = (demo_sample 1 lat)
     \<lparr>ts_phases := map (\<lambda>(p, d). \<lparr>pl_phase = p, pl_duration = Duration d\<rparr>) phs\<rparr>"

definition demo_window :: ObservationWindow where
  "demo_window = (window_new window_config_default)\<lparr>w_samples :=
     [demo_phase_sample 100 [(Phase.QUEUE_WAIT, 60), (Phase.DECODE, 30)],
      demo_phase_sample 90 [(Phase.DECODE, 40), (Phase.QUEUE_WAIT, 20)]]\<rparr>"

lemmas demo_window_eval = demo_window_def demo_phase_sample_def demo_sample_def window_new_def
  window_config_default_def retain_def tail_samples_def sample_ok_def nonneg_phases_def in_i64_def
  i64_min_def i64_max_def all_phases_def slower_def i64_def Let_def

lemma dominant_phase_is_named_witness:
  "\<exists>p c rest. snd (fst (decompose_tail [] [] demo_window 1 (Duration 0) SUFFICIENT)) = c # rest \<and>
     tc_category c = phase_to_cause p"
  using dominant_phase_is_named [of "retain (w_cfg demo_window) 1 (w_samples demo_window)" demo_window 1
      "tail_samples (Duration 0) (retain (w_cfg demo_window) 1 (w_samples demo_window))" "Duration 0" SUFFICIENT]
  by (simp add: demo_window_eval) blast

lemma positive_totals:
  fixes tail :: "TailSample list"
  assumes "nonneg_phases (all_phases tail)" and "duration_sum (all_phases tail) \<le> i64_max"
  defines "F \<equiv> filter (\<lambda>(p, ns). \<not> ns \<le> 0) (phase_totals tail)"
  shows "sorted_wrt (<) (map fst F)" and "set (map fst F) = {p. 0 < phase_sum p (all_phases tail)}"
    and "sum_list (map snd F) = duration_sum (all_phases tail)"
proof -
  note e = phase_totals_entries [OF assms(1,2)]
  have F: "(p, v) \<in> set F \<longleftrightarrow> v = phase_sum p (all_phases tail) \<and> 0 < v" for p v
    using e [of p v] phase_sum_absent [of p "all_phases tail"] by (auto simp: F_def)
  show sorted: "sorted_wrt (<) (map fst F)"
    using phase_totals_sorted [of tail] by (simp add: F_def sorted_wrt_map sorted_wrt_filter)
  show keys: "set (map fst F) = {p. 0 < phase_sum p (all_phases tail)}"
  proof (rule set_eqI)
    show "p \<in> set (map fst F) \<longleftrightarrow> p \<in> {p. 0 < phase_sum p (all_phases tail)}" for p
      using F [of p] by force
  qed
  have "map snd F = map (\<lambda>p. phase_sum p (all_phases tail)) (map fst F)" using F by force
  then have "sum_list (map snd F) = (\<Sum>p \<in> set (map fst F). phase_sum p (all_phases tail))"
    using sorted by (metis strict_sorted_iff sum_list_distinct_conv_sum_set)
  also have "\<dots> = (\<Sum>p \<in> pl_phase ` set (all_phases tail). phase_sum p (all_phases tail))"
    unfolding keys
  proof (rule sum.mono_neutral_left)
    show "{p. 0 < phase_sum p (all_phases tail)} \<subseteq> pl_phase ` set (all_phases tail)"
      using phase_sum_absent by force
    show "\<forall>p \<in> pl_phase ` set (all_phases tail) - {p. 0 < phase_sum p (all_phases tail)}.
        phase_sum p (all_phases tail) = 0"
      using phase_sum_nonneg [OF assms(1)] by (auto simp: order.antisym not_less)
  qed simp
  also have "\<dots> = duration_sum (all_phases tail)" by (rule phase_sums_total) simp_all
  finally show "sum_list (map snd F) = duration_sum (all_phases tail)" .
qed

text \<open>C28: The reported contributions are exactly the phases that took time, in phase order, each with its
  exact total; the totals add up to all the phase time of the tail, which is at most the tail's latency; every
  share is the quotient of the two, a finite number between 0 and 1. The contribution flagged as dominant is
  the one that took most, ties going to the earlier phase, and where there are contributions exactly one is.\<close>

theorem contributions_account_for_the_tail:
  assumes "samples = retain (w_cfg w) now (w_samples w)" and "tail = tail_samples cutoff samples"
    and "\<forall>s \<in> set samples. sample_ok s" and "latency_sum tail \<le> i64_max" and "0 < latency_sum tail"
    and "pcs = fst (fst (decompose_tail [] [] w now cutoff suff))"
  shows "sorted_wrt (<) (map pc_phase pcs) \<and>
     set (map pc_phase pcs) = {p. 0 < phase_sum p (all_phases tail)} \<and>
     (\<Sum>c\<leftarrow>pcs. nanos (pc_total c)) = duration_sum (all_phases tail) \<and>
     duration_sum (all_phases tail) \<le> latency_sum tail \<and>
     (\<forall>c \<in> set pcs. pc_total c = Duration (phase_sum (pc_phase c) (all_phases tail)) \<and>
        pc_share c = fdiv (of_integer (nanos (pc_total c))) (of_integer (latency_sum tail)) \<and>
        fp_finite (pc_share c) \<and> 0 \<le> dval (pc_share c) \<and> dval (pc_share c) \<le> 1 \<and>
        (pc_dominant c \<longleftrightarrow> (\<forall>d \<in> set pcs. pc_total d < pc_total c \<or> (pc_total d = pc_total c \<and> pc_phase c \<le> pc_phase d)))) \<and>
     (pcs \<noteq> [] \<longrightarrow> (\<exists>!c. c \<in> set pcs \<and> pc_dominant c))"
proof -
  note ok = tail_ok [OF assms(3) assms(4) [unfolded assms(2)], folded assms(2)]
  let ?T = "phase_totals tail" and ?dom = "fst (find_dominant (phase_totals tail))"
  note e = phase_totals_entries [OF ok(2,4)]
  have ne: "samples \<noteq> []" using assms(2,5) tail_samples_set [of cutoff samples] by auto
  have pcs: "pcs = contributions ?T (latency_sum tail) ?dom"
    using ne ok(5) by (simp add: assms(6) decompose_tail_def split_beta decompose_samples_def Let_def
        assms(1,2) [symmetric])
  let ?F = "filter (\<lambda>(p, ns). \<not> ns \<le> 0) ?T"
  have map: "map pc_phase pcs = map fst ?F" "map (\<lambda>c. nanos (pc_total c)) pcs = map snd ?F"
    using assms(5) by (simp_all add: pcs contributions_def comp_def split_beta)
  note positive = positive_totals [OF ok(2,4)]
  have each: "pc_total c = Duration (phase_sum (pc_phase c) (all_phases tail)) \<and>
      pc_phase c \<in> pl_phase ` set (all_phases tail) \<and>
      pc_share c = fdiv (of_integer (phase_sum (pc_phase c) (all_phases tail))) (of_integer (latency_sum tail)) \<and>
      pc_dominant c = (pc_phase c = ?dom)" if "c \<in> set pcs" for c
    using that assms(5) e by (auto simp: pcs contributions_def)
  have sh: "fp_finite (fdiv (of_integer (phase_sum p (all_phases tail))) (of_integer (latency_sum tail))) \<and>
      0 \<le> dval (fdiv (of_integer (phase_sum p (all_phases tail))) (of_integer (latency_sum tail))) \<and>
      dval (fdiv (of_integer (phase_sum p (all_phases tail))) (of_integer (latency_sum tail))) \<le> 1" for p
    using share_bounds [OF phase_sum_nonneg [OF ok(2)] order_trans [OF phase_sum_le [OF ok(2)] ok(3)] assms(5,4)]
    by blast
  have phases: "inj_on pc_phase (set pcs)" "pc_phase ` set pcs = {p. 0 < phase_sum p (all_phases tail)}"
    using positive(1,2) unfolding map(1) [symmetric] by (simp_all add: distinct_map strict_sorted_iff)
  have dom: "?dom \<in> pc_phase ` set pcs \<and> (\<forall>d \<in> set pcs. outranks (?dom, phase_sum ?dom (all_phases tail))
      (pc_phase d, phase_sum (pc_phase d) (all_phases tail)))" if some: "pcs \<noteq> []"
  proof -
    obtain c where c: "c \<in> set pcs" using hd_in_set [OF some] by blast
    then have "all_phases tail \<noteq> []" using each [OF c] by auto
    then obtain p where p: "find_dominant ?T = (p, phase_sum p (all_phases tail))"
      "\<forall>q. outranks (p, phase_sum p (all_phases tail)) (q, phase_sum q (all_phases tail)) \<or>
         q \<notin> pl_phase ` set (all_phases tail)"
      using find_dominant_totals [OF ok(2,4)] by blast
    have out: "\<forall>d \<in> set pcs. outranks (p, phase_sum p (all_phases tail)) (pc_phase d, phase_sum (pc_phase d) (all_phases tail))"
      using p(2) each by blast
    have "0 < phase_sum (pc_phase c) (all_phases tail)" using c phases(2) by blast
    then have "0 < phase_sum p (all_phases tail)" using out c by (force simp: outranks_def)
    then show ?thesis using out p(1) by (simp add: phases(2))
  qed
  have flag: "pc_dominant c \<longleftrightarrow> (\<forall>d \<in> set pcs. pc_total d < pc_total c \<or> (pc_total d = pc_total c \<and> pc_phase c \<le> pc_phase d))"
    if c: "c \<in> set pcs" for c
  proof -
    have "pcs \<noteq> []" using c by auto
    then obtain b where b: "b \<in> set pcs" "pc_phase b = ?dom"
      and out: "\<forall>d \<in> set pcs. outranks (?dom, phase_sum ?dom (all_phases tail)) (pc_phase d, phase_sum (pc_phase d) (all_phases tail))"
      using dom by force
    show ?thesis
    proof
      assume "pc_dominant c"
      then show "\<forall>d \<in> set pcs. pc_total d < pc_total c \<or> (pc_total d = pc_total c \<and> pc_phase c \<le> pc_phase d)"
        using each [OF c] each out by (fastforce simp: outranks_def)
    next
      assume "\<forall>d \<in> set pcs. pc_total d < pc_total c \<or> (pc_total d = pc_total c \<and> pc_phase c \<le> pc_phase d)"
      then have "pc_total b < pc_total c \<or> (pc_total b = pc_total c \<and> pc_phase c \<le> pc_phase b)" using b(1) by blast
      moreover have "outranks (pc_phase b, phase_sum (pc_phase b) (all_phases tail)) (pc_phase c, phase_sum (pc_phase c) (all_phases tail))"
        using out c b(2) by simp
      ultimately have "pc_phase c = pc_phase b" using each [OF c] each [OF b(1)] by (auto simp: outranks_def)
      then show "pc_dominant c" using each [OF c] b(2) by simp
    qed
  qed
  have one: "\<exists>!c. c \<in> set pcs \<and> pc_dominant c" if "pcs \<noteq> []"
    using dom [OF that] each phases(1) by (auto simp: inj_on_def)
  have "\<forall>c \<in> set pcs. pc_total c = Duration (phase_sum (pc_phase c) (all_phases tail)) \<and>
      pc_share c = fdiv (of_integer (nanos (pc_total c))) (of_integer (latency_sum tail)) \<and>
      fp_finite (pc_share c) \<and> 0 \<le> dval (pc_share c) \<and> dval (pc_share c) \<le> 1"
    using each sh by simp
  with positive ok(3) flag one show ?thesis unfolding map by blast
qed

lemma contributions_account_for_the_tail_witness:
  "(\<Sum>c\<leftarrow>fst (fst (decompose_tail [] [] demo_window 1 (Duration 0) SUFFICIENT)). nanos (pc_total c)) = 150"
proof -
  let ?samples = "retain (w_cfg demo_window) 1 (w_samples demo_window)"
  let ?tail = "tail_samples (Duration 0) ?samples"
  have T: "?tail = w_samples demo_window" by code_simp
  have ok: "\<forall>s \<in> set ?samples. sample_ok s"
    by (simp add: demo_window_def demo_phase_sample_def demo_sample_def window_new_def retain_def
        window_config_default_def sample_ok_def nonneg_phases_def in_i64_def i64_min_def i64_max_def)
  have l: "latency_sum ?tail \<le> i64_max" "0 < latency_sum ?tail" and d: "duration_sum (all_phases ?tail) = 150"
    unfolding T by (simp_all add: demo_window_def demo_phase_sample_def demo_sample_def all_phases_def i64_max_def)
  have "(\<Sum>c\<leftarrow>fst (fst (decompose_tail [] [] demo_window 1 (Duration 0) SUFFICIENT)). nanos (pc_total c)) =
      duration_sum (all_phases ?tail)"
    using contributions_account_for_the_tail [OF refl refl ok l refl, of SUFFICIENT] by blast
  also note d
  finally show ?thesis .
qed

end
