(* ===== verification/Selection.thy ===== *)
theory Selection
  imports Decompose
begin

text \<open>
  Selection of an intervention for an evaluated tail (governor.cpp): which interventions a cause
  suggests, which of them the runtime facts allow, the deterministic ranking of those, and the
  record of what would change the decision.
\<close>

record ResourceFacts =
  f_engine_available :: bool
  f_warm_engine_ready :: bool
  f_capacity_available :: bool
  f_preemptible_work :: bool
  f_failover_candidate :: bool
  f_target_compatible :: bool
  f_batch_above_min :: bool
  f_protected_traffic_present :: bool
  f_memory_headroom :: bool
  f_budget_preemptions :: double
  f_budget_failovers :: double
  f_budget_batch_changes :: double
  f_budget_residency_changes :: double
  f_budget_load_shedding :: double

definition resource_facts_default :: ResourceFacts where
  "resource_facts_default = \<lparr>f_engine_available = True, f_warm_engine_ready = False,
     f_capacity_available = True, f_preemptible_work = True, f_failover_candidate = True,
     f_target_compatible = True, f_batch_above_min = True, f_protected_traffic_present = True,
     f_memory_headroom = True, f_budget_preemptions = lit 1 1, f_budget_failovers = lit 1 1,
     f_budget_batch_changes = lit 1 1, f_budget_residency_changes = lit 1 1,
     f_budget_load_shedding = lit 1 1\<rparr>"

definition exhausted :: "double \<Rightarrow> bool" where "exhausted budget \<longleftrightarrow> fle budget (lit 0 1)"

definition infeasibility_of :: "InterventionType \<Rightarrow> ResourceFacts \<Rightarrow> Infeasibility" where
  "infeasibility_of t f = (case t of
     PREEMPT_LOWER_PRIORITY \<Rightarrow>
       (if \<not> f_preemptible_work f then NON_PREEMPTIBLE
        else if exhausted (f_budget_preemptions f) then EXCEEDS_HARD_ECONOMY else Infeasibility.NONE)
   | WARM_RESIDENCY \<Rightarrow>
       (if \<not> f_warm_engine_ready f then ENGINE_UNAVAILABLE
        else if exhausted (f_budget_residency_changes f) then EXCEEDS_HARD_ECONOMY else Infeasibility.NONE)
   | PROMOTE_WARM_ENGINE \<Rightarrow>
       (if \<not> f_warm_engine_ready f then ENGINE_UNAVAILABLE
        else if exhausted (f_budget_residency_changes f) then EXCEEDS_HARD_ECONOMY else Infeasibility.NONE)
   | PIN_RESIDENCY \<Rightarrow>
       (if \<not> f_engine_available f then ENGINE_UNAVAILABLE
        else if exhausted (f_budget_residency_changes f) then EXCEEDS_HARD_ECONOMY else Infeasibility.NONE)
   | RESERVE_CAPACITY \<Rightarrow>
       (if \<not> f_capacity_available f then CAPACITY_UNAVAILABLE else Infeasibility.NONE)
   | FAILOVER \<Rightarrow>
       (if \<not> f_failover_candidate f then NO_FAILOVER_CANDIDATE
        else if exhausted (f_budget_failovers f) then EXCEEDS_HARD_ECONOMY else Infeasibility.NONE)
   | CHANGE_PLACEMENT \<Rightarrow>
       (if \<not> f_target_compatible f then INCOMPATIBLE_TARGET else Infeasibility.NONE)
   | REDUCE_BATCH_SIZE \<Rightarrow>
       (if \<not> f_batch_above_min f then BELOW_MIN_BATCH
        else if exhausted (f_budget_batch_changes f) then EXCEEDS_HARD_ECONOMY else Infeasibility.NONE)
   | SPLIT_BATCH \<Rightarrow>
       (if \<not> f_batch_above_min f then BELOW_MIN_BATCH
        else if exhausted (f_budget_batch_changes f) then EXCEEDS_HARD_ECONOMY else Infeasibility.NONE)
   | DISABLE_BATCH_FOR_CLASS \<Rightarrow>
       (if \<not> f_batch_above_min f then BELOW_MIN_BATCH
        else if exhausted (f_budget_batch_changes f) then EXCEEDS_HARD_ECONOMY else Infeasibility.NONE)
   | SHED_LOAD \<Rightarrow>
       (if f_protected_traffic_present f then PROTECTED_TRAFFIC
        else if exhausted (f_budget_load_shedding f) then EXCEEDS_HARD_ECONOMY else Infeasibility.NONE)
   | DEFER_LOW_PRIORITY \<Rightarrow>
       (if f_protected_traffic_present f then PROTECTED_TRAFFIC
        else if exhausted (f_budget_load_shedding f) then EXCEEDS_HARD_ECONOMY else Infeasibility.NONE)
   | _ \<Rightarrow> Infeasibility.NONE)"

definition effect_factor :: "InterventionType \<Rightarrow> double" where
  "effect_factor t = (case t of
     BOUND_QUEUE_WAIT \<Rightarrow> lit 8 10
   | QUEUE_SHAPE \<Rightarrow> lit 7 10
   | LIMIT_QUEUE_DEPTH \<Rightarrow> lit 6 10
   | QUEUE_REPRIORITIZE \<Rightarrow> lit 5 10
   | SPLIT_BATCH \<Rightarrow> lit 8 10
   | REDUCE_BATCH_SIZE \<Rightarrow> lit 6 10
   | DISABLE_BATCH_FOR_CLASS \<Rightarrow> lit 5 10
   | WARM_RESIDENCY \<Rightarrow> lit 8 10
   | PIN_RESIDENCY \<Rightarrow> lit 5 10
   | PROMOTE_WARM_ENGINE \<Rightarrow> lit 7 10
   | RESERVE_CAPACITY \<Rightarrow> lit 7 10
   | RESERVE_BANDWIDTH \<Rightarrow> lit 6 10
   | PREEMPT_LOWER_PRIORITY \<Rightarrow> lit 7 10
   | DEFER_LOW_PRIORITY \<Rightarrow> lit 4 10
   | SHED_LOAD \<Rightarrow> lit 5 10
   | RECLAIM_MEMORY \<Rightarrow> lit 4 10
   | CHANGE_PLACEMENT \<Rightarrow> lit 6 10
   | ACCELERATE_RECOVERY \<Rightarrow> lit 7 10
   | REPLAN_RECOVERY \<Rightarrow> lit 6 10
   | FAILOVER \<Rightarrow> lit 8 10
   | ESCALATE \<Rightarrow> lit 3 10
   | MANUAL_INTERVENTION_REQUIRED \<Rightarrow> lit 2 10
   | _ \<Rightarrow> lit 0 1)"

fun candidates_for_cause :: "TailCauseCategory \<Rightarrow> InterventionType list" where
  "candidates_for_cause TailCauseCategory.QUEUEING =
     [BOUND_QUEUE_WAIT, QUEUE_SHAPE, LIMIT_QUEUE_DEPTH, QUEUE_REPRIORITIZE]"
| "candidates_for_cause TailCauseCategory.BATCHING =
     [SPLIT_BATCH, REDUCE_BATCH_SIZE, DISABLE_BATCH_FOR_CLASS]"
| "candidates_for_cause TailCauseCategory.COLD_RESIDENCY =
     [WARM_RESIDENCY, PIN_RESIDENCY, PROMOTE_WARM_ENGINE]"
| "candidates_for_cause TailCauseCategory.MODEL_OR_STATE_LOAD =
     [WARM_RESIDENCY, PROMOTE_WARM_ENGINE, CHANGE_PLACEMENT]"
| "candidates_for_cause TailCauseCategory.TRANSFER =
     [RESERVE_BANDWIDTH, CHANGE_PLACEMENT, DEFER_LOW_PRIORITY]"
| "candidates_for_cause TailCauseCategory.MEMORY_PRESSURE =
     [RECLAIM_MEMORY, DEFER_LOW_PRIORITY, RESERVE_CAPACITY]"
| "candidates_for_cause TailCauseCategory.RESOURCE_CONTENTION =
     [RESERVE_CAPACITY, CHANGE_PLACEMENT, PROMOTE_WARM_ENGINE]"
| "candidates_for_cause TailCauseCategory.EXECUTION_VARIANCE =
     [CHANGE_PLACEMENT, RESERVE_CAPACITY, WARM_RESIDENCY]"
| "candidates_for_cause TailCauseCategory.PREEMPTION = [PREEMPT_LOWER_PRIORITY]"
| "candidates_for_cause TailCauseCategory.RECOVERY =
     [ACCELERATE_RECOVERY, REPLAN_RECOVERY, FAILOVER]"
| "candidates_for_cause TailCauseCategory.RETRY =
     [DEFER_LOW_PRIORITY, RESERVE_CAPACITY, ESCALATE]"
| "candidates_for_cause TailCauseCategory.BACKEND_STALL = [CHANGE_PLACEMENT, ACCELERATE_RECOVERY]"
| "candidates_for_cause TailCauseCategory.PUBLICATION_DELAY =
     [ESCALATE, MANUAL_INTERVENTION_REQUIRED]"
| "candidates_for_cause TailCauseCategory.CAPACITY_SHORTAGE =
     [RESERVE_CAPACITY, SHED_LOAD, DEFER_LOW_PRIORITY]"
| "candidates_for_cause TailCauseCategory.PRIORITY_INVERSION =
     [QUEUE_REPRIORITIZE, DEFER_LOW_PRIORITY, PREEMPT_LOWER_PRIORITY]"
| "candidates_for_cause TailCauseCategory.UNKNOWN = []"
| "candidates_for_cause (TailCauseCategory.Unlisted k) = []"

definition collateral_of :: "InterventionType \<Rightarrow> double" where
  "collateral_of t = (case t of
     PREEMPT_LOWER_PRIORITY \<Rightarrow> lit 120000000 1
   | SHED_LOAD \<Rightarrow> lit 200000000 1
   | FAILOVER \<Rightarrow> lit 500000000 1
   | RECLAIM_MEMORY \<Rightarrow> lit 40000000 1
   | BOUND_QUEUE_WAIT \<Rightarrow> lit 10000000 1
   | QUEUE_SHAPE \<Rightarrow> lit 8000000 1
   | SPLIT_BATCH \<Rightarrow> lit 30000000 1
   | DEFER_LOW_PRIORITY \<Rightarrow> lit 60000000 1
   | _ \<Rightarrow> lit 5000000 1)"

record Cand =
  c_type :: InterventionType
  c_eff :: double
  c_collateral :: double

definition make_cand :: "int \<Rightarrow> InterventionType \<Rightarrow> Cand" where
  "make_cand excess t = \<lparr>c_type = t, c_eff = fmul (effect_factor t) (of_integer excess),
     c_collateral = collateral_of t\<rparr>"

definition type_int :: "InterventionType \<Rightarrow> int" where
  "type_int t = int_of_code (InterventionType_code t)"

text \<open>The comparison the feasible candidates are sorted with: larger modelled effect first, then the
  order of the enumeration, then smaller collateral.\<close>

definition cand_before :: "Cand \<Rightarrow> Cand \<Rightarrow> bool" where
  "cand_before a b =
     (if \<not> feq (c_eff a) (c_eff b) then flt (c_eff b) (c_eff a)
      else if type_int (c_type a) \<noteq> type_int (c_type b) then type_int (c_type a) < type_int (c_type b)
      else flt (c_collateral a) (c_collateral b))"

text \<open>The category of the first dominant contributor.\<close>

fun dominant_cause :: "TailCause list \<Rightarrow> TailCauseCategory" where
  "dominant_cause [] = TailCauseCategory.UNKNOWN"
| "dominant_cause (c # cs) =
     (if tc_attribution c = DOMINANT_CONTRIBUTOR then tc_category c else dominant_cause cs)"

definition binds :: "Infeasibility \<Rightarrow> bool" where
  "binds why \<longleftrightarrow> why = VIOLATES_HARD_SLO \<or> why = EXCEEDS_HARD_ECONOMY \<or> why = PROTECTED_TRAFFIC \<or>
     why = NON_PREEMPTIBLE \<or> why = ENGINE_UNAVAILABLE \<or> why = CAPACITY_UNAVAILABLE \<or>
     why = NO_FAILOVER_CANDIDATE"

definition rejection :: "ResourceFacts \<Rightarrow> InterventionType \<Rightarrow> RejectedAlternative" where
  "rejection facts t = (let why = infeasibility_of t facts in \<lparr>ra_type = t, ra_reason = why,
     ra_detail = InterventionType_to_string t @ '' rejected: '' @ Infeasibility_to_string why\<rparr>)"

definition outranked :: "Cand \<Rightarrow> RejectedAlternative" where
  "outranked c = \<lparr>ra_type = c_type c, ra_reason = Infeasibility.NONE,
     ra_detail = InterventionType_to_string (c_type c) @ '' rejected: lower modeled effect''\<rparr>"

fun select_loop :: "ResourceFacts \<Rightarrow> int \<Rightarrow> InterventionType list \<Rightarrow> TailEvaluation \<Rightarrow> Cand list
    \<Rightarrow> TailEvaluation \<times> Cand list" where
  "select_loop facts excess [] ev feasible = (ev, feasible)"
| "select_loop facts excess (t # ts) ev feasible =
     (let why = infeasibility_of t facts in
      if why \<noteq> Infeasibility.NONE
      then select_loop facts excess ts
             (ev\<lparr>ev_rejected_alternatives := ev_rejected_alternatives ev @ [rejection facts t],
                 ev_binding_hard_constraint :=
                   (if ev_binding_hard_constraint ev = None \<and> binds why then Some why
                    else ev_binding_hard_constraint ev)\<rparr>) feasible
      else select_loop facts excess ts ev (feasible @ [make_cand excess t]))"

definition excess_of :: "TailEvaluation \<Rightarrow> int" where
  "excess_of ev = (let e = i64 (nanos (ev_observed ev) - nanos (ev_recovered_threshold ev))
     in if e < 0 then 0 else e)"

text \<open>\<open>build_what_would_change\<close>\<close>

definition cause_triggers :: "TailCause \<Rightarrow> WhatWouldChangeRecord list" where
  "cause_triggers c =
     (if tc_category c = QUEUEING
      then [\<lparr>ww_trigger = QUEUE_DEPTH_DROPS, ww_note = ''queue depth drops''\<rparr>] else []) @
     (if tc_category c = BATCHING
      then [\<lparr>ww_trigger = BATCH_WAIT_DISAPPEARS, ww_note = ''batch wait disappears''\<rparr>] else []) @
     (if tc_category c = COLD_RESIDENCY
      then [\<lparr>ww_trigger = WARM_ENGINE_READY, ww_note = ''warm engine becomes ready''\<rparr>] else []) @
     (if tc_category c = TailCauseCategory.TRANSFER
      then [\<lparr>ww_trigger = TRANSFER_PATH_CLEARS, ww_note = ''transfer path clears''\<rparr>] else []) @
     (if tc_category c = MEMORY_PRESSURE
      then [\<lparr>ww_trigger = MEMORY_PRESSURE_FALLS, ww_note = ''memory pressure falls''\<rparr>] else [])"

definition what_would_change ::
    "TailEvaluation \<Rightarrow> TailObjective \<Rightarrow> ResourceFacts \<Rightarrow> WhatWouldChangeRecord list" where
  "what_would_change ev obj facts =
     (if nanos (ev_observed ev) > nanos (ev_recovered_threshold ev)
      then [\<lparr>ww_trigger = P99_BELOW_RECOVERY,
             ww_note = ''p99/p999 falls below the recovery threshold''\<rparr>] else []) @
     (if \<not> f_capacity_available facts
      then [\<lparr>ww_trigger = MORE_CAPACITY, ww_note = ''additional capacity appears''\<rparr>] else []) @
     (if ev_sufficiency ev = INSUFFICIENT_SAMPLES
      then [\<lparr>ww_trigger = TAIL_SUFFICIENCY_IMPROVES, ww_note = ''sample sufficiency improves''\<rparr>] else []) @
     (if ev_p999 ev = None
      then [\<lparr>ww_trigger = P999_EVIDENCE_FRESH, ww_note = ''p999 evidence becomes fresh''\<rparr>] else []) @
     concat (map cause_triggers (ev_causes ev)) @
     (if \<not> f_preemptible_work facts
      then [\<lparr>ww_trigger = PREEMPTION_SAFE, ww_note = ''candidate preemption becomes safe''\<rparr>] else []) @
     (if ev_binding_hard_constraint ev \<noteq> None
      then [\<lparr>ww_trigger = HARD_SLO_BLOCKS, ww_note = ''stronger SLO/cost constraint relaxes''\<rparr>] else []) @
     (if ev_state ev = HEALTHY \<and> o_class_scope obj = None
      then [\<lparr>ww_trigger = HIGHER_PRIORITY_CLASS_ARRIVES,
             ww_note = ''a higher-priority request class arrives''\<rparr>] else [])"

definition build_what_would_change ::
    "TailEvaluation \<Rightarrow> TailObjective \<Rightarrow> ResourceFacts \<Rightarrow> TailEvaluation" where
  "build_what_would_change ev obj facts = ev\<lparr>ev_what_would_change := what_would_change ev obj facts\<rparr>"

text \<open>The first of the sorted feasible candidates is taken, the others are rejected.\<close>

fun apply_ranking :: "Cand list \<Rightarrow> TailEvaluation \<Rightarrow> TailEvaluation" where
  "apply_ranking (c # others) ev =
     ev\<lparr>ev_selected_intervention := c_type c,
        ev_expected_tail_reduction := Duration (to_i64 (c_eff c)),
        ev_expected_collateral := Duration (to_i64 (c_collateral c)),
        ev_uncertainty := lit 3 10,
        ev_uncertainty_reason := ''modeled estimate, not measured'',
        ev_rejected_alternatives := ev_rejected_alternatives ev @ map outranked others\<rparr>"
| "apply_ranking [] ev =
     ev\<lparr>ev_selected_intervention := NO_ACTION,
        ev_uncertainty := (if ev_binding_hard_constraint ev = None then lit 5 10 else ev_uncertainty ev),
        ev_uncertainty_reason := (if ev_uncertainty_reason ev = [] then ''no feasible intervention''
          else ev_uncertainty_reason ev)\<rparr>"

definition select_intervention ::
    "TailEvaluation \<Rightarrow> TailObjective \<Rightarrow> ResourceFacts \<Rightarrow> int \<Rightarrow> TailEvaluation" where
  "select_intervention ev obj facts now =
     (let ev = ev\<lparr>ev_rejected_alternatives := []\<rparr>;
          cands = candidates_for_cause (dominant_cause (ev_causes ev));
          (ev, feasible) = select_loop facts (excess_of ev) cands ev []
      in build_what_would_change (apply_ranking (stable_sort cand_before feasible) ev) obj facts)"

subsection \<open>Modelled effects are finite\<close>

lemma small_fraction:
  assumes "0 \<le> a" and "a \<le> b" and "0 < b"
  shows "fp_finite (lit a b) \<and> 0 \<le> dval (lit a b) \<and> dval (lit a b) \<le> 1"
proof -
  have r: "0 \<le> real_of_int a / real_of_int b" "real_of_int a / real_of_int b \<le> 1" using assms by simp_all
  then have lt: "\<bar>real_of_int a / real_of_int b\<bar> < 2 powi 1023" using pow1023_large by linarith
  show ?thesis
    using lit_fraction [OF assms] lit_value [OF assms(3) lt] r(1) by (simp add: rnd_nonneg rn_nonneg)
qed

lemma effect_factor_range:
  "fp_finite (effect_factor t) \<and> 0 \<le> dval (effect_factor t) \<and> dval (effect_factor t) \<le> 1"
  unfolding effect_factor_def by (cases t) (simp_all add: small_fraction)

lemma rn_dval: "0 \<le> dval x \<Longrightarrow> fp_finite x \<Longrightarrow> rn (dval x) = dval x"
proof -
  assume x0: "0 \<le> dval x" and "fp_finite x"
  then obtain s m e where x: "decode x = Fin s m e" by (auto simp: fp_finite_def is_fin_iff)
  then have m: "0 \<le> m" "m < 9007199254740992" "- 1074 \<le> e" using canonical_decode [of x] by auto
  have "dval x = real_of_int m * 2 powi e"
  proof (cases s)
    case True
    with x0 m(1) have "real_of_int m * 2 powi e \<le> 0"
      by (simp add: dval_def x)
    then have "m = 0" using m(1) powi_pos [of e] by (auto simp: mult_le_0_iff simp del: powi_pos)
    then show ?thesis by (simp add: dval_def x)
  qed (simp add: dval_def x)
  then show ?thesis using rn_fix [OF m(1) _ m(3)] m(2) by simp
qed

lemma effect_value:
  assumes "0 \<le> excess" and "excess \<le> i64_max"
  shows "fp_finite (fmul (effect_factor t) (of_integer excess))"
    and "dval (fmul (effect_factor t) (of_integer excess)) = rn (dval (effect_factor t) * rn (real_of_int excess))"
    and "0 \<le> dval (fmul (effect_factor t) (of_integer excess))"
    and "dval (fmul (effect_factor t) (of_integer excess)) \<le> rn (real_of_int excess)"
proof -
  have big: "\<bar>real_of_int excess\<bar> < 2 powi 1023" using assms pow1023_large by (simp add: i64_max_def)
  note v = of_integer_value [OF big]
  have d: "dval (of_integer excess) = rn (real_of_int excess)" using v(2) assms(1) by (simp add: rnd_nonneg)
  have r0: "0 \<le> rn (real_of_int excess)" using assms(1) by (intro rn_nonneg) simp
  have "rn (real_of_int excess) \<le> rn (2 powi 63)"
    using assms by (intro rn_mono) (simp_all add: i64_max_def)
  also have "rn (2 powi 63 :: real) = 2 powi 63" using rn_fix [of 1 63] by simp
  finally have r1: "rn (real_of_int excess) \<le> 9223372036854775808" by simp
  note f = effect_factor_range [of t]
  have p: "0 \<le> dval (effect_factor t) * rn (real_of_int excess)"
    "dval (effect_factor t) * rn (real_of_int excess) \<le> rn (real_of_int excess)"
    using f r0 by (simp_all add: mult_left_le_one_le)
  then have lt: "\<bar>dval (effect_factor t) * dval (of_integer excess)\<bar> < 2 powi 1023"
    unfolding d using r1 pow1023_large by linarith
  note m = fmul_value [OF conjunct1 [OF f] v(1) lt]
  show "fp_finite (fmul (effect_factor t) (of_integer excess))" by (rule m)
  show e: "dval (fmul (effect_factor t) (of_integer excess)) = rn (dval (effect_factor t) * rn (real_of_int excess))"
    using m(2) p(1) by (simp add: d rnd_nonneg)
  show "0 \<le> dval (fmul (effect_factor t) (of_integer excess))" unfolding e using p(1) by (rule rn_nonneg)
  have "rn (dval (effect_factor t) * rn (real_of_int excess)) \<le> rn (rn (real_of_int excess))"
    using p by (intro rn_mono)
  also have "\<dots> = rn (real_of_int excess)" using rn_dval [of "of_integer excess"] v(1) r0 by (simp add: d)
  finally show "dval (fmul (effect_factor t) (of_integer excess)) \<le> rn (real_of_int excess)" unfolding e .
qed

lemma collateral_finite: "fp_finite (collateral_of t)"
  unfolding collateral_of_def using lit_int by (cases t) simp_all

definition cand_valid :: "Cand \<Rightarrow> bool" where
  "cand_valid c \<longleftrightarrow> fp_finite (c_eff c) \<and> fp_finite (c_collateral c)"

lemma cand_before_iff:
  "cand_valid a \<Longrightarrow> cand_valid b \<Longrightarrow> cand_before a b \<longleftrightarrow> dval (c_eff b) < dval (c_eff a) \<or>
     (dval (c_eff a) = dval (c_eff b) \<and> (type_int (c_type a) < type_int (c_type b) \<or>
        (type_int (c_type a) = type_int (c_type b) \<and> dval (c_collateral a) < dval (c_collateral b))))"
  by (auto simp: cand_before_def cand_valid_def feq_value flt_value)

interpretation ranking: strict_weak_order cand_before cand_valid
  by unfold_locales (auto simp: cand_before_iff)

lemma cand_valid_make [simp]: "0 \<le> excess \<Longrightarrow> excess \<le> i64_max \<Longrightarrow> cand_valid (make_cand excess t)"
  by (simp add: cand_valid_def make_cand_def effect_value collateral_finite)

lemma type_int_inj: "type_int t = type_int u \<longleftrightarrow> t = u"
  by (metis type_int_def int_of_code_inj intervention_type_enum.code_inj)

subsection \<open>The loop over the candidates\<close>

definition feasible_types :: "ResourceFacts \<Rightarrow> InterventionType list \<Rightarrow> InterventionType list" where
  "feasible_types facts ts = filter (\<lambda>t. infeasibility_of t facts = Infeasibility.NONE) ts"

definition infeasible_types :: "ResourceFacts \<Rightarrow> InterventionType list \<Rightarrow> InterventionType list" where
  "infeasible_types facts ts = filter (\<lambda>t. infeasibility_of t facts \<noteq> Infeasibility.NONE) ts"

text \<open>The first rejection reason that counts as a hard constraint.\<close>

fun first_binding :: "ResourceFacts \<Rightarrow> InterventionType list \<Rightarrow> Infeasibility option" where
  "first_binding facts [] = None"
| "first_binding facts (t # ts) =
     (if binds (infeasibility_of t facts) then Some (infeasibility_of t facts) else first_binding facts ts)"

lemma select_loop_value:
  "select_loop facts excess ts ev feasible =
     (ev\<lparr>ev_rejected_alternatives := ev_rejected_alternatives ev @ map (rejection facts) (infeasible_types facts ts),
         ev_binding_hard_constraint := (case ev_binding_hard_constraint ev of Some b \<Rightarrow> Some b
           | None \<Rightarrow> first_binding facts ts)\<rparr>,
      feasible @ map (make_cand excess) (feasible_types facts ts))"
proof (induction ts arbitrary: ev feasible)
  case (Cons t ts)
  have "binds (infeasibility_of t facts) \<Longrightarrow> infeasibility_of t facts \<noteq> Infeasibility.NONE"
    by (auto simp: binds_def)
  then show ?case
    by (auto simp: Cons.IH Let_def feasible_types_def infeasible_types_def split: option.splits)
qed (simp add: feasible_types_def infeasible_types_def split: option.splits)

lemma distinct_candidates: "distinct (candidates_for_cause c)"
  by (cases c) simp_all

lemma NO_ACTION_not_candidate: "NO_ACTION \<notin> set (candidates_for_cause c)"
  by (cases c) simp_all

lemma excess_of_range: "0 \<le> excess_of ev" "excess_of ev \<le> i64_max"
  using in_i64_i64 [of "nanos (ev_observed ev) - nanos (ev_recovered_threshold ev)"]
  by (auto simp: excess_of_def Let_def in_i64_def i64_max_def)

lemma mset_insert_by [simp]: "mset (insert_by lt x ys) = add_mset x (mset ys)"
  by (induction ys) auto

lemma mset_stable_sort [simp]: "mset (stable_sort lt xs) = mset xs"
  by (induction xs) auto

subsection \<open>What is selected\<close>

definition cause_candidates :: "TailEvaluation \<Rightarrow> InterventionType list" where
  "cause_candidates ev = candidates_for_cause (dominant_cause (ev_causes ev))"

definition effect_of :: "TailEvaluation \<Rightarrow> InterventionType \<Rightarrow> double" where
  "effect_of ev t = fmul (effect_factor t) (of_integer (excess_of ev))"

definition ranked :: "TailEvaluation \<Rightarrow> ResourceFacts \<Rightarrow> Cand list" where
  "ranked ev facts = stable_sort cand_before
     (map (make_cand (excess_of ev)) (feasible_types facts (cause_candidates ev)))"

lemma excess_of_update [simp]: "excess_of (ev\<lparr>ev_rejected_alternatives := r\<rparr>) = excess_of ev"
  by (simp add: excess_of_def)

definition screened :: "TailEvaluation \<Rightarrow> ResourceFacts \<Rightarrow> TailEvaluation" where
  "screened ev facts = ev\<lparr>
     ev_rejected_alternatives := map (rejection facts) (infeasible_types facts (cause_candidates ev)),
     ev_binding_hard_constraint := (case ev_binding_hard_constraint ev of Some b \<Rightarrow> Some b
       | None \<Rightarrow> first_binding facts (cause_candidates ev))\<rparr>"

lemma select_unfold:
  "select_intervention ev obj facts now =
     build_what_would_change (apply_ranking (ranked ev facts) (screened ev facts)) obj facts"
proof -
  have "cause_candidates (ev\<lparr>ev_rejected_alternatives := []\<rparr>) = cause_candidates ev"
    by (simp add: cause_candidates_def)
  then show ?thesis
    by (simp add: select_intervention_def select_loop_value ranked_def screened_def Let_def flip: cause_candidates_def
        cong: option.case_cong)
qed

lemma apply_ranking_frame [simp]:
  "ev_binding_hard_constraint (apply_ranking cs ev) = ev_binding_hard_constraint ev"
  "ev_state (apply_ranking cs ev) = ev_state ev"
  by (cases cs; simp)+

lemma ranked_valid: "\<forall>c \<in> set (map (make_cand (excess_of ev)) ts). cand_valid c"
  by (simp add: excess_of_range)

lemma ranked_Nil_iff: "ranked ev facts = [] \<longleftrightarrow> feasible_types facts (cause_candidates ev) = []"
  by (simp add: ranked_def)

lemma ranked_hd:
  assumes "ranked ev facts = c # others"
  shows "c = make_cand (excess_of ev) (c_type c)"
    and "c_type c \<in> set (feasible_types facts (cause_candidates ev))"
    and "t \<in> set (feasible_types facts (cause_candidates ev)) \<Longrightarrow>
      \<not> cand_before (make_cand (excess_of ev) t) c"
proof -
  let ?cs = "map (make_cand (excess_of ev)) (feasible_types facts (cause_candidates ev))"
  have "c \<in> set (ranked ev facts)" using assms by simp
  then have c: "c \<in> set ?cs" by (simp add: ranked_def)
  then show "c = make_cand (excess_of ev) (c_type c)"
    and "c_type c \<in> set (feasible_types facts (cause_candidates ev))"
    by (auto simp: make_cand_def)
  have h: "c = hd (stable_sort cand_before ?cs)" using assms by (simp add: ranked_def)
  show "\<not> cand_before (make_cand (excess_of ev) t) c"
    if "t \<in> set (feasible_types facts (cause_candidates ev))"
    using ranking.stable_sort_hd_minimal [OF ranked_valid] that unfolding h by simp
qed

lemma build_frame [simp]:
  "ev_selected_intervention (build_what_would_change ev obj facts) = ev_selected_intervention ev"
  "ev_rejected_alternatives (build_what_would_change ev obj facts) = ev_rejected_alternatives ev"
  "ev_binding_hard_constraint (build_what_would_change ev obj facts) = ev_binding_hard_constraint ev"
  "ev_expected_tail_reduction (build_what_would_change ev obj facts) = ev_expected_tail_reduction ev"
  "ev_state (build_what_would_change ev obj facts) = ev_state ev"
  by (simp_all add: build_what_would_change_def)

lemma selected_feasible:
  "ev_selected_intervention (select_intervention ev obj facts now) \<noteq> NO_ACTION \<Longrightarrow>
     ev_selected_intervention (select_intervention ev obj facts now) \<in> set (feasible_types facts (cause_candidates ev))"
  using ranked_hd(2) [of ev facts] by (cases "ranked ev facts") (auto simp: select_unfold)

lemma selected_some:
  "feasible_types facts (cause_candidates ev) \<noteq> [] \<Longrightarrow>
     ev_selected_intervention (select_intervention ev obj facts now) \<noteq> NO_ACTION"
  using ranked_hd(2) [of ev facts] ranked_Nil_iff [of ev facts] NO_ACTION_not_candidate
  by (cases "ranked ev facts") (auto simp: select_unfold feasible_types_def cause_candidates_def)

text \<open>C20: The selected intervention is one that the runtime facts allow among those the dominant
  cause suggests, and no other allowed one has a larger modelled effect, nor an equal effect and an
  earlier place in the enumeration; without an allowed one (in particular for an unknown cause) it is
  \<open>NO_ACTION\<close>. The selection never invents an intervention and does not depend on anything else.\<close>

theorem selection_is_best:
  "ev' = select_intervention ev obj facts now \<Longrightarrow>
     (if feasible_types facts (cause_candidates ev) = [] then ev_selected_intervention ev' = NO_ACTION
      else ev_selected_intervention ev' \<in> set (cause_candidates ev) \<and>
        infeasibility_of (ev_selected_intervention ev') facts = Infeasibility.NONE \<and>
        ev_expected_tail_reduction ev' = Duration (to_i64 (effect_of ev (ev_selected_intervention ev'))) \<and>
        (\<forall>t \<in> set (cause_candidates ev). infeasibility_of t facts = Infeasibility.NONE \<longrightarrow>
           t = ev_selected_intervention ev' \<or>
           dval (effect_of ev t) < dval (effect_of ev (ev_selected_intervention ev')) \<or>
           (dval (effect_of ev t) = dval (effect_of ev (ev_selected_intervention ev')) \<and>
              type_int (ev_selected_intervention ev') < type_int t)))"
proof -
  assume ev': "ev' = select_intervention ev obj facts now"
  show ?thesis
  proof (cases "ranked ev facts")
    case Nil
    then show ?thesis by (simp add: ev' select_unfold ranked_Nil_iff [symmetric] Let_def)
  next
    case (Cons c others)
    note h = ranked_hd [OF Cons]
    have sel: "ev_selected_intervention ev' = c_type c"
      and red: "ev_expected_tail_reduction ev' = Duration (to_i64 (c_eff c))"
      by (simp_all add: ev' select_unfold Cons Let_def)
    have eff: "c_eff c = effect_of ev (c_type c)"
      by (subst h(1)) (simp add: make_cand_def effect_of_def)
    have cv: "cand_valid c" by (subst h(1)) (simp add: excess_of_range)
    have best: "t = c_type c \<or> dval (effect_of ev t) < dval (effect_of ev (c_type c)) \<or>
        (dval (effect_of ev t) = dval (effect_of ev (c_type c)) \<and> type_int (c_type c) < type_int t)"
      if "t \<in> set (feasible_types facts (cause_candidates ev))" for t
      using h(3) [OF that] cv type_int_inj [of t "c_type c"]
      by (auto simp: cand_before_iff excess_of_range eff [symmetric])
        (auto simp: make_cand_def effect_of_def [symmetric])
    have "feasible_types facts (cause_candidates ev) \<noteq> []" using Cons by (simp flip: ranked_Nil_iff)
    then show ?thesis
      unfolding sel red eff using h(2) best by (simp add: feasible_types_def)
  qed
qed

definition demo_evaluation :: TailEvaluation where
  "demo_evaluation = tail_evaluation_default\<lparr>ev_observed := Duration 300, ev_recovered_threshold := Duration 180,
     ev_causes := [tail_cause_default\<lparr>tc_category := TailCauseCategory.COLD_RESIDENCY,
       tc_attribution := DOMINANT_CONTRIBUTOR\<rparr>]\<rparr>"

definition demo_facts :: ResourceFacts where
  "demo_facts = resource_facts_default\<lparr>f_warm_engine_ready := True\<rparr>"

lemma demo_selection:
  "ev_selected_intervention (select_intervention demo_evaluation tail_objective_default resource_facts_default 0) =
     PIN_RESIDENCY"
  by code_simp

lemma demo_selection_warm:
  "ev_selected_intervention (select_intervention demo_evaluation tail_objective_default demo_facts 0) =
     WARM_RESIDENCY"
  by code_simp

lemma selection_is_best_witness:
  "infeasibility_of WARM_RESIDENCY demo_facts = Infeasibility.NONE \<and>
   dval (effect_of demo_evaluation PIN_RESIDENCY) \<le> dval (effect_of demo_evaluation WARM_RESIDENCY)"
proof -
  have "feasible_types demo_facts (cause_candidates demo_evaluation) =
      [WARM_RESIDENCY, PIN_RESIDENCY, PROMOTE_WARM_ENGINE]"
    and "PIN_RESIDENCY \<in> set (cause_candidates demo_evaluation)"
    and "infeasibility_of PIN_RESIDENCY demo_facts = Infeasibility.NONE"
    by code_simp+
  then show ?thesis
    using selection_is_best [OF refl, of demo_facts demo_evaluation tail_objective_default 0]
    unfolding demo_selection_warm by (force simp: not_less)
qed

lemma first_binding_spec:
  "first_binding facts ts = Some why \<Longrightarrow> binds why \<and> (\<exists>t \<in> set ts. infeasibility_of t facts = why)"
  by (induction ts) (auto split: if_splits)

lemma ranked_feasible:
  assumes "c \<in> set (tl (ranked ev facts))"
  shows "infeasibility_of (c_type c) facts = Infeasibility.NONE"
proof -
  have "c \<in> set (ranked ev facts)" using assms by (cases "ranked ev facts") auto
  then show ?thesis by (auto simp: ranked_def make_cand_def feasible_types_def)
qed

text \<open>Every intervention the cause suggests is accounted for exactly once, as the selected one or
  as a rejected alternative; every rejected alternative carries the reason the runtime facts give
  for it (none, when it was only outranked); and a binding hard constraint that was not recorded
  before is the reason of one of the rejected alternatives.\<close>

theorem every_candidate_is_accounted_for:
  "ev' = select_intervention ev obj facts now \<Longrightarrow>
     mset (map ra_type (ev_rejected_alternatives ev')) +
       (if ev_selected_intervention ev' = NO_ACTION then {#} else {# ev_selected_intervention ev' #}) =
       mset (cause_candidates ev) \<and>
     (\<forall>ra \<in> set (ev_rejected_alternatives ev'). ra_reason ra = infeasibility_of (ra_type ra) facts) \<and>
     (\<forall>why. ev_binding_hard_constraint ev = None \<and> ev_binding_hard_constraint ev' = Some why \<longrightarrow>
        binds why \<and> (\<exists>ra \<in> set (ev_rejected_alternatives ev'). ra_reason ra = why))"
proof -
  assume ev': "ev' = select_intervention ev obj facts now"
  let ?fe = "feasible_types facts (cause_candidates ev)" and ?in = "infeasible_types facts (cause_candidates ev)"
  have part: "mset ?in + mset ?fe = mset (cause_candidates ev)"
    by (simp add: feasible_types_def infeasible_types_def)
  have types: "image_mset c_type (mset (ranked ev facts)) = mset ?fe"
    by (simp add: ranked_def image_mset.compositionality comp_def make_cand_def)
  have na: "t \<in> set ?fe \<Longrightarrow> t \<noteq> NO_ACTION" for t
    using NO_ACTION_not_candidate by (auto simp: feasible_types_def cause_candidates_def)
  have rej: "ev_rejected_alternatives ev' = map (rejection facts) ?in @ map outranked (tl (ranked ev facts))"
    by (cases "ranked ev facts") (simp_all add: ev' select_unfold screened_def)
  have one: "mset (map ra_type (ev_rejected_alternatives ev')) +
       (if ev_selected_intervention ev' = NO_ACTION then {#} else {# ev_selected_intervention ev' #}) =
       mset (cause_candidates ev)"
  proof (cases "ranked ev facts")
    case Nil
    then have "mset ?fe = {#}" using types by simp
    moreover have "ev_selected_intervention ev' = NO_ACTION" by (simp add: ev' select_unfold Nil)
    ultimately show ?thesis using part by (simp add: rej Nil comp_def rejection_def Let_def)
  next
    case (Cons c others)
    have sel: "ev_selected_intervention ev' = c_type c" by (simp add: ev' select_unfold Cons)
    have "c_type c \<noteq> NO_ACTION" using na ranked_hd(2) [OF Cons] by blast
    moreover have "mset (map ra_type (ev_rejected_alternatives ev')) = mset ?in + image_mset c_type (mset others)"
      by (simp add: rej Cons comp_def rejection_def outranked_def Let_def)
    moreover have "mset ?fe = add_mset (c_type c) (image_mset c_type (mset others))" using types Cons by simp
    ultimately show ?thesis by (simp add: sel flip: part)
  qed
  have two: "\<forall>ra \<in> set (ev_rejected_alternatives ev'). ra_reason ra = infeasibility_of (ra_type ra) facts"
    using ranked_feasible by (auto simp: rej rejection_def outranked_def Let_def)
  have three: "binds why \<and> (\<exists>ra \<in> set (ev_rejected_alternatives ev'). ra_reason ra = why)"
    if "ev_binding_hard_constraint ev = None" "ev_binding_hard_constraint ev' = Some why" for why
  proof -
    have b: "first_binding facts (cause_candidates ev) = Some why"
      using that by (simp add: ev' select_unfold screened_def)
    then have "why \<noteq> Infeasibility.NONE" using first_binding_spec [OF b] by (auto simp: binds_def)
    then show ?thesis
      using first_binding_spec [OF b] by (force simp: rej infeasible_types_def rejection_def Let_def)
  qed
  show ?thesis using one two three by blast
qed

lemma every_candidate_is_accounted_for_witness:
  "mset (map ra_type (ev_rejected_alternatives
       (select_intervention demo_evaluation tail_objective_default resource_facts_default 0))) +
     {# PIN_RESIDENCY #} = {# WARM_RESIDENCY, PIN_RESIDENCY, PROMOTE_WARM_ENGINE #}"
  using every_candidate_is_accounted_for [OF refl, of demo_evaluation tail_objective_default resource_facts_default 0]
  unfolding demo_selection
  by (simp add: cause_candidates_def demo_evaluation_def)

end
