(* ===== verification/GovernorState.thy ===== *)
theory GovernorState
  imports Selection
begin

text \<open>
  The state of a governor (\<open>TailGovernor::Impl\<close> of governor.cpp) and the operations that set it up:
  worker registration, the policy, the generations, and the ingestion of evidence. An operation
  takes the state and returns its result with the new state; the lock that serialises public
  operations is what makes them functions.
\<close>

text \<open>
  The clock is known by its readings: the n-th call of \<open>now_ns\<close> returns the n-th of them. Without a
  clock the time is 0.
\<close>

type_synonym Clock = "nat \<Rightarrow> int"

record GovernorConfig =
  gc_clock :: "Clock option"
  gc_epoch :: CoordinatorEpoch
  gc_service :: ServiceId
  gc_service_generation :: ServiceGeneration
  gc_workload :: WorkloadId
  gc_workload_generation :: WorkloadGeneration
  gc_max_services :: u64
  gc_max_classes_per_objective :: u64
  gc_max_pending_interventions :: u64
  gc_max_history :: u64

definition governor_config_default :: GovernorConfig where
  "governor_config_default = \<lparr>gc_clock = None, gc_epoch = Id 0, gc_service = Id 0,
     gc_service_generation = Id 0, gc_workload = Id 0, gc_workload_generation = Id 0,
     gc_max_services = 256, gc_max_classes_per_objective = 1024,
     gc_max_pending_interventions = 4096, gc_max_history = 100000\<rparr>"

datatype GovernorWindowKey = GovernorWindowKey (k_objective: TailObjectiveId) (k_cls: RequestClassId)

definition window_key_below :: "GovernorWindowKey \<Rightarrow> GovernorWindowKey \<Rightarrow> bool" where
  "window_key_below a b \<longleftrightarrow>
     (if k_objective a \<noteq> k_objective b then k_objective a < k_objective b else k_cls a < k_cls b)"

instantiation GovernorWindowKey :: linorder
begin

definition less_GovernorWindowKey :: "GovernorWindowKey \<Rightarrow> GovernorWindowKey \<Rightarrow> bool" where
  "a < b \<longleftrightarrow> window_key_below a b"

definition less_eq_GovernorWindowKey :: "GovernorWindowKey \<Rightarrow> GovernorWindowKey \<Rightarrow> bool" where
  "a \<le> b \<longleftrightarrow> a = b \<or> a < (b :: GovernorWindowKey)"

instance
  by standard
    (auto simp: less_eq_GovernorWindowKey_def less_GovernorWindowKey_def window_key_below_def GovernorWindowKey.expand
      split: if_splits intro: GovernorWindowKey.expand)

end

record Impl =
  g_cfg :: GovernorConfig
  g_pol :: TailPolicy
  g_facts :: ResourceFacts
  g_worker_boots :: "(WorkerId, WorkerBootId) omap"
  g_windows :: "(GovernorWindowKey, ObservationWindow) omap"
  g_seen :: "(RequestId, EvidenceGeneration) omap"
  g_interventions :: "(InterventionId, Intervention) omap"
  g_last_intervention_ns :: "(TailObjectiveId, int) omap"
  g_last_state :: "(TailObjectiveId, TailState) omap"
  g_recover_streak :: "(TailObjectiveId, int) omap"
  g_revalidate_needed :: "(TailObjectiveId, bool) omap"
  g_outcomes :: "(InterventionId, PostOutcome) omap"
  g_evaluations :: "TailEvaluation list"
  g_resource_gen :: ResourceGeneration
  g_queue_gen :: QueueGeneration
  g_batch_gen :: BatchGeneration
  g_recovery_gen :: RecoveryGeneration
  g_topology_gen :: TopologyGeneration
  g_engine_inc :: EngineIncarnationId
  g_shutting_down :: bool
  g_next_eval_id :: u64
  g_next_int_id :: u64
  g_next_dispatch_id :: u64
  g_reads :: nat

definition governor_new :: "GovernorConfig \<Rightarrow> Impl" where
  "governor_new cfg = \<lparr>g_cfg = cfg, g_pol = tail_policy_default, g_facts = resource_facts_default,
     g_worker_boots = om_empty, g_windows = om_empty, g_seen = om_empty, g_interventions = om_empty,
     g_last_intervention_ns = om_empty, g_last_state = om_empty, g_recover_streak = om_empty,
     g_revalidate_needed = om_empty, g_outcomes = om_empty, g_evaluations = [],
     g_resource_gen = Id 0, g_queue_gen = Id 0, g_batch_gen = Id 0, g_recovery_gen = Id 0,
     g_topology_gen = Id 0, g_engine_inc = Id 0, g_shutting_down = False, g_next_eval_id = 1,
     g_next_int_id = 1, g_next_dispatch_id = 1, g_reads = 0\<rparr>"

fun clock_reading :: "Clock option \<Rightarrow> nat \<Rightarrow> int" where
  "clock_reading None n = 0"
| "clock_reading (Some clock) n = clock n"

definition now_of :: "Impl \<Rightarrow> int" where "now_of g = clock_reading (gc_clock (g_cfg g)) (g_reads g)"

definition read_now :: "Impl \<Rightarrow> int \<times> Impl" where
  "read_now g = (now_of g, g\<lparr>g_reads := g_reads g + 1\<rparr>)"

definition find_objective :: "TailObjectiveId \<Rightarrow> Impl \<Rightarrow> TailObjective option" where
  "find_objective i g = find (\<lambda>obj. o_id obj = i) (po_objectives (g_pol g))"

definition ensure_window ::
    "TailObjectiveId \<Rightarrow> RequestClassId \<Rightarrow> Impl \<Rightarrow> ObservationWindow \<times> Impl" where
  "ensure_window objective cls g =
     (let key = GovernorWindowKey objective cls in
      case om_find (g_windows g) key of
        Some w \<Rightarrow> (w, g)
      | None \<Rightarrow>
          (let wc = (case find_objective objective g of Some obj \<Rightarrow> o_window obj
                     | None \<Rightarrow> window_config_default);
               w = window_new wc
           in (w, g\<lparr>g_windows := om_emplace key w (g_windows g)\<rparr>)))"

text \<open>Writing back the window that a reference returned by \<open>ensure_window\<close> has changed.\<close>

definition put_window ::
    "TailObjectiveId \<Rightarrow> RequestClassId \<Rightarrow> ObservationWindow \<Rightarrow> Impl \<Rightarrow> Impl" where
  "put_window objective cls w g =
     g\<lparr>g_windows := om_put (GovernorWindowKey objective cls) w (g_windows g)\<rparr>"

definition current_authority :: "TailObjective \<Rightarrow> Impl \<Rightarrow> AuthorityContext" where
  "current_authority obj g = authority_default\<lparr>
     a_epoch := gc_epoch (g_cfg g), a_service := gc_service (g_cfg g),
     a_service_generation := gc_service_generation (g_cfg g), a_workload := gc_workload (g_cfg g),
     a_workload_generation := gc_workload_generation (g_cfg g), a_policy := po_id (g_pol g),
     a_policy_generation := po_generation (g_pol g), a_objective := o_id obj,
     a_objective_generation := o_generation obj, a_queue_generation := Some (g_queue_gen g),
     a_batch_generation := Some (g_batch_gen g), a_resource_generation := Some (g_resource_gen g),
     a_recovery_generation := Some (g_recovery_gen g), a_topology_generation := Some (g_topology_gen g),
     a_engine_incarnation := Some (g_engine_inc g)\<rparr>"

subsection \<open>Workers, policy and generations\<close>

definition register_worker :: "WorkerId \<Rightarrow> WorkerBootId \<Rightarrow> Impl \<Rightarrow> Status \<times> Impl" where
  "register_worker i boot g =
     (if g_shutting_down g then (status StatusCode.SHUTTING_DOWN ''register during shutdown'', g)
      else (status_ok, g\<lparr>g_worker_boots := om_put i boot (g_worker_boots g)\<rparr>))"

definition unregister_worker :: "WorkerId \<Rightarrow> Impl \<Rightarrow> Status \<times> Impl" where
  "unregister_worker i g = (status_ok, g\<lparr>g_worker_boots := om_erase i (g_worker_boots g)\<rparr>)"

definition set_policy :: "TailPolicy \<Rightarrow> Impl \<Rightarrow> Impl" where
  "set_policy policy g = g\<lparr>g_pol := policy\<rparr>"

definition policy :: "Impl \<Rightarrow> TailPolicy" where "policy g = g_pol g"

definition flag_revalidation ::
    "TailObjective list \<Rightarrow> (TailObjectiveId, bool) omap \<Rightarrow> (TailObjectiveId, bool) omap" where
  "flag_revalidation objs m = foldl (\<lambda>m obj. om_put (o_id obj) True m) m objs"

definition advance_epoch :: "Impl \<Rightarrow> Impl" where
  "advance_epoch g =
     (let g = g\<lparr>g_cfg := (g_cfg g)\<lparr>gc_epoch := Id (id_value (gc_epoch (g_cfg g)) + 1)\<rparr>\<rparr>;
          g = g\<lparr>g_revalidate_needed := flag_revalidation (po_objectives (g_pol g)) (g_revalidate_needed g)\<rparr>
      in g\<lparr>g_windows := om_empty, g_seen := om_empty\<rparr>)"

definition set_resource_generation :: "ResourceGeneration \<Rightarrow> Impl \<Rightarrow> Impl" where
  "set_resource_generation v g = g\<lparr>g_resource_gen := v\<rparr>"
definition set_queue_generation :: "QueueGeneration \<Rightarrow> Impl \<Rightarrow> Impl" where
  "set_queue_generation v g = g\<lparr>g_queue_gen := v\<rparr>"
definition set_batch_generation :: "BatchGeneration \<Rightarrow> Impl \<Rightarrow> Impl" where
  "set_batch_generation v g = g\<lparr>g_batch_gen := v\<rparr>"
definition set_recovery_generation :: "RecoveryGeneration \<Rightarrow> Impl \<Rightarrow> Impl" where
  "set_recovery_generation v g = g\<lparr>g_recovery_gen := v\<rparr>"
definition set_topology_generation :: "TopologyGeneration \<Rightarrow> Impl \<Rightarrow> Impl" where
  "set_topology_generation v g = g\<lparr>g_topology_gen := v\<rparr>"
definition set_engine_incarnation :: "EngineIncarnationId \<Rightarrow> Impl \<Rightarrow> Impl" where
  "set_engine_incarnation v g = g\<lparr>g_engine_inc := v\<rparr>"

definition set_resource_facts :: "ResourceFacts \<Rightarrow> Impl \<Rightarrow> Impl" where
  "set_resource_facts facts g = g\<lparr>g_facts := facts\<rparr>"
definition resource_facts :: "Impl \<Rightarrow> ResourceFacts" where "resource_facts g = g_facts g"

definition begin_shutdown :: "Impl \<Rightarrow> Impl" where
  "begin_shutdown g = g\<lparr>g_shutting_down := True\<rparr>"

definition intervention_history :: "Impl \<Rightarrow> Intervention list" where
  "intervention_history g = map snd (g_interventions g)"
definition evaluations :: "Impl \<Rightarrow> TailEvaluation list" where "evaluations g = g_evaluations g"
definition epoch :: "Impl \<Rightarrow> CoordinatorEpoch" where "epoch g = gc_epoch (g_cfg g)"
definition window_count :: "Impl \<Rightarrow> nat" where "window_count g = length (g_windows g)"

definition window_copy ::
    "TailObjectiveId \<Rightarrow> RequestClassId \<Rightarrow> Impl \<Rightarrow> ObservationWindow option" where
  "window_copy objective cls g = om_find (g_windows g) (GovernorWindowKey objective cls)"

subsection \<open>Ingestion\<close>

text \<open>The check of the phase durations: the first offence ends it.\<close>

fun check_phases :: "int \<Rightarrow> Duration \<Rightarrow> PhaseLatency list \<Rightarrow> Status option" where
  "check_phases acc tot [] = None"
| "check_phases acc tot (ph # phs) =
     (if nanos (pl_duration ph) < 0 then Some (status INVALID_INPUT ''negative phase duration'')
      else let acc = i64 (acc + nanos (pl_duration ph)) in
           if acc > nanos tot
           then Some (status INVALID_INPUT ''impossible phase sum exceeds total'')
           else check_phases acc tot phs)"

definition make_sample :: "RequestLatency \<Rightarrow> Duration \<Rightarrow> TailSample" where
  "make_sample ev tot = \<lparr>ts_latency = tot,
     ts_captured_ns = (if rl_captured_ns ev > 0 then rl_captured_ns ev else rl_completion_ns ev),
     ts_arrival_ns = rl_arrival_ns ev, ts_phases = rl_phases ev,
     ts_request_class = rl_request_class ev, ts_worker_boot = rl_worker_boot ev,
     ts_epoch = rl_epoch ev, ts_retry_count = rl_retry_count ev, ts_worst_phase = Phase.OTHER\<rparr>"

definition insert_sample ::
    "TailObjectiveId \<Rightarrow> RequestClassId \<Rightarrow> TailSample \<Rightarrow> Impl \<Rightarrow> Impl" where
  "insert_sample objective cls s g =
     (let (w, g) = ensure_window objective cls g in put_window objective cls (snd (window_insert s w)) g)"

definition ingest_objective :: "RequestClassId \<Rightarrow> TailSample \<Rightarrow> Impl \<Rightarrow> TailObjective \<Rightarrow> Impl" where
  "ingest_objective cls s g obj =
     (if \<not> o_enabled obj then g
      else let g = insert_sample (o_id obj) (Id 0) s g;
               g = (if cls \<noteq> Id 0 then insert_sample (o_id obj) cls s g else g)
           in g\<lparr>g_revalidate_needed := om_put (o_id obj) False (g_revalidate_needed g)\<rparr>)"

definition ingest :: "RequestLatency \<Rightarrow> Impl \<Rightarrow> Status \<times> Impl" where
  "ingest ev g =
     (if g_shutting_down g then (status StatusCode.SHUTTING_DOWN ''ingest during shutdown'', g)
      else if rl_epoch ev \<noteq> gc_epoch (g_cfg g)
      then (status StatusCode.STALE_AUTHORITY ''evidence epoch is not current'', g)
      else if rl_service_generation ev \<noteq> gc_service_generation (g_cfg g)
      then (status StatusCode.STALE_AUTHORITY ''evidence service generation is stale'', g)
      else if rl_workload_generation ev \<noteq> gc_workload_generation (g_cfg g)
      then (status StatusCode.STALE_AUTHORITY ''evidence workload generation is stale'', g)
      else case om_find (g_worker_boots g) (rl_worker ev) of
        None \<Rightarrow> (status StatusCode.STALE_AUTHORITY ''evidence source worker is not registered'', g)
      | Some boot \<Rightarrow>
          if boot \<noteq> rl_worker_boot ev
          then (status StatusCode.STALE_AUTHORITY ''evidence source worker boot is stale'', g)
          else if \<not> is_authoritative_completion ev
          then (status INVALID_INPUT ''non-authoritative completion is not valid tail evidence'', g)
          else if om_find (g_seen g) (rl_request_id ev) \<noteq> None
          then (status INVALID_INPUT ''duplicate completion'', g)
          else case (if nanos (rl_total_latency ev) > 0 then Inr (rl_total_latency ev)
                     else resolved_total ev) of
            Inl s \<Rightarrow> (status (code s) (message s), g)
          | Inr tot \<Rightarrow>
              (case check_phases 0 tot (rl_phases ev) of
                 Some s \<Rightarrow> (s, g)
               | None \<Rightarrow>
                   (let g = foldl (ingest_objective (rl_request_class ev) (make_sample ev tot)) g
                              (po_objectives (g_pol g))
                    in (status_ok, g\<lparr>g_seen :=
                          om_emplace (rl_request_id ev) (rl_evidence_generation ev) (g_seen g)\<rparr>))))"

subsection \<open>What ingestion does to the windows\<close>

definition window_of :: "Impl \<Rightarrow> TailObjectiveId \<Rightarrow> RequestClassId \<Rightarrow> ObservationWindow" where
  "window_of g objective cls = fst (ensure_window objective cls g)"

text \<open>Every window is coherent and within its bound, and every retained sample satisfies \<open>P\<close>.\<close>

definition window_good :: "(TailSample \<Rightarrow> bool) \<Rightarrow> ObservationWindow \<Rightarrow> bool" where
  "window_good P w \<longleftrightarrow> win_inv w \<and> win_bounded w \<and> (\<forall>s \<in> set (w_samples w). P s)"

definition windows_good :: "(TailSample \<Rightarrow> bool) \<Rightarrow> Impl \<Rightarrow> bool" where
  "windows_good P g \<longleftrightarrow> om_inv (g_windows g) \<and>
     (\<forall>k w. om_find (g_windows g) k = Some w \<longrightarrow> window_good P w)"

lemma window_good_new [simp]: "window_good P (window_new cfg)"
  by (simp add: window_good_def win_bounded_def) (simp add: window_new_def)

lemma window_good_insert: "window_good P w \<Longrightarrow> P s \<Longrightarrow> window_good P (snd (window_insert s w))"
  using step_samples [of w "Insert s"] by (auto simp: window_good_def win_inv_insert win_bounded_insert)

lemma window_good_sorted: "window_good P w \<Longrightarrow> window_good P (snd (window_sorted now w))"
  using step_samples [of w "ReadSorted now"] win_bounded_step [of w "ReadSorted now"]
  by (auto simp: window_good_def win_inv_sorted)

lemma window_good_pruned: "window_good P w \<Longrightarrow> window_good P (snd (window_prune now w))"
  using step_samples [of w "Prune now"] win_bounded_step [of w "Prune now"]
  by (auto simp: window_good_def win_inv_prune)

lemma ensure_window_eq:
  "\<exists>W. snd (ensure_window objective cls g) = g\<lparr>g_windows := W\<rparr> \<and>
     om_find W = (om_find (g_windows g))(GovernorWindowKey objective cls \<mapsto> window_of g objective cls) \<and>
     (om_inv (g_windows g) \<longrightarrow> om_inv W)"
proof (cases "om_find (g_windows g) (GovernorWindowKey objective cls)")
  case None
  then show ?thesis
    by (intro exI [of _ "om_emplace (GovernorWindowKey objective cls) (window_of g objective cls) (g_windows g)"])
      (simp add: ensure_window_def window_of_def Let_def om_find_emplace)
next
  case (Some w)
  then show ?thesis
    by (intro exI [of _ "g_windows g"]) (auto simp: ensure_window_def window_of_def Let_def)
qed

lemma window_of_good: "windows_good P g \<Longrightarrow> window_good P (window_of g objective cls)"
  by (auto simp: windows_good_def window_of_def ensure_window_def Let_def split: option.split)

lemma insert_sample_eq:
  "\<exists>W. insert_sample objective cls s g = g\<lparr>g_windows := W\<rparr> \<and>
     om_find W = (om_find (g_windows g))
       (GovernorWindowKey objective cls \<mapsto> snd (window_insert s (window_of g objective cls))) \<and>
     (om_inv (g_windows g) \<longrightarrow> om_inv W)"
proof -
  obtain W where W: "snd (ensure_window objective cls g) = g\<lparr>g_windows := W\<rparr>"
    "om_find W = (om_find (g_windows g))(GovernorWindowKey objective cls \<mapsto> window_of g objective cls)"
    "om_inv (g_windows g) \<longrightarrow> om_inv W" using ensure_window_eq by blast
  show ?thesis
    by (intro exI [of _ "om_put (GovernorWindowKey objective cls) (snd (window_insert s (window_of g objective cls))) W"])
      (use W in \<open>simp add: insert_sample_def split_beta put_window_def window_of_def\<close>)
qed

lemma insert_sample_good: "windows_good P g \<Longrightarrow> P s \<Longrightarrow> windows_good P (insert_sample objective cls s g)"
  using insert_sample_eq [of objective cls s g] window_good_insert [OF window_of_good]
  by (auto simp: windows_good_def split: if_splits)

lemma last_keep_last: "0 < n \<Longrightarrow> xs \<noteq> [] \<Longrightarrow> keep_last n xs \<noteq> [] \<and> last (keep_last n xs) = last xs"
proof -
  assume "0 < n" "xs \<noteq> []"
  then have "length xs - n < length xs" by simp
  then show ?thesis by (simp add: keep_last_def)
qed

lemma insert_last:
  "0 \<le> nanos (ts_latency s) \<Longrightarrow>
     w_samples (snd (window_insert s w)) \<noteq> [] \<and> last (w_samples (snd (window_insert s w))) = s"
  using last_keep_last [of "unat (wc_max_samples (w_cfg w))" "w_samples w @ [s]"]
  by (auto simp: window_insert_def Let_def)

lemma ingest_objective_eq:
  "\<exists>W. ingest_objective cls s g obj = (if o_enabled obj
       then g\<lparr>g_windows := W, g_revalidate_needed := om_put (o_id obj) False (g_revalidate_needed g)\<rparr> else g)"
proof -
  obtain W where W: "insert_sample (o_id obj) (Id 0) s g = g\<lparr>g_windows := W\<rparr>"
    using insert_sample_eq by blast
  obtain V where V: "insert_sample (o_id obj) cls s (g\<lparr>g_windows := W\<rparr>) = g\<lparr>g_windows := V\<rparr>"
    using insert_sample_eq [of "o_id obj" cls s "g\<lparr>g_windows := W\<rparr>"] by auto
  show ?thesis
    by (intro exI [of _ "if cls \<noteq> Id 0 then V else W"]) (simp add: ingest_objective_def Let_def W V)
qed

text \<open>The whole loop over the objectives changes the windows and the revalidation flags only.\<close>

lemma ingest_objectives_eq:
  "\<exists>W. foldl (ingest_objective cls s) g objs = g\<lparr>g_windows := W, g_revalidate_needed :=
     foldl (\<lambda>m obj. if o_enabled obj then om_put (o_id obj) False m else m) (g_revalidate_needed g) objs\<rparr>"
proof (induction objs arbitrary: g)
  case Nil
  show ?case by (intro exI [of _ "g_windows g"]) simp
next
  case (Cons obj objs)
  obtain V where V: "ingest_objective cls s g obj = (if o_enabled obj
       then g\<lparr>g_windows := V, g_revalidate_needed := om_put (o_id obj) False (g_revalidate_needed g)\<rparr> else g)"
    using ingest_objective_eq by blast
  show ?case using Cons.IH [of "ingest_objective cls s g obj"] V by (auto split: if_splits)
qed

lemma revalidation_put [simp]: "windows_good P (g\<lparr>g_revalidate_needed := m\<rparr>) = windows_good P g"
  by (simp add: windows_good_def)

lemma ingest_objective_good: "windows_good P g \<Longrightarrow> P s \<Longrightarrow> windows_good P (ingest_objective cls s g obj)"
  by (simp add: ingest_objective_def Let_def insert_sample_good)

lemma ingest_objectives_good:
  "windows_good P g \<Longrightarrow> P s \<Longrightarrow> windows_good P (foldl (ingest_objective cls s) g objs)"
  by (induction objs arbitrary: g) (simp_all add: ingest_objective_good)

text \<open>What the loop leaves in every window and in every flag.\<close>

lemma window_of_cong:
  "om_find (g_windows h) (GovernorWindowKey i c) = om_find (g_windows g) (GovernorWindowKey i c) \<Longrightarrow> g_pol h = g_pol g \<Longrightarrow>
     window_of h i c = window_of g i c"
  by (simp add: window_of_def ensure_window_def find_objective_def Let_def split: option.split)

lemma window_of_found: "om_find (g_windows g) (GovernorWindowKey i c) = Some w \<Longrightarrow> window_of g i c = w"
  by (simp add: window_of_def ensure_window_def Let_def)

text \<open>Inserting the same sample once for each enabled objective of an identity.\<close>

definition insert_times :: "nat \<Rightarrow> TailSample \<Rightarrow> ObservationWindow \<Rightarrow> ObservationWindow" where
  "insert_times n s w = ((\<lambda>w. snd (window_insert s w)) ^^ n) w"

definition enabled_with :: "TailObjectiveId \<Rightarrow> TailObjective list \<Rightarrow> nat" where
  "enabled_with i objs = length (filter (\<lambda>obj. o_enabled obj \<and> o_id obj = i) objs)"

lemma insert_sample_find:
  "om_find (g_windows (insert_sample j d s g)) = (om_find (g_windows g))
     (GovernorWindowKey j d \<mapsto> snd (window_insert s (window_of g j d)))"
  "g_pol (insert_sample j d s g) = g_pol g"
  using insert_sample_eq [of j d s g] by auto

lemma ingest_objective_windows:
  "om_find (g_windows (ingest_objective cls s g obj)) (GovernorWindowKey i c) =
     (if o_enabled obj \<and> o_id obj = i \<and> c \<in> {Id 0, cls} then Some (snd (window_insert s (window_of g i c)))
      else om_find (g_windows g) (GovernorWindowKey i c))"
  "g_pol (ingest_objective cls s g obj) = g_pol g"
proof -
  have "window_of (insert_sample (o_id obj) (Id 0) s g) (o_id obj) cls = window_of g (o_id obj) cls" if "cls \<noteq> Id 0"
    using that by (intro window_of_cong) (simp_all add: insert_sample_find)
  then show "om_find (g_windows (ingest_objective cls s g obj)) (GovernorWindowKey i c) =
     (if o_enabled obj \<and> o_id obj = i \<and> c \<in> {Id 0, cls} then Some (snd (window_insert s (window_of g i c)))
      else om_find (g_windows g) (GovernorWindowKey i c))"
    by (auto simp: ingest_objective_def Let_def insert_sample_find)
qed (simp add: ingest_objective_def Let_def insert_sample_find)

lemma ingest_objectives_windows:
  "om_find (g_windows (foldl (ingest_objective cls s) g objs)) (GovernorWindowKey i c) =
     (if 0 < enabled_with i objs \<and> c \<in> {Id 0, cls} then Some (insert_times (enabled_with i objs) s (window_of g i c))
      else om_find (g_windows g) (GovernorWindowKey i c))"
proof (induction objs arbitrary: g)
  case (Cons obj objs)
  let ?g = "ingest_objective cls s g obj"
  show ?case
  proof (cases "o_enabled obj \<and> o_id obj = i \<and> c \<in> {Id 0, cls}")
    case True
    then have g: "om_find (g_windows ?g) (GovernorWindowKey i c) = Some (snd (window_insert s (window_of g i c)))"
      by (simp add: ingest_objective_windows(1))
    show ?thesis
      using True Cons.IH [of ?g] window_of_found [OF g] g
      by (auto simp: enabled_with_def insert_times_def funpow_Suc_right simp del: funpow.simps(2))
  next
    case False
    then have g: "om_find (g_windows ?g) (GovernorWindowKey i c) = om_find (g_windows g) (GovernorWindowKey i c)"
      by (subst ingest_objective_windows(1)) (rule if_not_P)
    moreover have "window_of ?g i c = window_of g i c"
      using g by (rule window_of_cong) (rule ingest_objective_windows(2))
    moreover have "c \<in> {Id 0, cls} \<Longrightarrow> enabled_with i (obj # objs) = enabled_with i objs"
      using False by (auto simp: enabled_with_def)
    ultimately show ?thesis using Cons.IH [of ?g] by (cases "c \<in> {Id 0, cls}") (simp_all del: insert_iff)
  qed
qed (simp add: enabled_with_def)

lemma flags_after: "om_find (foldl (\<lambda>m obj. if o_enabled obj then om_put (o_id obj) False m else m) m objs) i =
    (if 0 < enabled_with i objs then Some False else om_find m i)"
  by (induction objs arbitrary: m) (auto simp: enabled_with_def)

lemma insert_times_last:
  assumes "0 \<le> nanos (ts_latency s)" and "0 < n"
  shows "w_samples (insert_times n s w) \<noteq> [] \<and> last (w_samples (insert_times n s w)) = s"
  using assms(2) insert_last [OF assms(1)] by (cases n) (simp_all add: insert_times_def)

subsection \<open>What is accepted\<close>

definition total_of :: "RequestLatency \<Rightarrow> Duration Result" where
  "total_of ev = (if nanos (rl_total_latency ev) > 0 then Inr (rl_total_latency ev) else resolved_total ev)"

lemma total_of_nonneg: "total_of ev = Inr d \<Longrightarrow> 0 \<le> nanos d"
  by (auto simp: total_of_def resolved_total_nonneg split: if_splits)

lemma resolved_total_error: "resolved_total ev = Inl s \<Longrightarrow> code s \<noteq> OK"
  by (auto simp: resolved_total_def from_nanos_def err_def split: if_splits)

lemma check_phases_error: "check_phases acc tot phs = Some s \<Longrightarrow> code s \<noteq> OK"
  by (induction acc tot phs rule: check_phases.induct) (auto simp: Let_def split: if_splits)

text \<open>Without overflow, a passed check bounds the sum of the phases by the total.\<close>

lemma check_phases_sum:
  "check_phases acc tot phs = None \<Longrightarrow> 0 \<le> acc \<Longrightarrow> acc \<le> nanos tot \<Longrightarrow>
   \<forall>ph \<in> set phs. nanos (pl_duration ph) + nanos tot \<le> i64_max \<Longrightarrow>
   nonneg_phases phs \<and> acc + duration_sum phs \<le> nanos tot"
proof (induction acc tot phs rule: check_phases.induct)
  case (2 acc tot ph phs)
  have d: "0 \<le> nanos (pl_duration ph)" using "2.prems"(1) by (simp split: if_splits)
  then have "in_i64 (acc + nanos (pl_duration ph))"
    using "2.prems"(2-4) by (simp add: in_i64_def i64_min_def)
  then have w: "i64 (acc + nanos (pl_duration ph)) = acc + nanos (pl_duration ph)" by (rule i64_id)
  have step: "acc + nanos (pl_duration ph) \<le> nanos tot" "check_phases (acc + nanos (pl_duration ph)) tot phs = None"
    using "2.prems"(1) d by (simp_all add: w Let_def split: if_splits)
  have "nonneg_phases phs \<and> acc + nanos (pl_duration ph) + duration_sum phs \<le> nanos tot"
    using "2.IH" [OF _ refl] step d "2.prems"(2,4) by (simp add: w)
  then show ?case using d by (simp add: nonneg_phases_def)
qed (simp_all add: nonneg_phases_def)

lemma ingest_split:
  "ingest ev g =
     (if g_shutting_down g then (status StatusCode.SHUTTING_DOWN ''ingest during shutdown'', g)
      else if rl_epoch ev \<noteq> gc_epoch (g_cfg g)
      then (status StatusCode.STALE_AUTHORITY ''evidence epoch is not current'', g)
      else if rl_service_generation ev \<noteq> gc_service_generation (g_cfg g)
      then (status StatusCode.STALE_AUTHORITY ''evidence service generation is stale'', g)
      else if rl_workload_generation ev \<noteq> gc_workload_generation (g_cfg g)
      then (status StatusCode.STALE_AUTHORITY ''evidence workload generation is stale'', g)
      else if om_find (g_worker_boots g) (rl_worker ev) = None
      then (status StatusCode.STALE_AUTHORITY ''evidence source worker is not registered'', g)
      else if om_find (g_worker_boots g) (rl_worker ev) \<noteq> Some (rl_worker_boot ev)
      then (status StatusCode.STALE_AUTHORITY ''evidence source worker boot is stale'', g)
      else if \<not> is_authoritative_completion ev
      then (status INVALID_INPUT ''non-authoritative completion is not valid tail evidence'', g)
      else if om_find (g_seen g) (rl_request_id ev) \<noteq> None
      then (status INVALID_INPUT ''duplicate completion'', g)
      else case total_of ev of
            Inl s \<Rightarrow> (status (code s) (message s), g)
          | Inr tot \<Rightarrow>
              (case check_phases 0 tot (rl_phases ev) of
                 Some s \<Rightarrow> (s, g)
               | None \<Rightarrow> (status_ok, (foldl (ingest_objective (rl_request_class ev) (make_sample ev tot)) g
                              (po_objectives (g_pol g)))\<lparr>g_seen := om_emplace (rl_request_id ev)
                                (rl_evidence_generation ev) (g_seen g)\<rparr>)))"
proof -
  have "g_seen (foldl (ingest_objective cls s) g objs) = g_seen g" for cls s objs
    using ingest_objectives_eq [of cls s g objs] by auto
  then show ?thesis
    by (auto simp: ingest_def total_of_def Let_def split: option.split sum.split)
qed

text \<open>The conditions under which evidence is accepted.\<close>

definition acceptable :: "RequestLatency \<Rightarrow> Impl \<Rightarrow> bool" where
  "acceptable ev g \<longleftrightarrow> \<not> g_shutting_down g \<and> rl_epoch ev = gc_epoch (g_cfg g) \<and>
     rl_service_generation ev = gc_service_generation (g_cfg g) \<and>
     rl_workload_generation ev = gc_workload_generation (g_cfg g) \<and>
     om_find (g_worker_boots g) (rl_worker ev) = Some (rl_worker_boot ev) \<and>
     rl_status ev = SUCCESS \<and> 0 < rl_publication_ns ev \<and> rl_completion_ns ev \<le> rl_publication_ns ev \<and>
     om_find (g_seen g) (rl_request_id ev) = None \<and>
     (\<exists>tot. total_of ev = Inr tot \<and> check_phases 0 tot (rl_phases ev) = None)"

lemma ingest_cases:
  obtains (accepted) tot where "acceptable ev g" and "total_of ev = Inr tot"
      and "check_phases 0 tot (rl_phases ev) = None"
      and "ingest ev g = (status_ok, (foldl (ingest_objective (rl_request_class ev) (make_sample ev tot)) g
             (po_objectives (g_pol g)))\<lparr>g_seen := om_emplace (rl_request_id ev) (rl_evidence_generation ev) (g_seen g)\<rparr>)"
  | (rejected) s where "\<not> acceptable ev g" and "ingest ev g = (s, g)" and "code s \<noteq> OK"
proof (cases "acceptable ev g")
  case True
  then obtain tot where "total_of ev = Inr tot" "check_phases 0 tot (rl_phases ev) = None"
    by (auto simp: acceptable_def)
  with True accepted show thesis
    by (auto simp: ingest_split acceptable_def is_authoritative_completion_def has_publication_def)
next
  case False
  have tot: "total_of ev = Inl s \<Longrightarrow> code s \<noteq> OK" for s
    by (auto simp: total_of_def dest: resolved_total_error split: if_splits)
  have "\<exists>s. ingest ev g = (s, g) \<and> code s \<noteq> OK"
    using False unfolding ingest_split acceptable_def is_authoritative_completion_def has_publication_def
    by (auto split: option.split sum.split dest: check_phases_error tot)
  then show thesis using rejected False by blast
qed

subsection \<open>A small instance\<close>

definition demo_objective :: TailObjective where
  "demo_objective = tail_objective_default\<lparr>o_id := Id 1, o_percentile := p95, o_target := Duration 100,
     o_window := window_config_default\<lparr>wc_fixed_count := 10, wc_max_samples := 10\<rparr>,
     o_min_samples := 2, o_cool_down := Duration 50\<rparr>"

definition demo_clock :: Clock where "demo_clock n = 1000 + int n"

definition demo_config :: GovernorConfig where
  "demo_config = governor_config_default\<lparr>gc_clock := Some demo_clock, gc_epoch := Id 7\<rparr>"

definition demo_governor :: Impl where
  "demo_governor = set_policy (tail_policy_default\<lparr>po_id := Id 3, po_objectives := [demo_objective]\<rparr>)
     (snd (register_worker (Id 1) (Id 9) (governor_new demo_config)))"

definition demo_request :: "u64 \<Rightarrow> int \<Rightarrow> RequestLatency" where
  "demo_request k lat = request_latency_default\<lparr>rl_request_id := Id k, rl_worker := Id 1,
     rl_worker_boot := Id 9, rl_epoch := Id 7, rl_completion_ns := 900, rl_publication_ns := 900,
     rl_total_latency := Duration lat, rl_captured_ns := 900,
     rl_phases := [\<lparr>pl_phase = Phase.QUEUE_WAIT, pl_duration = Duration lat\<rparr>]\<rparr>"

lemmas demo_governor_eval = demo_governor_def demo_config_def demo_objective_def demo_request_def
  set_policy_def register_worker_def governor_new_def governor_config_default_def
  tail_policy_default_def tail_objective_default_def request_latency_default_def

lemma demo_acceptable: "acceptable (demo_request 1 300) demo_governor"
  by (simp add: acceptable_def demo_governor_eval total_of_def in_i64_def i64_min_def i64_max_def)

lemma demo_ingest: "is_ok (fst (ingest (demo_request 1 300) demo_governor))"
  by (cases rule: ingest_cases [of "demo_request 1 300" demo_governor]) (simp_all add: demo_acceptable)

lemma ingest_good:
  assumes "windows_good P g" and "\<And>tot. acceptable ev g \<Longrightarrow> total_of ev = Inr tot \<Longrightarrow>
    check_phases 0 tot (rl_phases ev) = None \<Longrightarrow> P (make_sample ev tot)"
  shows "windows_good P (snd (ingest ev g))"
proof (cases rule: ingest_cases [of ev g])
  case (accepted tot)
  have "windows_good P (foldl (ingest_objective (rl_request_class ev) (make_sample ev tot)) g (po_objectives (g_pol g)))"
    using assms accepted by (intro ingest_objectives_good) blast+
  then show ?thesis by (simp add: accepted windows_good_def)
qed (use assms(1) in simp)

text \<open>A governor that has two samples, both far above the objective's target.\<close>

definition demo_loaded :: Impl where
  "demo_loaded = snd (ingest (demo_request 2 320) (snd (ingest (demo_request 1 300) demo_governor)))"

lemma demo_good: "windows_good (\<lambda>_. True) demo_governor"
  by (simp add: windows_good_def demo_governor_eval)

lemma demo_loaded_good: "windows_good (\<lambda>_. True) demo_loaded"
  unfolding demo_loaded_def by (intro ingest_good demo_good) simp_all

text \<open>
  The check of the phase sum adds before it compares: a duration large enough to overflow the signed
  sum slips through (on the hardware the overflow wraps; the language leaves it undefined).
\<close>

lemma phase_sum_overflow_is_accepted:
  "check_phases 0 (Duration 100)
     [\<lparr>pl_phase = Phase.QUEUE_WAIT, pl_duration = Duration 100\<rparr>,
      \<lparr>pl_phase = Phase.DECODE, pl_duration = Duration i64_max\<rparr>] = None"
  by (simp add: i64_def i64_max_def Let_def)

subsection \<open>Properties\<close>

text \<open>C2: Evidence is accepted exactly when the governor is not shutting down, the evidence carries the
  current epoch and generations, comes from a registered worker in its registered boot, is an
  authoritative completion (successful and published after it completed), is not a duplicate, and
  has a total its phases fit in; evidence that is not accepted leaves the governor as it was.\<close>

theorem ingest_fences_evidence:
  "(is_ok (fst (ingest ev g)) \<longleftrightarrow> acceptable ev g) \<and> (\<not> acceptable ev g \<longrightarrow> snd (ingest ev g) = g)"
  by (cases rule: ingest_cases [of ev g]) (auto simp: is_ok_def)

lemma ingest_fences_evidence_witness:
  "is_ok (fst (ingest (demo_request 1 300) demo_governor)) \<and>
   snd (ingest ((demo_request 1 300)\<lparr>rl_epoch := Id 6\<rparr>) demo_governor) = demo_governor"
proof -
  have "\<not> acceptable ((demo_request 1 300)\<lparr>rl_epoch := Id 6\<rparr>) demo_governor"
    by (simp add: acceptable_def demo_governor_eval)
  then show ?thesis using ingest_fences_evidence demo_acceptable by blast
qed

text \<open>C29: Accepted evidence becomes the newest sample of the window of every enabled objective, and of the
  objective's window for its request class: exactly these windows change, each from what it was, or from a
  new one, by inserting the sample (once for every enabled objective that has the identity, so once where
  identities are distinct). Exactly the revalidation flags of the enabled objectives are cleared, the request
  is remembered as seen, and nothing else changes.\<close>

theorem ingest_reaches_every_objective:
  assumes "is_ok (fst (ingest ev g))" and "n = (\<lambda>i. enabled_with i (po_objectives (g_pol g)))"
  shows "\<exists>tot W R. total_of ev = Inr tot \<and>
     snd (ingest ev g) = g\<lparr>g_windows := W, g_revalidate_needed := R,
       g_seen := om_put (rl_request_id ev) (rl_evidence_generation ev) (g_seen g)\<rparr> \<and>
     (\<forall>i c. om_find W (GovernorWindowKey i c) =
        (if 0 < n i \<and> c \<in> {Id 0, rl_request_class ev} then Some (insert_times (n i) (make_sample ev tot) (window_of g i c))
         else om_find (g_windows g) (GovernorWindowKey i c))) \<and>
     (\<forall>i w. 0 < n i \<longrightarrow> w_samples (insert_times (n i) (make_sample ev tot) w) \<noteq> [] \<and>
        last (w_samples (insert_times (n i) (make_sample ev tot) w)) = make_sample ev tot) \<and>
     (\<forall>i. om_find R i = (if 0 < n i then Some False else om_find (g_revalidate_needed g) i))"
proof (cases rule: ingest_cases [of ev g])
  case (accepted tot)
  let ?objs = "po_objectives (g_pol g)" and ?s = "make_sample ev tot"
  let ?R = "foldl (\<lambda>m obj. if o_enabled obj then om_put (o_id obj) False m else m) (g_revalidate_needed g) ?objs"
  obtain W where W: "foldl (ingest_objective (rl_request_class ev) ?s) g ?objs = g\<lparr>g_windows := W, g_revalidate_needed := ?R\<rparr>"
    using ingest_objectives_eq by blast
  have seen: "om_emplace (rl_request_id ev) (rl_evidence_generation ev) (g_seen g) =
      om_put (rl_request_id ev) (rl_evidence_generation ev) (g_seen g)"
    using accepted(1) by (simp add: acceptable_def om_emplace_def)
  have "W = g_windows (foldl (ingest_objective (rl_request_class ev) ?s) g ?objs)" by (simp add: W)
  note windows = ingest_objectives_windows [of "rl_request_class ev" ?s g ?objs, folded this]
  have "0 \<le> nanos (ts_latency ?s)" using total_of_nonneg [OF accepted(2)] by (simp add: make_sample_def)
  then show ?thesis
    by (intro exI [of _ tot] exI [of _ W] exI [of _ ?R])
      (simp add: accepted(2,4) W seen windows flags_after insert_times_last assms(2))
next
  case (rejected s)
  then show ?thesis using assms by (simp add: is_ok_def)
qed

lemma ingest_reaches_every_objective_witness:
  "om_find (g_windows (snd (ingest (demo_request 1 300) demo_governor))) (GovernorWindowKey (Id 1) (Id 0)) =
     Some (snd (window_insert (make_sample (demo_request 1 300) (Duration 300)) (window_of demo_governor (Id 1) (Id 0))))"
proof -
  have "enabled_with (Id 1) (po_objectives (g_pol demo_governor)) = 1" by code_simp
  then show ?thesis
    using ingest_reaches_every_objective [of "demo_request 1 300" demo_governor, OF _ refl] demo_ingest
    by (auto simp: demo_governor_eval total_of_def insert_times_def)
qed

end
