(* ===== verification/Evaluate.thy ===== *)
theory Evaluate
  imports GovernorState
begin

text \<open>
  Evaluation of an objective (\<open>TailGovernor::evaluate\<close>, \<open>evaluate_all\<close>, \<open>inspect_window\<close> of
  governor.cpp): the percentiles of the retained evidence, whether they are sufficient and fresh,
  the state with its hysteresis, and the causes and the suggested intervention.
\<close>

record PercentileSet =
  ps_p50 :: "Duration option"
  ps_p95 :: "Duration option"
  ps_p99 :: "Duration option"
  ps_p999 :: "Duration option"
  ps_mean :: "Duration option"
  ps_p50_suff :: bool
  ps_p95_suff :: bool
  ps_p99_suff :: bool
  ps_p999_suff :: bool
  ps_count :: nat

definition percentile_set_default :: PercentileSet where
  "percentile_set_default = \<lparr>ps_p50 = None, ps_p95 = None, ps_p99 = None, ps_p999 = None,
     ps_mean = None, ps_p50_suff = False, ps_p95_suff = False, ps_p99_suff = False,
     ps_p999_suff = False, ps_count = 0\<rparr>"

definition q_aux :: "Duration list \<Rightarrow> Percentile \<Rightarrow> nat \<Rightarrow> Duration option" where
  "q_aux sorted_ascending p min_samples =
     (if length sorted_ascending < min_samples then None
      else case exact_quantile sorted_ascending p of Inl _ \<Rightarrow> None | Inr q \<Rightarrow> Some q)"

text \<open>
  The mean is accumulated in \<open>long double\<close>, which the compiler the project targets (MSVC)
  represents as binary64.
\<close>

definition mean_of :: "Duration list \<Rightarrow> Duration" where
  "mean_of ds =
     (let total = foldl (\<lambda>acc d. fadd acc (of_integer (nanos d))) (lit 0 1) ds;
          mean = fdiv total (of_integer (int (length ds)))
      in Duration (to_i64 mean))"

definition compute_set :: "Duration list \<Rightarrow> PercentileSet" where
  "compute_set ds =
     (let s = percentile_set_default\<lparr>ps_count := length ds\<rparr> in
      if ds = [] then s
      else let q50 = q_aux ds p50 1; q95 = q_aux ds p95 (derived_min_samples p95);
               q99 = q_aux ds p99 (derived_min_samples p99); q999 = q_aux ds p999 (derived_min_samples p999)
           in s\<lparr>ps_p50 := q50, ps_p50_suff := (q50 \<noteq> None), ps_p95 := q95, ps_p95_suff := (q95 \<noteq> None),
                ps_p99 := q99, ps_p99_suff := (q99 \<noteq> None), ps_p999 := q999,
                ps_p999_suff := (q999 \<noteq> None), ps_mean := Some (mean_of ds)\<rparr>)"

text \<open>The state for sufficient evidence, with the streak of good evaluations behind it.\<close>

definition classify :: "TailState \<Rightarrow> int \<Rightarrow> int \<Rightarrow> int \<Rightarrow> int \<Rightarrow> TailState \<times> int" where
  "classify prev streak target rec v =
     (let degraded = (prev = VIOLATING \<or> prev = SEVERE \<or> prev = AT_RISK \<or> prev = RECOVERING) in
      if v \<ge> target then (if v \<ge> i64 (2 * target) then SEVERE else VIOLATING, 0)
      else if v > rec then (AT_RISK, 0)
      else if degraded
      then let streak = streak + 1 in (if streak \<ge> 2 then HEALTHY else RECOVERING, streak)
      else (HEALTHY, 0))"

definition sufficiency_of :: "bool \<Rightarrow> bool \<Rightarrow> nat \<Rightarrow> bool \<Rightarrow> Sufficiency" where
  "sufficiency_of revalidate stale n obs_suff =
     (if revalidate then Sufficiency.STALE
      else if stale then Sufficiency.STALE
      else if n = 0 \<or> \<not> obs_suff then INSUFFICIENT_SAMPLES
      else SUFFICIENT)"

text \<open>The new state, and the map of streaks, which is touched only when the evidence is sufficient.\<close>

definition next_state ::
    "TailObjective \<Rightarrow> bool \<Rightarrow> Sufficiency \<Rightarrow> TailState \<Rightarrow> Duration \<Rightarrow> (TailObjectiveId, int) omap
     \<Rightarrow> TailState \<times> (TailObjectiveId, int) omap" where
  "next_state obj revalidate suff prev observed streaks =
     (if revalidate then (REVALIDATION_REQUIRED, streaks)
      else if suff = Sufficiency.STALE then (TailState.STALE, streaks)
      else if suff = INSUFFICIENT_SAMPLES then (TailState.INSUFFICIENT_EVIDENCE, streaks)
      else let (streak, streaks) = om_index 0 streaks (o_id obj);
               (state, streak) = classify prev streak (nanos (o_target obj))
                 (nanos (recovery_threshold obj)) (nanos observed)
           in (state, om_put (o_id obj) streak streaks))"

text \<open>The observed quantile, when there are as many samples as the objective requires.\<close>

definition observe :: "TailObjective \<Rightarrow> Duration list \<Rightarrow> bool \<times> Duration" where
  "observe obj ds =
     (if length ds \<ge> effective_min_samples obj
      then case exact_quantile ds (o_percentile obj) of Inr q \<Rightarrow> (True, q) | Inl _ \<Rightarrow> (False, Duration 0)
      else (False, Duration 0))"

definition evidence_age :: "int \<Rightarrow> int \<Rightarrow> int" where
  "evidence_age t latest = (if latest = 0 then 0 else i64 (t - latest))"

definition evidence_stale :: "TailObjective \<Rightarrow> int \<Rightarrow> int \<Rightarrow> bool" where
  "evidence_stale obj t latest \<longleftrightarrow>
     nanos (o_freshness obj) > 0 \<and> latest > 0 \<and> evidence_age t latest > nanos (o_freshness obj)"

text \<open>
  The part of an evaluation that is measured: \<open>t\<close> is the time, \<open>w\<close> the pruned window, \<open>ds\<close> its
  sorted latencies, \<open>revalidate\<close> the flag that a restart sets.
\<close>

definition measured ::
    "TailObjective \<Rightarrow> Impl \<Rightarrow> int \<Rightarrow> ObservationWindow \<Rightarrow> Duration list \<Rightarrow> bool \<Rightarrow> TailEvaluation" where
  "measured obj g t w ds revalidate =
     (let latest = latest_captured_ns w; set = compute_set ds; (obs_suff, observed) = observe obj ds
      in tail_evaluation_default\<lparr>
           ev_id := Id (g_next_eval_id g), ev_generation := Id (g_next_eval_id g + 1),
           ev_objective := o_id obj, ev_objective_generation := o_generation obj,
           ev_percentile := o_percentile obj, ev_target := o_target obj,
           ev_recovered_threshold := recovery_threshold obj,
           ev_min_required := effective_min_samples obj, ev_sample_count := window_size w,
           ev_window_end_ns := t,
           ev_window_begin_ns := i64 (t - nanos (wc_window_duration (o_window obj))),
           ev_latest_capture_ns := latest, ev_authority := current_authority obj g,
           ev_revalidation_required := revalidate,
           ev_freshness_age_ms := fdiv (of_integer (evidence_age t latest)) (lit 1000000 1),
           ev_observed := observed,
           ev_sufficiency := sufficiency_of revalidate (evidence_stale obj t latest) (length ds) obs_suff,
           ev_p50 := ps_p50 set, ev_p95 := ps_p95 set, ev_p999 := ps_p999 set,
           ev_amplification := compute_amplification (ps_p50 set) (ps_p95 set) (ps_p99 set)
             (ps_p999 set) (ps_mean set)\<rparr>)"

definition class_of :: "TailObjective \<Rightarrow> RequestClassId" where
  "class_of obj = (case o_class_scope obj of Some c \<Rightarrow> c | None \<Rightarrow> Id 0)"

definition acts_in :: "TailState \<Rightarrow> bool" where
  "acts_in state \<longleftrightarrow> \<not> (state \<noteq> VIOLATING \<and> state \<noteq> SEVERE \<and> state \<noteq> AT_RISK)"

definition evaluate_enabled :: "TailObjective \<Rightarrow> Impl \<Rightarrow> TailEvaluation \<times> Impl" where
  "evaluate_enabled obj g =
     (let (t, g) = read_now g;
          (w, g) = ensure_window (o_id obj) (class_of obj) g;
          (ds, w) = window_sorted t w;
          (revalidate, flags) = om_index False (g_revalidate_needed g) (o_id obj);
          ev = measured obj g t w ds revalidate;
          (prev, states) = om_index HEALTHY (g_last_state g) (o_id obj);
          (state, streaks) = next_state obj revalidate (ev_sufficiency ev) prev (ev_observed ev)
            (g_recover_streak g);
          ((contribs, causes), w) = decompose_tail [] [] w t (ev_observed ev) (ev_sufficiency ev);
          ev = select_intervention
            (ev\<lparr>ev_state := state, ev_phase_contributions := contribs, ev_causes := causes\<rparr>)
            obj (g_facts g) t;
          ev = (if \<not> acts_in state then ev\<lparr>ev_selected_intervention := NO_ACTION\<rparr> else ev);
          g = put_window (o_id obj) (class_of obj) w g
      in (ev, g\<lparr>g_next_eval_id := g_next_eval_id g + 1, g_revalidate_needed := flags,
            g_last_state := om_put (o_id obj) state states, g_recover_streak := streaks,
            g_evaluations := g_evaluations g @ [ev]\<rparr>))"

definition evaluate :: "TailObjectiveId \<Rightarrow> Impl \<Rightarrow> TailEvaluation Result \<times> Impl" where
  "evaluate i g =
     (if g_shutting_down g then (err StatusCode.SHUTTING_DOWN ''shutdown'', g)
      else case find_objective i g of
        None \<Rightarrow> (err INVALID_INPUT ''unknown objective'', g)
      | Some obj \<Rightarrow>
          if \<not> o_enabled obj then (err OBJECTIVE_INACTIVE ''objective disabled'', g)
          else let (ev, g) = evaluate_enabled obj g in (Inr ev, g))"

fun evaluate_loop :: "TailObjective list \<Rightarrow> TailEvaluation list \<Rightarrow> Impl \<Rightarrow> TailEvaluation list \<times> Impl" where
  "evaluate_loop [] out g = (out, g)"
| "evaluate_loop (obj # objs) out g =
     (if \<not> o_enabled obj then evaluate_loop objs out g
      else case evaluate (o_id obj) g of
        (Inr ev, g) \<Rightarrow> evaluate_loop objs (out @ [ev]) g
      | (Inl _, g) \<Rightarrow> evaluate_loop objs out g)"

definition evaluate_all :: "Impl \<Rightarrow> TailEvaluation list \<times> Impl" where
  "evaluate_all g = evaluate_loop (po_objectives (g_pol g)) [] g"

subsection \<open>Inspection of a window\<close>

text \<open>The size is taken before the window is pruned, the quantiles after.\<close>

definition summary_from_window :: "TailObjective \<Rightarrow> ObservationWindow \<Rightarrow> int \<Rightarrow> TailEvaluation" where
  "summary_from_window obj w t =
     (let ev = tail_evaluation_default\<lparr>ev_objective := o_id obj,
            ev_objective_generation := o_generation obj, ev_percentile := o_percentile obj,
            ev_target := o_target obj, ev_recovered_threshold := recovery_threshold obj,
            ev_sample_count := window_size w, ev_min_required := effective_min_samples obj,
            ev_window_end_ns := t, ev_window_begin_ns := i64 (t - nanos (wc_window_duration (o_window obj))),
            ev_latest_capture_ns := latest_captured_ns w\<rparr>;
          ds = fst (window_sorted t w)
      in if ds = []
         then ev\<lparr>ev_state := TailState.INSUFFICIENT_EVIDENCE, ev_sufficiency := INSUFFICIENT_SAMPLES\<rparr>
         else
           let ev = ev\<lparr>ev_p50 := q_aux ds p50 1, ev_p95 := q_aux ds p95 (derived_min_samples p95),
                  ev_p99_for_p95 := q_aux ds p99 (derived_min_samples p99),
                  ev_p999 := q_aux ds p999 (derived_min_samples p999)\<rparr>;
               ev = (if length ds \<ge> effective_min_samples obj
                     then (case exact_quantile ds (o_percentile obj) of
                             Inr q \<Rightarrow> ev\<lparr>ev_observed := q\<rparr> | Inl _ \<Rightarrow> ev)\<lparr>ev_sufficiency := SUFFICIENT\<rparr>
                     else ev\<lparr>ev_sufficiency := INSUFFICIENT_SAMPLES\<rparr>)
           in if ev_sufficiency ev = SUFFICIENT
              then let target = nanos (o_target obj); v = nanos (ev_observed ev) in
                   ev\<lparr>ev_state := (if v \<ge> target then (if v \<ge> i64 (2 * target) then SEVERE else VIOLATING)
                     else if v > nanos (recovery_threshold obj) then AT_RISK else HEALTHY)\<rparr>
              else ev\<lparr>ev_state := TailState.INSUFFICIENT_EVIDENCE\<rparr>)"

definition inspect_window ::
    "TailObjectiveId \<Rightarrow> RequestClassId \<Rightarrow> Impl \<Rightarrow> TailEvaluation list \<times> Impl" where
  "inspect_window objective cls g =
     (case find_objective objective g of
        None \<Rightarrow> ([], g)
      | Some obj \<Rightarrow>
          (let w = (case window_copy objective cls g of Some w \<Rightarrow> w | None \<Rightarrow> window_new (o_window obj));
               (t, g) = read_now g
           in ([summary_from_window obj w t], g)))"

subsection \<open>The evidence an evaluation reads\<close>

definition flagged :: "Impl \<Rightarrow> TailObjectiveId \<Rightarrow> bool" where
  "flagged g i \<longleftrightarrow> om_find (g_revalidate_needed g) i = Some True"

definition evidence :: "TailObjective \<Rightarrow> Impl \<Rightarrow> TailSample list" where
  "evidence obj g = (let w = window_of g (o_id obj) (class_of obj) in retain (w_cfg w) (now_of g) (w_samples w))"

definition prev_state :: "Impl \<Rightarrow> TailObjectiveId \<Rightarrow> TailState" where
  "prev_state g i = (case om_find (g_last_state g) i of Some s \<Rightarrow> s | None \<Rightarrow> HEALTHY)"

definition streak_of :: "Impl \<Rightarrow> TailObjectiveId \<Rightarrow> int" where
  "streak_of g i = (case om_find (g_recover_streak g) i of Some n \<Rightarrow> n | None \<Rightarrow> 0)"

lemma flag_read: "fst (om_index False (g_revalidate_needed g) i) = flagged g i"
  by (auto simp: om_index_fst flagged_def split: option.splits)

lemma state_read: "fst (om_index HEALTHY (g_last_state g) i) = prev_state g i"
  by (simp add: om_index_fst prev_state_def)

lemma streak_read: "fst (om_index 0 (g_recover_streak g) i) = streak_of g i"
  by (simp add: om_index_fst streak_of_def)

lemma window_of_reads [simp]: "window_of (g\<lparr>g_reads := n\<rparr>) objective cls = window_of g objective cls"
  by (simp add: window_of_def ensure_window_def find_objective_def Let_def split: option.split)

text \<open>The window an evaluation leaves behind.\<close>

definition pruned_window :: "TailObjective \<Rightarrow> Impl \<Rightarrow> ObservationWindow" where
  "pruned_window obj g = (let w = snd (window_sorted (now_of g) (window_of g (o_id obj) (class_of obj)))
     in snd (samples_pruned (now_of g) w))"

definition base_evaluation :: "TailObjective \<Rightarrow> Impl \<Rightarrow> TailEvaluation" where
  "base_evaluation obj g = (let w = window_of g (o_id obj) (class_of obj) in
     measured obj g (now_of g) (snd (window_sorted (now_of g) w)) (fst (window_sorted (now_of g) w)) (flagged g (o_id obj)))"

definition new_state :: "TailObjective \<Rightarrow> Impl \<Rightarrow> TailState \<times> (TailObjectiveId, int) omap" where
  "new_state obj g = next_state obj (flagged g (o_id obj)) (ev_sufficiency (base_evaluation obj g))
     (prev_state g (o_id obj)) (ev_observed (base_evaluation obj g)) (g_recover_streak g)"

definition suggestion :: "TailObjective \<Rightarrow> Impl \<Rightarrow> TailEvaluation" where
  "suggestion obj g =
     (let w = window_of g (o_id obj) (class_of obj);
          d = fst (decompose_tail [] [] (snd (window_sorted (now_of g) w)) (now_of g)
                (ev_observed (base_evaluation obj g)) (ev_sufficiency (base_evaluation obj g)))
      in select_intervention ((base_evaluation obj g)\<lparr>ev_state := fst (new_state obj g),
           ev_phase_contributions := fst d, ev_causes := snd d\<rparr>) obj (g_facts g) (now_of g))"

definition evaluation_of :: "TailObjective \<Rightarrow> Impl \<Rightarrow> TailEvaluation" where
  "evaluation_of obj g = (if \<not> acts_in (fst (new_state obj g))
     then (suggestion obj g)\<lparr>ev_selected_intervention := NO_ACTION\<rparr> else suggestion obj g)"

lemma measured_frame [simp]: "measured obj (g\<lparr>g_reads := n, g_windows := W\<rparr>) = measured obj g"
  by (intro ext) (simp add: measured_def current_authority_def)

lemma reads_frame [simp]:
  "flagged (g\<lparr>g_reads := n, g_windows := W\<rparr>) = flagged g"
  "prev_state (g\<lparr>g_reads := n, g_windows := W\<rparr>) = prev_state g"
  by (simp_all add: flagged_def prev_state_def fun_eq_iff)

lemma decompose_window: "snd (decompose_tail out causes w t cutoff suff) = snd (samples_pruned t w)"
  by (simp add: decompose_tail_def split_beta)

lemma evaluate_enabled_value:
  "\<exists>W. evaluate_enabled obj g = (evaluation_of obj g, g\<lparr>g_reads := Suc (g_reads g), g_windows := W,
       g_next_eval_id := g_next_eval_id g + 1,
       g_revalidate_needed := snd (om_index False (g_revalidate_needed g) (o_id obj)),
       g_last_state := om_put (o_id obj) (fst (new_state obj g)) (snd (om_index HEALTHY (g_last_state g) (o_id obj))),
       g_recover_streak := snd (new_state obj g),
       g_evaluations := g_evaluations g @ [evaluation_of obj g]\<rparr>) \<and>
     om_find W = (om_find (g_windows g))(GovernorWindowKey (o_id obj) (class_of obj) \<mapsto> pruned_window obj g) \<and>
     (om_inv (g_windows g) \<longrightarrow> om_inv W)"
proof -
  let ?g1 = "g\<lparr>g_reads := Suc (g_reads g)\<rparr>"
  let ?k = "GovernorWindowKey (o_id obj) (class_of obj)"
  obtain W where W: "snd (ensure_window (o_id obj) (class_of obj) ?g1) = ?g1\<lparr>g_windows := W\<rparr>"
    "om_find W = (om_find (g_windows g))(?k \<mapsto> window_of g (o_id obj) (class_of obj))"
    "om_inv (g_windows g) \<longrightarrow> om_inv W"
    using ensure_window_eq [of "o_id obj" "class_of obj" ?g1] by auto
  have "fst (ensure_window (o_id obj) (class_of obj) ?g1) = window_of g (o_id obj) (class_of obj)"
    by (simp flip: window_of_def)
  then have e: "ensure_window (o_id obj) (class_of obj) ?g1 =
      (window_of g (o_id obj) (class_of obj), g\<lparr>g_reads := Suc (g_reads g), g_windows := W\<rparr>)"
    using W(1) by (cases "ensure_window (o_id obj) (class_of obj) ?g1") simp
  have "evaluate_enabled obj g = (evaluation_of obj g, g\<lparr>g_reads := Suc (g_reads g),
       g_windows := om_put ?k (pruned_window obj g) W, g_next_eval_id := g_next_eval_id g + 1,
       g_revalidate_needed := snd (om_index False (g_revalidate_needed g) (o_id obj)),
       g_last_state := om_put (o_id obj) (fst (new_state obj g)) (snd (om_index HEALTHY (g_last_state g) (o_id obj))),
       g_recover_streak := snd (new_state obj g),
       g_evaluations := g_evaluations g @ [evaluation_of obj g]\<rparr>)"
    by (simp add: evaluate_enabled_def read_now_def e Let_def split_beta evaluation_of_def suggestion_def
        base_evaluation_def new_state_def pruned_window_def flag_read state_read put_window_def decompose_window)
  then show ?thesis using W by (intro exI [of _ "om_put ?k (pruned_window obj g) W"]) simp
qed

lemma evaluate_cases:
  obtains (shutdown) "g_shutting_down g" "evaluate i g = (err StatusCode.SHUTTING_DOWN ''shutdown'', g)"
  | (unknown) "\<not> g_shutting_down g" "find_objective i g = None"
      "evaluate i g = (err INVALID_INPUT ''unknown objective'', g)"
  | (disabled) obj where "\<not> g_shutting_down g" "find_objective i g = Some obj" "\<not> o_enabled obj"
      "evaluate i g = (err OBJECTIVE_INACTIVE ''objective disabled'', g)"
  | (evaluated) obj where "\<not> g_shutting_down g" "find_objective i g = Some obj" "o_enabled obj"
      "evaluate i g = (Inr (evaluation_of obj g), snd (evaluate_enabled obj g))"
proof (cases "g_shutting_down g")
  case False
  show thesis
  proof (cases "find_objective i g")
    case (Some obj)
    show thesis
    proof (cases "o_enabled obj")
      case True
      have "fst (evaluate_enabled obj g) = evaluation_of obj g"
        using evaluate_enabled_value [of obj g] by auto
      with False Some True evaluated show thesis by (simp add: evaluate_def split_beta)
    qed (use False Some disabled in \<open>simp add: evaluate_def\<close>)
  qed (use False unknown in \<open>simp add: evaluate_def\<close>)
qed (use shutdown in \<open>simp add: evaluate_def\<close>)

lemma find_objective_id: "find_objective i g = Some obj \<Longrightarrow> o_id obj = i"
  by (auto simp: find_objective_def find_Some_iff)

lemma window_good_pruned_window: "windows_good P g \<Longrightarrow> window_good P (pruned_window obj g)"
  using window_good_pruned [OF window_good_sorted [OF window_of_good]]
  by (simp add: pruned_window_def samples_pruned_def Let_def)

lemma evaluate_good: "windows_good P g \<Longrightarrow> windows_good P (snd (evaluate i g))"
proof (cases rule: evaluate_cases [of g i])
  case (evaluated obj)
  assume good: "windows_good P g"
  obtain W where "snd (evaluate i g) = snd (evaluate_enabled obj g)" and
    "g_windows (snd (evaluate_enabled obj g)) = W"
    "om_find W = (om_find (g_windows g))(GovernorWindowKey (o_id obj) (class_of obj) \<mapsto> pruned_window obj g)"
    "om_inv (g_windows g) \<longrightarrow> om_inv W"
    using evaluate_enabled_value [of obj g] evaluated(4) by auto
  then show ?thesis
    using good window_good_pruned_window [OF good, of obj] by (auto simp: windows_good_def split: if_splits)
qed (simp_all)

text \<open>An evaluation leaves these parts of the state alone.\<close>

lemma evaluate_enabled_frame:
  "g_cfg (snd (evaluate_enabled obj g)) = g_cfg g" "g_pol (snd (evaluate_enabled obj g)) = g_pol g"
  "g_facts (snd (evaluate_enabled obj g)) = g_facts g"
  "g_worker_boots (snd (evaluate_enabled obj g)) = g_worker_boots g"
  "g_seen (snd (evaluate_enabled obj g)) = g_seen g"
  "g_interventions (snd (evaluate_enabled obj g)) = g_interventions g"
  "g_last_intervention_ns (snd (evaluate_enabled obj g)) = g_last_intervention_ns g"
  "g_outcomes (snd (evaluate_enabled obj g)) = g_outcomes g"
  "g_resource_gen (snd (evaluate_enabled obj g)) = g_resource_gen g"
  "g_queue_gen (snd (evaluate_enabled obj g)) = g_queue_gen g"
  "g_batch_gen (snd (evaluate_enabled obj g)) = g_batch_gen g"
  "g_recovery_gen (snd (evaluate_enabled obj g)) = g_recovery_gen g"
  "g_topology_gen (snd (evaluate_enabled obj g)) = g_topology_gen g"
  "g_engine_inc (snd (evaluate_enabled obj g)) = g_engine_inc g"
  "g_shutting_down (snd (evaluate_enabled obj g)) = g_shutting_down g"
  "g_next_int_id (snd (evaluate_enabled obj g)) = g_next_int_id g"
  using evaluate_enabled_value [of obj g] by auto

lemma evaluate_frame [frame]:
  "g_cfg (snd (evaluate i g)) = g_cfg g" "g_pol (snd (evaluate i g)) = g_pol g"
  "g_facts (snd (evaluate i g)) = g_facts g" "g_worker_boots (snd (evaluate i g)) = g_worker_boots g"
  "g_seen (snd (evaluate i g)) = g_seen g" "g_interventions (snd (evaluate i g)) = g_interventions g"
  "g_last_intervention_ns (snd (evaluate i g)) = g_last_intervention_ns g"
  "g_outcomes (snd (evaluate i g)) = g_outcomes g" "g_resource_gen (snd (evaluate i g)) = g_resource_gen g"
  "g_queue_gen (snd (evaluate i g)) = g_queue_gen g" "g_batch_gen (snd (evaluate i g)) = g_batch_gen g"
  "g_recovery_gen (snd (evaluate i g)) = g_recovery_gen g"
  "g_topology_gen (snd (evaluate i g)) = g_topology_gen g"
  "g_engine_inc (snd (evaluate i g)) = g_engine_inc g"
  "g_shutting_down (snd (evaluate i g)) = g_shutting_down g"
  "g_next_int_id (snd (evaluate i g)) = g_next_int_id g"
  by (cases rule: evaluate_cases [of g i]; simp add: evaluate_enabled_frame)+

subsection \<open>What an evaluation reports\<close>

lemma select_frame [simp]:
  "ev_state (select_intervention ev obj facts t) = ev_state ev"
  "ev_sufficiency (select_intervention ev obj facts t) = ev_sufficiency ev"
  "ev_observed (select_intervention ev obj facts t) = ev_observed ev"
  "ev_sample_count (select_intervention ev obj facts t) = ev_sample_count ev"
  "ev_objective (select_intervention ev obj facts t) = ev_objective ev"
  "ev_objective_generation (select_intervention ev obj facts t) = ev_objective_generation ev"
  "ev_recovered_threshold (select_intervention ev obj facts t) = ev_recovered_threshold ev"
  "ev_authority (select_intervention ev obj facts t) = ev_authority ev"
  "ev_revalidation_required (select_intervention ev obj facts t) = ev_revalidation_required ev"
  "ev_causes (select_intervention ev obj facts t) = ev_causes ev"
  "ev_min_required (select_intervention ev obj facts t) = ev_min_required ev"
  "ev_p50 (select_intervention ev obj facts t) = ev_p50 ev"
  "ev_p95 (select_intervention ev obj facts t) = ev_p95 ev"
  "ev_p999 (select_intervention ev obj facts t) = ev_p999 ev"
  by (cases "ranked ev facts"; simp add: select_unfold build_what_would_change_def screened_def)+

lemma retain_idem: "retain cfg t (retain cfg t xs) = retain cfg t xs"
proof -
  have f: "filter P (keep_last n (filter P xs)) = keep_last n (filter P xs)" for P and n and xs :: "TailSample list"
    using set_keep_last [of n "filter P xs"] by (intro filter_True) auto
  show ?thesis
    by (cases "wc_mode cfg") (auto simp: retain_def Let_def f simp del: filter_filter)
qed

lemma eval_latencies:
  "windows_good P g \<Longrightarrow>
     fst (window_sorted (now_of g) (window_of g (o_id obj) (class_of obj))) = sort (map ts_latency (evidence obj g))"
  using window_of_good [of P g "o_id obj" "class_of obj"]
  by (simp add: evidence_def Let_def window_good_def window_sorted_value)

lemma eval_samples:
  "w_samples (snd (window_sorted (now_of g) (window_of g (o_id obj) (class_of obj)))) = evidence obj g"
  by (simp add: evidence_def Let_def window_sorted_samples)

lemma pruned_window_samples: "w_samples (pruned_window obj g) = evidence obj g"
  by (simp add: pruned_window_def samples_pruned_def Let_def window_prune_samples eval_samples evidence_def
      window_sorted_samples retain_idem)

text \<open>The latest capture time of the evidence.\<close>

definition latest_of_evidence :: "TailObjective \<Rightarrow> Impl \<Rightarrow> int" where
  "latest_of_evidence obj g = latest_of (map ts_captured_ns (evidence obj g))"

lemma base_values:
  fixes obj :: TailObjective and g :: Impl
  assumes "windows_good P g"
  defines "ds \<equiv> sort (map ts_latency (evidence obj g))"
  shows "ev_sample_count (base_evaluation obj g) = length (evidence obj g)"
    and "ev_observed (base_evaluation obj g) = snd (observe obj ds)"
    and "ev_sufficiency (base_evaluation obj g) = sufficiency_of (flagged g (o_id obj))
      (evidence_stale obj (now_of g) (latest_of_evidence obj g)) (length (evidence obj g)) (fst (observe obj ds))"
    and "ev_revalidation_required (base_evaluation obj g) = flagged g (o_id obj)"
    and "ev_authority (base_evaluation obj g) = current_authority obj g"
    and "ev_recovered_threshold (base_evaluation obj g) = recovery_threshold obj"
    and "ev_objective (base_evaluation obj g) = o_id obj"
  using eval_latencies [OF assms(1), of obj]
  by (simp_all add: base_evaluation_def measured_def Let_def split_beta window_size_def eval_samples ds_def
      latest_captured_ns_def latest_of_evidence_def)

lemma evaluation_fields [simp]:
  "ev_state (evaluation_of obj g) = fst (new_state obj g)"
  "ev_sufficiency (evaluation_of obj g) = ev_sufficiency (base_evaluation obj g)"
  "ev_observed (evaluation_of obj g) = ev_observed (base_evaluation obj g)"
  "ev_sample_count (evaluation_of obj g) = ev_sample_count (base_evaluation obj g)"
  "ev_revalidation_required (evaluation_of obj g) = ev_revalidation_required (base_evaluation obj g)"
  "ev_authority (evaluation_of obj g) = ev_authority (base_evaluation obj g)"
  "ev_objective (evaluation_of obj g) = ev_objective (base_evaluation obj g)"
  "ev_recovered_threshold (evaluation_of obj g) = ev_recovered_threshold (base_evaluation obj g)"
  by (simp_all add: evaluation_of_def suggestion_def Let_def)

lemma observe_iff:
  "fst (observe obj ds) \<longleftrightarrow> effective_min_samples obj \<le> length ds \<and> ds \<noteq> []"
  "fst (observe obj ds) \<Longrightarrow> exact_quantile ds (o_percentile obj) = Inr (snd (observe obj ds))"
  by (auto simp: observe_def exact_quantile_def err_def split: if_splits sum.splits)

lemma demo_evidence: "map ts_latency (evidence demo_objective demo_loaded) = [Duration 300, Duration 320]"
  by code_simp

lemma demo_found: "find_objective (Id 1) demo_loaded = Some demo_objective"
  by code_simp

lemma demo_evaluated:
  "fst (evaluate (Id 1) demo_loaded) = Inr (evaluation_of demo_objective demo_loaded)"
proof -
  have "\<not> g_shutting_down demo_loaded" and "o_enabled demo_objective" by code_simp+
  with demo_found show ?thesis by (cases rule: evaluate_cases [of demo_loaded "Id 1"]) simp_all
qed

lemma demo_sufficient: "ev_sufficiency (evaluation_of demo_objective demo_loaded) = SUFFICIENT"
proof -
  have "length (evidence demo_objective demo_loaded) = 2"
    by (metis demo_evidence length_map length_Cons list.size(3) One_nat_def Suc_1)
  moreover have "fst (observe demo_objective [Duration 300, Duration 320])"
    and "\<not> flagged demo_loaded (o_id demo_objective)"
    and "\<not> evidence_stale demo_objective (now_of demo_loaded) (latest_of_evidence demo_objective demo_loaded)"
    by code_simp+
  ultimately show ?thesis
    by (simp add: base_values [OF demo_loaded_good] demo_evidence sufficiency_of_def)
qed

subsection \<open>States and hysteresis\<close>

lemma sufficient_iff:
  "ev_sufficiency (base_evaluation obj g) = SUFFICIENT \<Longrightarrow> \<not> flagged g (o_id obj)"
  by (auto simp: base_evaluation_def measured_def Let_def split_beta sufficiency_of_def split: if_splits)

lemma sufficiency_cases:
  "ev_sufficiency (base_evaluation obj g) \<in> {SUFFICIENT, INSUFFICIENT_SAMPLES, Sufficiency.STALE}"
  by (auto simp: base_evaluation_def measured_def Let_def split_beta sufficiency_of_def)

lemma new_state_value:
  "new_state obj g =
     (if flagged g (o_id obj) then (REVALIDATION_REQUIRED, g_recover_streak g)
      else if ev_sufficiency (base_evaluation obj g) = Sufficiency.STALE then (TailState.STALE, g_recover_streak g)
      else if ev_sufficiency (base_evaluation obj g) = INSUFFICIENT_SAMPLES
      then (TailState.INSUFFICIENT_EVIDENCE, g_recover_streak g)
      else let (state, streak) = classify (prev_state g (o_id obj)) (streak_of g (o_id obj)) (nanos (o_target obj))
                 (nanos (recovery_threshold obj)) (nanos (ev_observed (base_evaluation obj g)))
           in (state, om_put (o_id obj) streak (snd (om_index 0 (g_recover_streak g) (o_id obj)))))"
  by (simp add: new_state_def next_state_def split_beta Let_def streak_read)

text \<open>C17: The state of an evaluation. A pending restart gives \<open>REVALIDATION_REQUIRED\<close>, stale evidence
  \<open>STALE\<close>, too few samples \<open>INSUFFICIENT_EVIDENCE\<close>. With sufficient evidence a value equal to the target
  already violates it, and it is \<open>SEVERE\<close> from twice the target on (the product wraps around in 64 bits);
  below the target it is \<open>AT_RISK\<close> above the recovery threshold, and a value equal to the threshold already
  counts as good. A good value is \<open>HEALTHY\<close> unless the recorded state is a degraded one; then it is
  \<open>RECOVERING\<close> until the second good evaluation in a row.\<close>

theorem state_follows_thresholds:
  assumes "find_objective i g = Some obj" and "fst (evaluate i g) = Inr ev"
    and "v = nanos (ev_observed ev)" and "target = nanos (o_target obj)" and "rec = nanos (ev_recovered_threshold ev)"
  shows "ev_recovered_threshold ev = recovery_threshold obj \<and>
     (ev_state ev = REVALIDATION_REQUIRED \<longleftrightarrow> flagged g i) \<and>
     (ev_state ev = TailState.STALE \<longleftrightarrow> \<not> flagged g i \<and> ev_sufficiency ev = Sufficiency.STALE) \<and>
     (ev_state ev = TailState.INSUFFICIENT_EVIDENCE \<longleftrightarrow> ev_sufficiency ev = INSUFFICIENT_SAMPLES) \<and>
     (ev_state ev = SEVERE \<longleftrightarrow> ev_sufficiency ev = SUFFICIENT \<and> target \<le> v \<and> i64 (2 * target) \<le> v) \<and>
     (ev_state ev = VIOLATING \<longleftrightarrow> ev_sufficiency ev = SUFFICIENT \<and> target \<le> v \<and> v < i64 (2 * target)) \<and>
     (ev_state ev = AT_RISK \<longleftrightarrow> ev_sufficiency ev = SUFFICIENT \<and> v < target \<and> rec < v) \<and>
     (ev_state ev = RECOVERING \<longleftrightarrow> ev_sufficiency ev = SUFFICIENT \<and> v < target \<and> v \<le> rec \<and>
        prev_state g i \<in> {VIOLATING, SEVERE, AT_RISK, RECOVERING} \<and> streak_of g i + 1 < 2) \<and>
     (ev_state ev = HEALTHY \<longleftrightarrow> ev_sufficiency ev = SUFFICIENT \<and> v < target \<and> v \<le> rec \<and>
        (prev_state g i \<in> {VIOLATING, SEVERE, AT_RISK, RECOVERING} \<longrightarrow> 2 \<le> streak_of g i + 1))"
proof -
  have ev: "ev = evaluation_of obj g" and i: "o_id obj = i"
    using assms(1,2) find_objective_id [OF assms(1)] by (cases rule: evaluate_cases [of g i]; simp)+
  have th: "ev_recovered_threshold (base_evaluation obj g) = recovery_threshold obj"
    by (simp add: base_evaluation_def measured_def Let_def split_beta)
  have fl: "flagged g i \<Longrightarrow> ev_sufficiency (base_evaluation obj g) = Sufficiency.STALE"
    by (auto simp: base_evaluation_def measured_def Let_def split_beta sufficiency_of_def i)
  have st: "ev_state ev = fst (new_state obj g)" and su: "ev_sufficiency ev = ev_sufficiency (base_evaluation obj g)"
    and ob: "v = nanos (ev_observed (base_evaluation obj g))" and rec: "rec = nanos (recovery_threshold obj)"
    using assms(3,5) by (simp_all add: ev th)
  consider "flagged g i" | "\<not> flagged g i" "ev_sufficiency (base_evaluation obj g) = Sufficiency.STALE"
    | "\<not> flagged g i" "ev_sufficiency (base_evaluation obj g) = INSUFFICIENT_SAMPLES"
    | "\<not> flagged g i" "ev_sufficiency (base_evaluation obj g) = SUFFICIENT"
    using sufficiency_cases [of obj g] by blast
  then show ?thesis
  proof cases
    case 4
    have "ev_state ev = fst (classify (prev_state g i) (streak_of g i) target rec v)"
      using 4 by (simp add: st new_state_value i split_beta ob rec assms(4))
    then show ?thesis using 4 by (auto simp: su ev th classify_def Let_def)
  qed (use fl in \<open>simp_all add: st su new_state_value i, simp_all add: ev th\<close>)
qed

lemma demo_observed: "ev_observed (evaluation_of demo_objective demo_loaded) = Duration 320"
proof -
  have "snd (observe demo_objective [Duration 300, Duration 320]) = Duration 320" by code_simp
  then show ?thesis by (simp add: base_values [OF demo_loaded_good] demo_evidence)
qed

lemma state_follows_thresholds_witness:
  "ev_state (evaluation_of demo_objective demo_loaded) = SEVERE"
proof -
  have "i64 (2 * nanos (o_target demo_objective)) \<le> 320" "nanos (o_target demo_objective) \<le> 320" by code_simp+
  then show ?thesis
    using state_follows_thresholds [OF demo_found demo_evaluated refl refl refl] demo_sufficient demo_observed by simp
qed

lemma selected_for_a_tail:
  assumes "fst (evaluate i g) = Inr ev" and "ev_selected_intervention ev \<noteq> NO_ACTION"
  shows "ev_state ev \<in> {VIOLATING, SEVERE, AT_RISK} \<and> ev_sufficiency ev = SUFFICIENT \<and> \<not> flagged g i \<and>
     infeasibility_of (ev_selected_intervention ev) (g_facts g) = Infeasibility.NONE \<and>
     ev_selected_intervention ev \<in> set (candidates_for_cause (dominant_cause (ev_causes ev)))"
proof (cases rule: evaluate_cases [of g i])
  case (evaluated obj)
  then have ev: "ev = evaluation_of obj g" using assms(1) by simp
  have i: "o_id obj = i" by (rule find_objective_id [OF evaluated(2)])
  have acts: "acts_in (fst (new_state obj g))"
  proof (rule ccontr)
    assume "\<not> ?thesis"
    then have "ev_selected_intervention (evaluation_of obj g) = NO_ACTION" by (simp add: evaluation_of_def)
    with assms(2) ev show False by simp
  qed
  then have sug: "evaluation_of obj g = suggestion obj g" by (simp add: evaluation_of_def)
  have state: "ev_state ev \<in> {VIOLATING, SEVERE, AT_RISK}" using acts by (auto simp: ev acts_in_def)
  have suff: "ev_sufficiency ev = SUFFICIENT"
    using acts sufficiency_cases [of obj g]
    by (auto simp: ev new_state_value acts_in_def split: if_splits)
  have nf: "\<not> flagged g i" using sufficient_iff [of obj g] suff by (simp add: ev i)
  obtain e where e: "ev = select_intervention e obj (g_facts g) (now_of g)"
    using ev sug by (simp add: suggestion_def Let_def)
  then have "dominant_cause (ev_causes e) = dominant_cause (ev_causes ev)" by simp
  then show ?thesis
    using selected_feasible [of e obj "g_facts g" "now_of g"] assms(2) state suff nf
    by (simp add: e [symmetric] feasible_types_def cause_candidates_def)
qed (use assms(1) in auto)

definition streak_inv :: "Impl \<Rightarrow> bool" where
  "streak_inv g \<longleftrightarrow> (\<forall>i. prev_state g i \<in> {VIOLATING, SEVERE, AT_RISK} \<longrightarrow> streak_of g i = 0)"

lemma prev_state_evaluate:
  assumes "fst (evaluate i g) = Inr ev"
  shows "prev_state (snd (evaluate i g)) j = (if j = i then ev_state ev else prev_state g j)"
proof (cases rule: evaluate_cases [of g i])
  case (evaluated obj)
  have i: "o_id obj = i" by (rule find_objective_id [OF evaluated(2)])
  have "g_last_state (snd (evaluate i g)) =
      om_put i (fst (new_state obj g)) (snd (om_index HEALTHY (g_last_state g) i))"
    using evaluate_enabled_value [of obj g] by (auto simp: evaluated(4) i)
  then show ?thesis
    using assms evaluated(4) by (auto simp: prev_state_def om_index_snd split: option.split)
qed (use assms in auto)

lemma streak_of_evaluate:
  assumes "find_objective i g = Some obj" and "fst (evaluate i g) = Inr ev"
  shows "streak_of (snd (evaluate i g)) j = (if j = i \<and> ev_sufficiency ev = SUFFICIENT
     then snd (classify (prev_state g i) (streak_of g i) (nanos (o_target obj))
            (nanos (recovery_threshold obj)) (nanos (ev_observed ev)))
     else streak_of g j)"
proof (cases rule: evaluate_cases [of g i])
  case (evaluated obj')
  then have [simp]: "obj' = obj" using assms(1) by simp
  have i: "o_id obj = i" by (rule find_objective_id [OF assms(1)])
  have ev: "ev = evaluation_of obj g" using assms(2) evaluated(4) by simp
  have "g_recover_streak (snd (evaluate i g)) = snd (new_state obj g)"
    using evaluate_enabled_value [of obj g] by (auto simp: evaluated(4))
  then show ?thesis
    using sufficient_iff [of obj g] sufficiency_cases [of obj g]
    by (auto simp: streak_of_def ev new_state_value i split_beta Let_def om_index_snd split: option.split)
qed (use assms in auto)

lemma evaluate_streak_inv:
  assumes "streak_inv g"
  shows "streak_inv (snd (evaluate i g))"
proof (cases rule: evaluate_cases [of g i])
  case (evaluated obj)
  let ?ev = "evaluation_of obj g"
  have r: "fst (evaluate i g) = Inr ?ev" using evaluated(4) by simp
  have "streak_of (snd (evaluate i g)) i = 0" if "ev_state ?ev \<in> {VIOLATING, SEVERE, AT_RISK}"
  proof -
    have i: "o_id obj = i" by (rule find_objective_id [OF evaluated(2)])
    have nf: "ev_sufficiency ?ev = SUFFICIENT \<and> \<not> flagged g i"
      using that sufficiency_cases [of obj g] sufficient_iff [of obj g]
      by (auto simp: new_state_value i split: if_splits)
    then have "fst (classify (prev_state g i) (streak_of g i) (nanos (o_target obj))
        (nanos (recovery_threshold obj)) (nanos (ev_observed ?ev))) = ev_state ?ev"
      by (simp add: new_state_value i split_beta Let_def)
    with that have "snd (classify (prev_state g i) (streak_of g i) (nanos (o_target obj))
        (nanos (recovery_threshold obj)) (nanos (ev_observed ?ev))) = 0"
      by (auto simp: classify_def Let_def split: if_splits)
    then show ?thesis using streak_of_evaluate [OF evaluated(2) r, of i] nf by simp
  qed
  then show ?thesis
    using assms prev_state_evaluate [OF r] streak_of_evaluate [OF evaluated(2) r] by (auto simp: streak_inv_def)
qed (use assms in simp_all)

lemma no_direct_recovery:
  assumes "streak_inv g" and "fst (evaluate i g) = Inr ev" and "ev_state ev = HEALTHY"
  shows "prev_state g i \<notin> {VIOLATING, SEVERE, AT_RISK}"
proof (cases rule: evaluate_cases [of g i])
  case (evaluated obj)
  have i: "o_id obj = i" by (rule find_objective_id [OF evaluated(2)])
  have ev: "ev = evaluation_of obj g" using assms(2) evaluated(4) by simp
  have "fst (classify (prev_state g i) (streak_of g i) (nanos (o_target obj))
        (nanos (recovery_threshold obj)) (nanos (ev_observed ev))) = HEALTHY"
    using assms(3) sufficiency_cases [of obj g]
    by (auto simp: ev new_state_value i split_beta Let_def split: if_splits)
  then show ?thesis
    using assms(1) by (auto simp: classify_def Let_def streak_inv_def split: if_splits)
qed (use assms(2) in auto)

text \<open>
  The hysteresis looks at the last evaluation only: an evaluation without sufficient evidence in
  between makes the next good one HEALTHY at once.
\<close>

lemma insufficient_evidence_skips_recovery:
  "v < target \<Longrightarrow> v \<le> rec \<Longrightarrow> fst (classify TailState.INSUFFICIENT_EVIDENCE streak target rec v) = HEALTHY"
  by (simp add: classify_def)

lemma demo_severe: "fst (new_state demo_objective demo_loaded) = SEVERE"
proof -
  have "\<not> flagged demo_loaded (o_id demo_objective)" by code_simp
  moreover have "fst (classify (prev_state demo_loaded (o_id demo_objective)) (streak_of demo_loaded (o_id demo_objective))
      (nanos (o_target demo_objective)) (nanos (recovery_threshold demo_objective)) 320) = SEVERE" by code_simp
  ultimately show ?thesis
    using demo_sufficient demo_observed by (simp add: new_state_value split_beta Let_def)
qed

lemma demo_selected: "ev_selected_intervention (evaluation_of demo_objective demo_loaded) \<noteq> NO_ACTION"
proof -
  let ?w = "window_of demo_loaded (o_id demo_objective) (class_of demo_objective)"
  have "retain (w_cfg ?w) (now_of demo_loaded) (w_samples (snd (window_sorted (now_of demo_loaded) ?w))) =
      evidence demo_objective demo_loaded"
    using pruned_window_samples [of demo_objective demo_loaded]
    by (simp add: pruned_window_def samples_pruned_def Let_def window_prune_samples)
  moreover have "dominant_cause (snd (decompose_samples [] [] (evidence demo_objective demo_loaded) (Duration 320))) =
      QUEUEING" by code_simp
  moreover have "feasible_types (g_facts demo_loaded) (candidates_for_cause QUEUEING) \<noteq> []" by code_simp
  ultimately have "ev_selected_intervention (suggestion demo_objective demo_loaded) \<noteq> NO_ACTION"
    using demo_observed
    by (simp add: suggestion_def Let_def decompose_tail_def split_beta selected_some cause_candidates_def)
  then show ?thesis by (simp add: evaluation_of_def demo_severe acts_in_def)
qed

end
