(* ===== verification/Lifecycle.thy ===== *)
theory Lifecycle
  imports Evaluate
begin

text \<open>
  The intervention lifecycle (\<open>authorize\<close>, \<open>dispatch\<close>, \<open>acknowledge\<close>, \<open>record_outcome\<close>, \<open>cancel\<close>
  and \<open>supersede\<close> of governor.cpp), with the relation on statuses that abstracts it.
\<close>

text \<open>Assigning to the status of the stored intervention through the iterator.\<close>

definition set_status :: "InterventionId \<Rightarrow> InterventionStatus \<Rightarrow> Impl \<Rightarrow> Impl" where
  "set_status i s g = (case om_find (g_interventions g) i of None \<Rightarrow> g
     | Some v \<Rightarrow> g\<lparr>g_interventions := om_put i (v\<lparr>inv_status := s\<rparr>) (g_interventions g)\<rparr>)"

text \<open>The checks of \<open>authorize\<close> up to the cooldown.\<close>

definition authorize_refusal :: "Intervention \<Rightarrow> Impl \<Rightarrow> Status option" where
  "authorize_refusal proposed g =
     (if g_shutting_down g then Some (status StatusCode.SHUTTING_DOWN ''shutdown'')
      else if inv_type proposed = NO_ACTION
      then Some (status INVALID_INPUT ''cannot authorize NO_ACTION'')
      else if inv_status proposed \<noteq> PROPOSED
      then Some (status INVALID_INPUT ''must be PROPOSED to authorize'')
      else case find_objective (inv_objective proposed) g of
        None \<Rightarrow> Some (status OBJECTIVE_INACTIVE ''objective not active'')
      | Some obj \<Rightarrow>
          if \<not> o_enabled obj then Some (status OBJECTIVE_INACTIVE ''objective not active'')
          else if \<not> same (inv_authority proposed) (current_authority obj g)
          then Some (status StatusCode.STALE_AUTHORITY ''intervention authority is stale'')
          else let why = infeasibility_of (inv_type proposed) (g_facts g) in
            if why \<noteq> Infeasibility.NONE
            then Some (status INTERVENTION_INFEASIBLE (''intervention infeasible: '' @ Infeasibility_to_string why))
            else None)"

text \<open>The cooldown check reads the clock only when there was an intervention and a cooldown is set.\<close>

definition cooldown_check :: "Intervention \<Rightarrow> Impl \<Rightarrow> bool \<times> Impl" where
  "cooldown_check proposed g =
     (case (om_find (g_last_intervention_ns g) (inv_objective proposed), find_objective (inv_objective proposed) g) of
        (Some earlier, Some obj) \<Rightarrow>
          (if nanos (o_cool_down obj) > 0
           then let (t, g) = read_now g; elapsed = i64 (t - earlier) in (elapsed < nanos (o_cool_down obj), g)
           else (False, g))
      | _ \<Rightarrow> (False, g))"

definition store_authorized :: "Intervention \<Rightarrow> Impl \<Rightarrow> Intervention \<times> Impl" where
  "store_authorized proposed g =
     (let unnamed = (inv_id proposed = Id 0);
          i = (if unnamed then Id (g_next_int_id g) else inv_id proposed);
          g = g\<lparr>g_next_int_id := (if unnamed then g_next_int_id g + 1 else g_next_int_id g)\<rparr>;
          gen = (if inv_generation proposed = Id 0 then Id (g_next_int_id g) else inv_generation proposed);
          (t, g) = read_now g;
          out = proposed\<lparr>inv_status := AUTHORIZED, inv_id := i, inv_generation := gen,
                  inv_proposed_at_ns := t\<rparr>;
          g = g\<lparr>g_interventions := om_put (inv_id out) out (g_interventions g)\<rparr>;
          (t, g) = read_now g
      in (out, g\<lparr>g_last_intervention_ns := om_put (inv_objective out) t (g_last_intervention_ns g)\<rparr>))"

definition authorize :: "Intervention \<Rightarrow> Impl \<Rightarrow> Intervention Result \<times> Impl" where
  "authorize proposed g =
     (case authorize_refusal proposed g of
        Some s \<Rightarrow> (Inl s, g)
      | None \<Rightarrow>
          (let (cooling, g) = cooldown_check proposed g in
           if cooling then (err INVALID_INPUT ''intervention cooldown active'', g)
           else let (out, g) = store_authorized proposed g in (Inr out, g)))"

definition dispatch :: "InterventionId \<Rightarrow> Impl \<Rightarrow> Intervention Result \<times> Impl" where
  "dispatch i g =
     (if g_shutting_down g then (err StatusCode.SHUTTING_DOWN ''shutdown'', g)
      else case om_find (g_interventions g) i of
        None \<Rightarrow> (err INVALID_INPUT ''unknown intervention'', g)
      | Some v \<Rightarrow>
          if inv_status v \<noteq> AUTHORIZED then (err INVALID_INPUT ''must be AUTHORIZED to dispatch'', g)
          else case find_objective (inv_objective v) g of
            None \<Rightarrow> (err OBJECTIVE_INACTIVE ''objective no longer active'',
                      set_status i InterventionStatus.FAILED g)
          | Some obj \<Rightarrow>
              if \<not> o_enabled obj
              then (err OBJECTIVE_INACTIVE ''objective no longer active'',
                    set_status i InterventionStatus.FAILED g)
              else if \<not> same (inv_authority v) (current_authority obj g)
              then (err StatusCode.STALE_AUTHORITY ''intervention superseded by authority change'',
                    set_status i SUPERSEDED g)
              else if infeasibility_of (inv_type v) (g_facts g) \<noteq> Infeasibility.NONE
              then (err INTERVENTION_INFEASIBLE ''resources no longer support it'',
                    set_status i InterventionStatus.FAILED g)
              else (Inr (v\<lparr>inv_status := DISPATCHED\<rparr>), set_status i DISPATCHED g))"

definition acknowledge :: "InterventionId \<Rightarrow> Impl \<Rightarrow> Status \<times> Impl" where
  "acknowledge i g =
     (case om_find (g_interventions g) i of
        None \<Rightarrow> (status INVALID_INPUT ''unknown intervention'', g)
      | Some v \<Rightarrow>
          if inv_status v \<noteq> DISPATCHED then (status INVALID_INPUT ''must be DISPATCHED to acknowledge'', g)
          else (status_ok, set_status i ACKNOWLEDGED g))"

text \<open>The status an outcome leads to; a value outside the enumeration matches no case.\<close>

fun outcome_status :: "PostOutcome \<Rightarrow> InterventionStatus option" where
  "outcome_status PostOutcome.EFFECTIVE = Some InterventionStatus.EFFECTIVE"
| "outcome_status PARTIALLY_EFFECTIVE = Some InterventionStatus.INEFFECTIVE"
| "outcome_status PostOutcome.INEFFECTIVE = Some InterventionStatus.INEFFECTIVE"
| "outcome_status WORSENED_TAIL = Some InterventionStatus.INEFFECTIVE"
| "outcome_status CREATED_SECONDARY_VIOLATION = Some InterventionStatus.FAILED"
| "outcome_status INSUFFICIENT_POST_ACTION_EVIDENCE = Some InterventionStatus.OUTCOME_UNKNOWN"
| "outcome_status PostOutcome.OUTCOME_UNKNOWN = Some InterventionStatus.OUTCOME_UNKNOWN"
| "outcome_status (PostOutcome.Unlisted k) = None"

definition record_outcome :: "InterventionId \<Rightarrow> PostOutcome \<Rightarrow> Impl \<Rightarrow> PostOutcome \<times> Impl" where
  "record_outcome i outcome g =
     (case om_find (g_interventions g) i of
        None \<Rightarrow> (PostOutcome.OUTCOME_UNKNOWN, g)
      | Some v \<Rightarrow>
          if is_terminal v then (PostOutcome.OUTCOME_UNKNOWN, g)
          else let g = (case outcome_status outcome of Some s \<Rightarrow> set_status i s g | None \<Rightarrow> g)
               in (outcome, g\<lparr>g_outcomes := om_put i outcome (g_outcomes g)\<rparr>))"

definition cancel :: "InterventionId \<Rightarrow> Impl \<Rightarrow> Status \<times> Impl" where
  "cancel i g =
     (case om_find (g_interventions g) i of
        None \<Rightarrow> (status INVALID_INPUT ''unknown intervention'', g)
      | Some v \<Rightarrow>
          if is_terminal v then (status_ok, g)
          else if inv_status v = PROPOSED \<or> inv_status v = AUTHORIZED \<or> inv_status v = DISPATCHED
          then (status_ok, set_status i InterventionStatus.CANCELLED g)
          else (status INVALID_INPUT ''past irreversible cancellation boundary'', g))"

definition supersede :: "InterventionId \<Rightarrow> string \<Rightarrow> Impl \<Rightarrow> Status \<times> Impl" where
  "supersede i reason g =
     (case om_find (g_interventions g) i of
        None \<Rightarrow> (status INVALID_INPUT ''unknown intervention'', g)
      | Some v \<Rightarrow>
          if is_terminal v then (status_ok, g)
          else (status_ok, g\<lparr>g_interventions := om_put i (v\<lparr>inv_status := SUPERSEDED,
                  inv_reason := (if reason \<noteq> [] then inv_reason v @ '' (superseded: '' @ reason @ '')''
                    else inv_reason v)\<rparr>) (g_interventions g)\<rparr>))"

subsection \<open>Authorisation\<close>

definition active_objective :: "TailObjectiveId \<Rightarrow> Impl \<Rightarrow> TailObjective option" where
  "active_objective i g = (case find_objective i g of
     Some obj \<Rightarrow> if o_enabled obj then Some obj else None | None \<Rightarrow> None)"

text \<open>The cooldown of an objective has not run out yet.\<close>

definition cooling :: "TailObjective \<Rightarrow> Impl \<Rightarrow> bool" where
  "cooling obj g \<longleftrightarrow> (\<exists>t. om_find (g_last_intervention_ns g) (o_id obj) = Some t \<and>
     0 < nanos (o_cool_down obj) \<and> i64 (now_of g - t) < nanos (o_cool_down obj))"

definition authorizable :: "Intervention \<Rightarrow> Impl \<Rightarrow> bool" where
  "authorizable p g \<longleftrightarrow> \<not> g_shutting_down g \<and> inv_type p \<noteq> NO_ACTION \<and> inv_status p = PROPOSED \<and>
     (\<exists>obj. find_objective (inv_objective p) g = Some obj \<and> o_enabled obj \<and>
        inv_authority p = current_authority obj g \<and>
        infeasibility_of (inv_type p) (g_facts g) = Infeasibility.NONE \<and> \<not> cooling obj g)"

lemma authorize_refusal_None:
  "authorize_refusal p g = None \<longleftrightarrow> \<not> g_shutting_down g \<and> inv_type p \<noteq> NO_ACTION \<and> inv_status p = PROPOSED \<and>
     (\<exists>obj. find_objective (inv_objective p) g = Some obj \<and> o_enabled obj \<and>
        inv_authority p = current_authority obj g \<and>
        infeasibility_of (inv_type p) (g_facts g) = Infeasibility.NONE)"
  by (auto simp: authorize_refusal_def same_iff_eq Let_def split: option.splits if_splits)

lemma cooldown_check_value:
  assumes "find_objective (inv_objective p) g = Some obj"
  shows "\<exists>n. cooldown_check p g = (cooling obj g, g\<lparr>g_reads := n\<rparr>)"
proof (cases "om_find (g_last_intervention_ns g) (inv_objective p)")
  case None
  have "\<not> cooling obj g" using None by (simp add: cooling_def find_objective_id [OF assms])
  then show ?thesis
    by (intro exI [of _ "g_reads g"]) (simp add: cooldown_check_def None)
next
  case (Some t)
  have c: "cooling obj g \<longleftrightarrow> 0 < nanos (o_cool_down obj) \<and> i64 (now_of g - t) < nanos (o_cool_down obj)"
    using Some by (simp add: cooling_def find_objective_id [OF assms])
  show ?thesis
  proof (cases "0 < nanos (o_cool_down obj)")
    case True
    then show ?thesis
      by (intro exI [of _ "g_reads g + 1"]) (simp add: cooldown_check_def Some assms c read_now_def Let_def)
  next
    case False
    then show ?thesis
      by (intro exI [of _ "g_reads g"]) (simp add: cooldown_check_def Some assms c)
  qed
qed

text \<open>The intervention that is stored for a proposal.\<close>

definition fresh_id :: "Intervention \<Rightarrow> Impl \<Rightarrow> InterventionId" where
  "fresh_id p g = (if inv_id p = Id 0 then Id (g_next_int_id g) else inv_id p)"

lemma store_authorized_value:
  "\<exists>gen t t' n. fst (store_authorized p g) = p\<lparr>inv_status := AUTHORIZED, inv_id := fresh_id p g,
       inv_generation := gen, inv_proposed_at_ns := t\<rparr> \<and>
     snd (store_authorized p g) = g\<lparr>g_next_int_id := (if inv_id p = Id 0 then g_next_int_id g + 1 else g_next_int_id g),
       g_reads := n,
       g_interventions := om_put (fresh_id p g) (fst (store_authorized p g)) (g_interventions g),
       g_last_intervention_ns := om_put (inv_objective p) t' (g_last_intervention_ns g)\<rparr>"
proof -
  let ?next = "if inv_id p = Id 0 then g_next_int_id g + 1 else g_next_int_id g"
  let ?gen = "if inv_generation p = Id 0 then Id ?next else inv_generation p"
  let ?out = "p\<lparr>inv_status := AUTHORIZED, inv_id := fresh_id p g, inv_generation := ?gen, inv_proposed_at_ns := now_of g\<rparr>"
  have "store_authorized p g = (?out, g\<lparr>g_next_int_id := ?next, g_reads := Suc (Suc (g_reads g)),
       g_interventions := om_put (fresh_id p g) ?out (g_interventions g),
       g_last_intervention_ns := om_put (inv_objective p) (now_of (g\<lparr>g_reads := Suc (g_reads g)\<rparr>))
         (g_last_intervention_ns g)\<rparr>)"
    by (simp add: store_authorized_def read_now_def fresh_id_def now_of_def Let_def)
  then show ?thesis by (simp only: fst_conv snd_conv) blast
qed

lemma authorize_cases:
  obtains (authorized) out where "authorizable p g" and "fst (authorize p g) = Inr out"
      and "\<exists>gen t. out = p\<lparr>inv_status := AUTHORIZED, inv_id := fresh_id p g, inv_generation := gen, inv_proposed_at_ns := t\<rparr>"
      and "\<exists>n t'. snd (authorize p g) = g\<lparr>g_next_int_id := (if inv_id p = Id 0 then g_next_int_id g + 1 else g_next_int_id g),
         g_reads := n, g_interventions := om_put (fresh_id p g) out (g_interventions g),
         g_last_intervention_ns := om_put (inv_objective p) t' (g_last_intervention_ns g)\<rparr>"
  | (refused) s where "\<not> authorizable p g" and "fst (authorize p g) = Inl s" and "\<exists>n. snd (authorize p g) = g\<lparr>g_reads := n\<rparr>"
proof (cases "authorize_refusal p g")
  case None
  then obtain obj where obj: "find_objective (inv_objective p) g = Some obj"
    using authorize_refusal_None [of p g] by blast
  then have r: "authorizable p g \<longleftrightarrow> \<not> cooling obj g"
    using None authorize_refusal_None [of p g] by (auto simp: authorizable_def)
  obtain n where c: "cooldown_check p g = (cooling obj g, g\<lparr>g_reads := n\<rparr>)"
    using cooldown_check_value [OF obj] by blast
  show thesis
  proof (cases "cooling obj g")
    case True
    then have "authorize p g = (err INVALID_INPUT ''intervention cooldown active'', g\<lparr>g_reads := n\<rparr>)"
      using None by (simp add: authorize_def c)
    then have "fst (authorize p g) = Inl (status INVALID_INPUT ''intervention cooldown active'')"
      and "snd (authorize p g) = g\<lparr>g_reads := n\<rparr>" by (simp_all add: err_def)
    moreover have "\<not> authorizable p g" using r True by simp
    ultimately show thesis using refused by blast
  next
    case False
    let ?st = "store_authorized p (g\<lparr>g_reads := n\<rparr>)"
    have a: "authorize p g = (Inr (fst ?st), snd ?st)"
      using None False by (simp add: authorize_def c split_beta)
    have f: "fresh_id p (g\<lparr>g_reads := n\<rparr>) = fresh_id p g" by (simp add: fresh_id_def)
    let ?h = "g\<lparr>g_reads := n\<rparr>"
    obtain gen t t' m where w: "fst ?st = p\<lparr>inv_status := AUTHORIZED, inv_id := fresh_id p ?h,
         inv_generation := gen, inv_proposed_at_ns := t\<rparr>"
      "snd ?st = ?h\<lparr>g_next_int_id := (if inv_id p = Id 0 then g_next_int_id ?h + 1 else g_next_int_id ?h),
         g_reads := m, g_interventions := om_put (fresh_id p ?h) (fst ?st) (g_interventions ?h),
         g_last_intervention_ns := om_put (inv_objective p) t' (g_last_intervention_ns ?h)\<rparr>"
      using store_authorized_value [of p ?h] by blast
    have v: "fst ?st = p\<lparr>inv_status := AUTHORIZED, inv_id := fresh_id p g,
         inv_generation := gen, inv_proposed_at_ns := t\<rparr>" using w(1) by (simp add: f)
    have v2: "snd ?st = g\<lparr>g_next_int_id := (if inv_id p = Id 0 then g_next_int_id g + 1 else g_next_int_id g),
         g_reads := m, g_interventions := om_put (fresh_id p g) (fst ?st) (g_interventions g),
         g_last_intervention_ns := om_put (inv_objective p) t' (g_last_intervention_ns g)\<rparr>"
      by (subst w(2)) (simp add: f cong: if_cong)
    show thesis
    proof (rule authorized)
      show "authorizable p g" using r False by simp
      show "fst (authorize p g) = Inr (fst ?st)" by (simp add: a)
      show "\<exists>gen t. fst ?st = p\<lparr>inv_status := AUTHORIZED, inv_id := fresh_id p g, inv_generation := gen,
          inv_proposed_at_ns := t\<rparr>" using v by blast
      show "\<exists>n t'. snd (authorize p g) = g\<lparr>g_next_int_id := (if inv_id p = Id 0 then g_next_int_id g + 1 else g_next_int_id g),
         g_reads := n, g_interventions := om_put (fresh_id p g) (fst ?st) (g_interventions g),
         g_last_intervention_ns := om_put (inv_objective p) t' (g_last_intervention_ns g)\<rparr>"
        unfolding a snd_conv v2 by blast
    qed
  qed
next
  case (Some s)
  then have "\<not> authorizable p g" using authorize_refusal_None [of p g] by (auto simp: authorizable_def)
  moreover have "fst (authorize p g) = Inl s" by (simp add: authorize_def Some)
  moreover have "snd (authorize p g) = g\<lparr>g_reads := g_reads g\<rparr>" by (simp add: authorize_def Some)
  ultimately show thesis using refused by blast
qed

subsection \<open>The lifecycle as a relation on statuses\<close>

text \<open>
  What the operations on a stored intervention may do to its status. A terminal status has no
  successor; \<open>ACKNOWLEDGED\<close> is reached only from \<open>DISPATCHED\<close>, and that only from \<open>AUTHORIZED\<close>.
\<close>

inductive status_step :: "InterventionStatus \<Rightarrow> InterventionStatus \<Rightarrow> bool" where
  dispatched: "status_step AUTHORIZED DISPATCHED"
| dispatch_failed: "status_step AUTHORIZED InterventionStatus.FAILED"
| acknowledged: "status_step DISPATCHED ACKNOWLEDGED"
| cancelled: "s \<in> {PROPOSED, AUTHORIZED, DISPATCHED} \<Longrightarrow> status_step s InterventionStatus.CANCELLED"
| superseded: "\<not> terminal_status s \<Longrightarrow> status_step s SUPERSEDED"
| outcome: "\<not> terminal_status s \<Longrightarrow> t \<in> {InterventionStatus.EFFECTIVE, InterventionStatus.INEFFECTIVE,
    InterventionStatus.FAILED, InterventionStatus.OUTCOME_UNKNOWN} \<Longrightarrow> status_step s t"

inductive_cases status_stepE [elim]: "status_step s t"

lemma terminal_has_no_step: "terminal_status s \<Longrightarrow> \<not> status_step s t"
  by (auto simp: terminal_status_def)

lemma acknowledged_from_dispatched: "status_step s ACKNOWLEDGED \<Longrightarrow> s = DISPATCHED"
  by (auto simp: terminal_status_def)

lemma dispatched_from_authorized: "status_step s DISPATCHED \<Longrightarrow> s = AUTHORIZED"
  by (auto simp: terminal_status_def)

text \<open>The immutable part of an intervention.\<close>

definition identity_of :: "Intervention \<Rightarrow> Intervention" where
  "identity_of v = v\<lparr>inv_status := PROPOSED, inv_reason := []\<rparr>"

abbreviation same_intervention :: "Intervention \<Rightarrow> Intervention \<Rightarrow> bool" where
  "same_intervention v v' \<equiv> identity_of v' = identity_of v"

lemma identity_of_updates [simp]:
  "identity_of (v\<lparr>inv_status := s\<rparr>) = identity_of v"
  "identity_of (v\<lparr>inv_status := s, inv_reason := r\<rparr>) = identity_of v"
  by (simp_all add: identity_of_def)

lemma same_intervention_fields:
  assumes "same_intervention v v'"
  shows "inv_id v' = inv_id v" "inv_type v' = inv_type v" "inv_authority v' = inv_authority v"
    "inv_objective v' = inv_objective v"
proof -
  have f: "inv_id (identity_of u) = inv_id u" "inv_type (identity_of u) = inv_type u"
    "inv_authority (identity_of u) = inv_authority u" "inv_objective (identity_of u) = inv_objective u" for u
    by (simp_all add: identity_of_def)
  show "inv_id v' = inv_id v" "inv_type v' = inv_type v" "inv_authority v' = inv_authority v"
    "inv_objective v' = inv_objective v"
    using assms f [of v] f [of v'] by metis+
qed

text \<open>One stored intervention before and after an operation: it stays stored, its identity and
  authority do not change, and its status moves by at most one step.\<close>

definition evolves :: "Impl \<Rightarrow> Impl \<Rightarrow> bool" where
  "evolves g g' \<longleftrightarrow> (\<forall>i v. om_find (g_interventions g) i = Some v \<longrightarrow>
     (\<exists>v'. om_find (g_interventions g') i = Some v' \<and> same_intervention v v' \<and>
        (inv_status v' = inv_status v \<or> status_step (inv_status v) (inv_status v'))))"

lemma evolves_same [simp]: "g_interventions g' = g_interventions g \<Longrightarrow> evolves g g'"
  by (simp add: evolves_def)

lemma evolves_put:
  assumes "om_find (g_interventions g) i = Some v" and "same_intervention v v'"
    and "status_step (inv_status v) (inv_status v')" and "g_interventions g' = om_put i v' (g_interventions g)"
  shows "evolves g g'"
  using assms by (auto simp: evolves_def)

lemma evolves_set_status:
  "om_find (g_interventions g) i = Some v \<Longrightarrow> status_step (inv_status v) s \<Longrightarrow> evolves g (set_status i s g)"
  by (rule evolves_put [of g i v "v\<lparr>inv_status := s\<rparr>"]) (simp_all add: set_status_def)

subsection \<open>Every operation follows the relation\<close>

lemma dispatch_evolves: "evolves g (snd (dispatch i g))"
proof (cases "om_find (g_interventions g) i")
  case (Some v)
  show ?thesis
  proof (cases "inv_status v = AUTHORIZED")
    case True
    then have "evolves g (set_status i s g)"
      if "s \<in> {InterventionStatus.FAILED, SUPERSEDED, DISPATCHED}" for s
      using that by (intro evolves_set_status [OF Some])
        (auto simp: terminal_status_def intro: status_step.intros)
    then show ?thesis by (simp add: dispatch_def Some Let_def split: option.split)
  qed (simp add: dispatch_def Some)
qed (simp add: dispatch_def)

lemma acknowledge_evolves: "evolves g (snd (acknowledge i g))"
  by (auto simp: acknowledge_def split: option.split intro!: evolves_set_status intro: status_step.intros)

lemma cancel_evolves: "evolves g (snd (cancel i g))"
  by (auto simp: cancel_def split: option.split intro!: evolves_set_status intro: status_step.intros)

lemma supersede_evolves: "evolves g (snd (supersede i reason g))"
proof (cases "om_find (g_interventions g) i")
  case (Some v)
  show ?thesis
  proof (cases "is_terminal v")
    case False
    let ?v = "v\<lparr>inv_status := SUPERSEDED, inv_reason := (if reason \<noteq> [] then inv_reason v @ '' (superseded: '' @ reason @ '')''
        else inv_reason v)\<rparr>"
    have "snd (supersede i reason g) = g\<lparr>g_interventions := om_put i ?v (g_interventions g)\<rparr>"
      using False by (simp add: supersede_def Some)
    then show ?thesis
      using False by (intro evolves_put [OF Some, of ?v]) (auto simp: is_terminal_def intro: status_step.superseded)
  qed (simp add: supersede_def Some)
qed (simp add: supersede_def)

lemma outcome_status_step:
  "outcome_status outcome = Some s \<Longrightarrow> \<not> terminal_status t \<Longrightarrow> status_step t s"
  by (cases outcome) (auto intro: status_step.outcome)

lemma record_outcome_evolves: "evolves g (snd (record_outcome i outcome g))"
proof (cases "om_find (g_interventions g) i")
  case (Some v)
  have "evolves g (h\<lparr>g_outcomes := m\<rparr>) = evolves g h" for h m by (simp add: evolves_def)
  then show ?thesis
    using evolves_set_status [OF Some] outcome_status_step [of outcome _ "inv_status v"]
    by (auto simp: record_outcome_def Some is_terminal_def Let_def split: option.split)
qed (simp add: record_outcome_def)

text \<open>Authorisation adds an intervention; it overwrites one only when the proposal names it.\<close>

lemma authorize_evolves:
  assumes "om_find (g_interventions g) (fresh_id p g) = None"
  shows "evolves g (snd (authorize p g))"
proof (cases rule: authorize_cases [of p g])
  case (authorized out)
  then have "g_interventions (snd (authorize p g)) = om_put (fresh_id p g) out (g_interventions g)" by auto
  then show ?thesis using assms by (auto simp: evolves_def)
next
  case (refused s)
  then show ?thesis by auto
qed

subsection \<open>Dispatch\<close>

definition dispatchable :: "Intervention \<Rightarrow> Impl \<Rightarrow> bool" where
  "dispatchable v g \<longleftrightarrow> inv_status v = AUTHORIZED \<and>
     (\<exists>obj. find_objective (inv_objective v) g = Some obj \<and> o_enabled obj \<and>
        inv_authority v = current_authority obj g \<and>
        infeasibility_of (inv_type v) (g_facts g) = Infeasibility.NONE)"

lemma set_status_find:
  "om_find (g_interventions g) i = Some v \<Longrightarrow>
     om_find (g_interventions (set_status i s g)) = (om_find (g_interventions g))(i \<mapsto> v\<lparr>inv_status := s\<rparr>)"
  by (simp add: set_status_def)

lemma dispatch_iff:
  "fst (dispatch i g) = Inr w \<longleftrightarrow> \<not> g_shutting_down g \<and>
     (\<exists>v. om_find (g_interventions g) i = Some v \<and> dispatchable v g \<and> w = v\<lparr>inv_status := DISPATCHED\<rparr>)"
  by (auto simp: dispatch_def dispatchable_def same_iff_eq err_def split: option.splits if_splits)

text \<open>
  An authorised intervention and a governor that still stands behind it.
\<close>

definition demo_proposal :: Intervention where
  "demo_proposal = intervention_default\<lparr>inv_type := BOUND_QUEUE_WAIT, inv_objective := Id 1,
     inv_authority := current_authority demo_objective demo_governor\<rparr>"

definition demo_authorized :: Impl where
  "demo_authorized = snd (authorize demo_proposal demo_governor)"

lemma demo_stored:
  "om_find (g_interventions demo_authorized) (Id 1) = Some (demo_proposal\<lparr>inv_id := Id 1, inv_generation := Id 2,
     inv_status := AUTHORIZED, inv_proposed_at_ns := 1000\<rparr>)"
  by code_simp

lemma demo_frame: "\<not> g_shutting_down demo_authorized" "find_objective (Id 1) demo_authorized = Some demo_objective"
  "current_authority demo_objective demo_authorized = current_authority demo_objective demo_governor"
  "infeasibility_of BOUND_QUEUE_WAIT (g_facts demo_authorized) = Infeasibility.NONE" "o_enabled demo_objective"
  by code_simp+

lemma demo_authorizes: "fst (authorize demo_proposal demo_governor) \<in> range Inr"
proof (cases rule: authorize_cases [of demo_proposal demo_governor])
  case (refused s)
  have "is_value (fst (authorize demo_proposal demo_governor))" by code_simp
  with refused show ?thesis by simp
qed auto

subsection \<open>Properties\<close>

text \<open>C1: Dispatch succeeds exactly when the governor is not shutting down, the intervention is stored as
  authorised, its objective is still in the policy and enabled, the authority it was built against is still
  the current one in every generation, and the facts still allow it; what it returns is the stored
  intervention as dispatched. On success only that intervention changes, to what is returned. A refusal
  changes nothing, or makes an intervention that was authorised superseded or failed and nothing else.\<close>

theorem dispatch_is_fenced:
  "(fst (dispatch i g) = Inr w \<longleftrightarrow> \<not> g_shutting_down g \<and>
     (\<exists>v obj. om_find (g_interventions g) i = Some v \<and> inv_status v = AUTHORIZED \<and>
        find_objective (inv_objective v) g = Some obj \<and> o_enabled obj \<and>
        inv_authority v = current_authority obj g \<and>
        infeasibility_of (inv_type v) (g_facts g) = Infeasibility.NONE \<and> w = v\<lparr>inv_status := DISPATCHED\<rparr>)) \<and>
   (\<exists>m. snd (dispatch i g) = g\<lparr>g_interventions := m\<rparr> \<and>
     (\<forall>w. fst (dispatch i g) = Inr w \<longrightarrow> om_find m = (om_find (g_interventions g))(i \<mapsto> w)) \<and>
     (\<forall>s. fst (dispatch i g) = Inl s \<longrightarrow> m = g_interventions g \<or>
        (\<exists>v t. om_find (g_interventions g) i = Some v \<and> inv_status v = AUTHORIZED \<and>
           t \<in> {SUPERSEDED, InterventionStatus.FAILED} \<and> om_find m = (om_find (g_interventions g))(i \<mapsto> v\<lparr>inv_status := t\<rparr>))))"
proof
  show "fst (dispatch i g) = Inr w \<longleftrightarrow> \<not> g_shutting_down g \<and>
     (\<exists>v obj. om_find (g_interventions g) i = Some v \<and> inv_status v = AUTHORIZED \<and>
        find_objective (inv_objective v) g = Some obj \<and> o_enabled obj \<and>
        inv_authority v = current_authority obj g \<and>
        infeasibility_of (inv_type v) (g_facts g) = Infeasibility.NONE \<and> w = v\<lparr>inv_status := DISPATCHED\<rparr>)"
    by (auto simp: dispatch_iff dispatchable_def)
  let ?m = "g_interventions (snd (dispatch i g))"
  have set: "set_status i s g = g\<lparr>g_interventions := g_interventions (set_status i s g)\<rparr>" for s
    by (simp add: set_status_def split: option.split)
  show "\<exists>m. snd (dispatch i g) = g\<lparr>g_interventions := m\<rparr> \<and>
     (\<forall>w. fst (dispatch i g) = Inr w \<longrightarrow> om_find m = (om_find (g_interventions g))(i \<mapsto> w)) \<and>
     (\<forall>s. fst (dispatch i g) = Inl s \<longrightarrow> m = g_interventions g \<or>
        (\<exists>v t. om_find (g_interventions g) i = Some v \<and> inv_status v = AUTHORIZED \<and>
           t \<in> {SUPERSEDED, InterventionStatus.FAILED} \<and> om_find m = (om_find (g_interventions g))(i \<mapsto> v\<lparr>inv_status := t\<rparr>)))"
  proof (intro exI [of _ ?m] conjI)
    show "snd (dispatch i g) = g\<lparr>g_interventions := ?m\<rparr>"
      using set by (auto simp: dispatch_def split: option.split)
  qed (auto simp: dispatch_def set_status_find err_def split: option.split)
qed

lemma dispatch_is_fenced_witness:
  "fst (dispatch (Id 1) demo_authorized) = Inr (demo_proposal\<lparr>inv_id := Id 1, inv_generation := Id 2,
     inv_status := DISPATCHED, inv_proposed_at_ns := 1000\<rparr>) \<and>
   (\<exists>v. om_find (g_interventions (snd (dispatch (Id 1) demo_authorized))) (Id 1) = Some v \<and> inv_status v = DISPATCHED)"
proof -
  let ?v = "demo_proposal\<lparr>inv_id := Id 1, inv_generation := Id 2, inv_status := AUTHORIZED, inv_proposed_at_ns := 1000\<rparr>"
  have "\<exists>w. w = ?v\<lparr>inv_status := DISPATCHED\<rparr> \<and> fst (dispatch (Id 1) demo_authorized) = Inr w"
    using dispatch_is_fenced [of "Id 1" demo_authorized "?v\<lparr>inv_status := DISPATCHED\<rparr>"] demo_stored demo_frame
    by (simp add: demo_proposal_def intervention_default_def)
  then have d: "fst (dispatch (Id 1) demo_authorized) = Inr (?v\<lparr>inv_status := DISPATCHED\<rparr>)" by blast
  then obtain m where "snd (dispatch (Id 1) demo_authorized) = demo_authorized\<lparr>g_interventions := m\<rparr>"
    "om_find m = (om_find (g_interventions demo_authorized))(Id 1 \<mapsto> ?v\<lparr>inv_status := DISPATCHED\<rparr>)"
    using dispatch_is_fenced [of "Id 1" demo_authorized] by blast
  then show ?thesis using d by simp
qed

text \<open>An authorised intervention whose authority is no longer current cannot be dispatched: the
  attempt is refused as stale, the intervention is superseded, and it can never be dispatched or
  acknowledged from there, while everything else stays as it was.\<close>

theorem stale_intervention_is_superseded:
  assumes "\<not> g_shutting_down g" and "om_find (g_interventions g) i = Some v" and "inv_status v = AUTHORIZED"
    and "find_objective (inv_objective v) g = Some obj" and "o_enabled obj"
    and "inv_authority v \<noteq> current_authority obj g"
  shows "fst (dispatch i g) = err StatusCode.STALE_AUTHORITY ''intervention superseded by authority change'' \<and>
     (\<exists>m. snd (dispatch i g) = g\<lparr>g_interventions := m\<rparr> \<and>
        om_find m = (om_find (g_interventions g))(i \<mapsto> v\<lparr>inv_status := SUPERSEDED\<rparr>)) \<and>
     (\<forall>w. fst (dispatch i (snd (dispatch i g))) \<noteq> Inr w) \<and>
     \<not> is_ok (fst (acknowledge i (snd (dispatch i g)))) \<and>
     (\<forall>s. \<not> status_step SUPERSEDED s)"
proof -
  have d: "dispatch i g = (err StatusCode.STALE_AUTHORITY ''intervention superseded by authority change'',
      set_status i SUPERSEDED g)"
    using assms by (simp add: dispatch_def same_iff_eq)
  have "set_status i SUPERSEDED g = g\<lparr>g_interventions := om_put i (v\<lparr>inv_status := SUPERSEDED\<rparr>) (g_interventions g)\<rparr>"
    using assms(2) by (simp add: set_status_def)
  then have s: "\<exists>m. snd (dispatch i g) = g\<lparr>g_interventions := m\<rparr> \<and>
      om_find m = (om_find (g_interventions g))(i \<mapsto> v\<lparr>inv_status := SUPERSEDED\<rparr>)"
    unfolding d by (intro exI [of _ "om_put i (v\<lparr>inv_status := SUPERSEDED\<rparr>) (g_interventions g)"]) simp
  have f: "om_find (g_interventions (snd (dispatch i g))) i = Some (v\<lparr>inv_status := SUPERSEDED\<rparr>)" using s by auto
  have "fst (dispatch i (snd (dispatch i g))) \<noteq> Inr w" for w
    using f by (auto simp: dispatch_iff dispatchable_def)
  moreover have "\<not> is_ok (fst (acknowledge i (snd (dispatch i g))))"
    using f by (simp add: acknowledge_def)
  moreover have "\<not> status_step SUPERSEDED s" for s
    by (rule terminal_has_no_step) (simp add: terminal_status_def)
  ultimately show ?thesis using s by (simp add: d)
qed

lemma stale_intervention_is_superseded_witness:
  "fst (dispatch (Id 1) (advance_epoch demo_authorized)) =
     err StatusCode.STALE_AUTHORITY ''intervention superseded by authority change''"
proof -
  have "\<not> g_shutting_down (advance_epoch demo_authorized)"
    and "find_objective (Id 1) (advance_epoch demo_authorized) = Some demo_objective"
    and "om_find (g_interventions (advance_epoch demo_authorized)) = om_find (g_interventions demo_authorized)"
    using demo_frame by (simp_all add: advance_epoch_def Let_def find_objective_def)
  moreover have "current_authority demo_objective demo_governor \<noteq> current_authority demo_objective (advance_epoch demo_authorized)"
    by code_simp
  ultimately show ?thesis
    using stale_intervention_is_superseded [of "advance_epoch demo_authorized" "Id 1" _ demo_objective] demo_stored demo_frame(5)
    by (simp add: demo_proposal_def)
qed

lemma authority_determines_generations:
  assumes "current_authority obj g' = current_authority obj g"
  shows "gc_epoch (g_cfg g') = gc_epoch (g_cfg g)" "g_resource_gen g' = g_resource_gen g"
    "g_queue_gen g' = g_queue_gen g" "g_batch_gen g' = g_batch_gen g" "g_recovery_gen g' = g_recovery_gen g"
    "g_topology_gen g' = g_topology_gen g" "g_engine_inc g' = g_engine_inc g"
  using arg_cong [OF assms, of a_epoch] arg_cong [OF assms, of a_resource_generation]
    arg_cong [OF assms, of a_queue_generation] arg_cong [OF assms, of a_batch_generation]
    arg_cong [OF assms, of a_recovery_generation] arg_cong [OF assms, of a_topology_generation]
    arg_cong [OF assms, of a_engine_incarnation] by (simp_all add: current_authority_def)

text \<open>Advancing the epoch, or changing any of the runtime generations, takes away the right to
  dispatch what was authorised before: an intervention built against the authority of the governor
  as it was is refused by the governor as it is after the change.\<close>

theorem generation_change_fences_dispatch:
  assumes "om_find (g_interventions g) i = Some v" and "find_objective (inv_objective v) g = Some obj"
    and "inv_authority v = current_authority obj g"
    and "g' = advance_epoch g \<or>
      (\<exists>x. x \<noteq> g_resource_gen g \<and> g' = set_resource_generation x g) \<or>
      (\<exists>x. x \<noteq> g_queue_gen g \<and> g' = set_queue_generation x g) \<or>
      (\<exists>x. x \<noteq> g_batch_gen g \<and> g' = set_batch_generation x g) \<or>
      (\<exists>x. x \<noteq> g_recovery_gen g \<and> g' = set_recovery_generation x g) \<or>
      (\<exists>x. x \<noteq> g_topology_gen g \<and> g' = set_topology_generation x g) \<or>
      (\<exists>x. x \<noteq> g_engine_inc g \<and> g' = set_engine_incarnation x g)"
  shows "fst (dispatch i g') \<noteq> Inr w"
proof -
  have ne: "Id (id_value e + 1) \<noteq> e" for e :: CoordinatorEpoch by (cases e) simp
  have "om_find (g_interventions g') i = Some v" and "find_objective (inv_objective v) g' = Some obj"
    using assms(1,2,4)
    by (auto simp: advance_epoch_def set_resource_generation_def set_queue_generation_def set_batch_generation_def
        set_recovery_generation_def set_topology_generation_def set_engine_incarnation_def find_objective_def Let_def)
  moreover have "current_authority obj g' \<noteq> current_authority obj g"
    using assms(4) ne [of "gc_epoch (g_cfg g)"] authority_determines_generations [of obj g' g]
    by (auto simp: advance_epoch_def set_resource_generation_def set_queue_generation_def set_batch_generation_def
        set_recovery_generation_def set_topology_generation_def set_engine_incarnation_def Let_def)
  ultimately show ?thesis using assms(3) by (auto simp: dispatch_iff dispatchable_def)
qed

lemma generation_change_fences_dispatch_witness:
  "\<forall>w. fst (dispatch (Id 1) (set_queue_generation (Id 5) demo_authorized)) \<noteq> Inr w"
proof (rule allI, rule generation_change_fences_dispatch [OF demo_stored])
  have "g_queue_gen demo_authorized = Id 0" by code_simp
  then have "(Id 5 :: QueueGeneration) \<noteq> g_queue_gen demo_authorized" by simp
  then show "set_queue_generation (Id 5) demo_authorized = advance_epoch demo_authorized \<or>
      (\<exists>x. x \<noteq> g_resource_gen demo_authorized \<and> set_queue_generation (Id 5) demo_authorized = set_resource_generation x demo_authorized) \<or>
      (\<exists>x. x \<noteq> g_queue_gen demo_authorized \<and> set_queue_generation (Id 5) demo_authorized = set_queue_generation x demo_authorized) \<or>
      (\<exists>x. x \<noteq> g_batch_gen demo_authorized \<and> set_queue_generation (Id 5) demo_authorized = set_batch_generation x demo_authorized) \<or>
      (\<exists>x. x \<noteq> g_recovery_gen demo_authorized \<and> set_queue_generation (Id 5) demo_authorized = set_recovery_generation x demo_authorized) \<or>
      (\<exists>x. x \<noteq> g_topology_gen demo_authorized \<and> set_queue_generation (Id 5) demo_authorized = set_topology_generation x demo_authorized) \<or>
      (\<exists>x. x \<noteq> g_engine_inc demo_authorized \<and> set_queue_generation (Id 5) demo_authorized = set_engine_incarnation x demo_authorized)"
    by blast
qed (use demo_frame(2) demo_frame(3) [symmetric] in \<open>simp_all add: demo_proposal_def\<close>)

text \<open>C22: Authorisation succeeds exactly for a proposal that is not \<open>NO_ACTION\<close>, is still \<open>PROPOSED\<close>, whose
  objective is in the policy, enabled and out of its cooldown, whose authority is current and whose
  type the facts allow. It then stores the proposal as authorised and starts the cooldown; a refusal
  changes nothing but the number of clock readings.\<close>

theorem authorize_is_guarded:
  "((\<exists>out. fst (authorize p g) = Inr out) \<longleftrightarrow> \<not> g_shutting_down g \<and> inv_type p \<noteq> NO_ACTION \<and>
     inv_status p = PROPOSED \<and>
     (\<exists>obj. find_objective (inv_objective p) g = Some obj \<and> o_enabled obj \<and>
        inv_authority p = current_authority obj g \<and>
        infeasibility_of (inv_type p) (g_facts g) = Infeasibility.NONE \<and> \<not> cooling obj g)) \<and>
   (\<forall>out. fst (authorize p g) = Inr out \<longrightarrow> inv_status out = AUTHORIZED \<and> inv_type out = inv_type p \<and>
     inv_authority out = inv_authority p \<and>
     om_find (g_interventions (snd (authorize p g))) = (om_find (g_interventions g))(inv_id out \<mapsto> out) \<and>
     om_find (g_last_intervention_ns (snd (authorize p g))) (inv_objective p) \<noteq> None) \<and>
   (\<forall>s. fst (authorize p g) = Inl s \<longrightarrow> (\<exists>n. snd (authorize p g) = g\<lparr>g_reads := n\<rparr>))"
proof (cases rule: authorize_cases [of p g])
  case (authorized out)
  obtain gen t where out: "out = p\<lparr>inv_status := AUTHORIZED, inv_id := fresh_id p g, inv_generation := gen, inv_proposed_at_ns := t\<rparr>"
    using authorized(3) by blast
  have "om_find (g_interventions (snd (authorize p g))) = (om_find (g_interventions g))(fresh_id p g \<mapsto> out)"
    and "om_find (g_last_intervention_ns (snd (authorize p g))) (inv_objective p) \<noteq> None"
    using authorized(4) by auto
  moreover have "inv_id out = fresh_id p g" "inv_status out = AUTHORIZED" "inv_type out = inv_type p"
    "inv_authority out = inv_authority p" by (simp_all add: out)
  ultimately show ?thesis using authorized(1,2) by (simp add: authorizable_def)
next
  case (refused s)
  then have "\<not> (\<exists>out. fst (authorize p g) = Inr out)" by simp
  with refused(1,3) show ?thesis unfolding authorizable_def by blast
qed

lemma authorize_is_guarded_witness:
  "\<exists>out. fst (authorize demo_proposal demo_governor) = Inr out \<and> inv_status out = AUTHORIZED"
proof -
  have "\<exists>out. fst (authorize demo_proposal demo_governor) = Inr out" using demo_authorizes by blast
  then show ?thesis using authorize_is_guarded [of demo_proposal demo_governor] by blast
qed

end
