(* ===== verification/Decisions.thy ===== *)
theory Decisions
  imports Lifecycle
begin

text \<open>
  The deterministic decision pipeline (\<open>TailGovernor::decide\<close> of governor.cpp): evaluate every
  objective, pick the binding one, propose and authorise its intervention.
\<close>

record InterventionDecision =
  d_evaluation :: TailEvaluation
  d_would_act :: bool
  d_intervention :: Intervention
  d_rejected_alternatives :: "RejectedAlternative list"
  d_infeasible_alternatives :: "RejectedAlternative list"

definition decision_default :: InterventionDecision where
  "decision_default = \<lparr>d_evaluation = tail_evaluation_default, d_would_act = False,
     d_intervention = intervention_default, d_rejected_alternatives = [],
     d_infeasible_alternatives = []\<rparr>"

definition degrading :: "TailEvaluation \<Rightarrow> bool" where
  "degrading ev \<longleftrightarrow> ev_state ev = VIOLATING \<or> ev_state ev = SEVERE"

text \<open>The priority the loop over the policy finds: that of the last objective with the id.\<close>

definition priority_of :: "TailObjective list \<Rightarrow> TailObjectiveId \<Rightarrow> int" where
  "priority_of objs i = foldl (\<lambda>p obj. if o_id obj = i then o_priority obj else p) 0 objs"

definition raw_excess :: "TailEvaluation \<Rightarrow> int" where
  "raw_excess ev = i64 (nanos (ev_observed ev) - nanos (ev_recovered_threshold ev))"

text \<open>Whether \<open>ev\<close> replaces the binding evaluation \<open>chosen\<close>.\<close>

definition outweighs :: "TailObjective list \<Rightarrow> TailEvaluation \<Rightarrow> TailEvaluation \<Rightarrow> bool" where
  "outweighs objs ev chosen =
     (if raw_excess ev > raw_excess chosen then True
      else if raw_excess ev = raw_excess chosen
      then let p1 = priority_of objs (ev_objective ev); p2 = priority_of objs (ev_objective chosen) in
           if p1 > p2 then True
           else p1 = p2 \<and> id_value (ev_objective ev) < id_value (ev_objective chosen)
      else False)"

fun pick_degrading :: "TailObjective list \<Rightarrow> TailEvaluation option \<Rightarrow> TailEvaluation list \<Rightarrow> TailEvaluation option" where
  "pick_degrading objs chosen [] = chosen"
| "pick_degrading objs chosen (ev # evs) =
     (if \<not> degrading ev then pick_degrading objs chosen evs
      else case chosen of
        None \<Rightarrow> pick_degrading objs (Some ev) evs
      | Some b \<Rightarrow> pick_degrading objs (Some (if outweighs objs ev b then ev else b)) evs)"

definition binding_evaluation :: "TailObjective list \<Rightarrow> TailEvaluation list \<Rightarrow> TailEvaluation option" where
  "binding_evaluation objs evs =
     (case pick_degrading objs None evs of
        Some b \<Rightarrow> Some b
      | None \<Rightarrow> find (\<lambda>ev. ev_state ev = AT_RISK) evs)"

text \<open>The category of the last dominant contributor, as the assignment in the loop leaves it.\<close>

definition last_dominant_cause :: "TailCause list \<Rightarrow> TailCauseCategory" where
  "last_dominant_cause causes = foldl (\<lambda>c cause.
     if tc_attribution cause = DOMINANT_CONTRIBUTOR then tc_category cause else c)
     TailCauseCategory.UNKNOWN causes"

definition proposal :: "TailEvaluation \<Rightarrow> Impl \<Rightarrow> Intervention \<times> Impl" where
  "proposal chosen g =
     (let cls = (case find_objective (ev_objective chosen) g of
                   Some obj \<Rightarrow> (case o_class_scope obj of Some c \<Rightarrow> c | None \<Rightarrow> Id 0) | None \<Rightarrow> Id 0);
          (t, g) = read_now g; (t', g) = read_now g
      in (intervention_default\<lparr>inv_type := ev_selected_intervention chosen, inv_target_class := cls,
            inv_target_cause := last_dominant_cause (ev_causes chosen), inv_objective := ev_objective chosen,
            inv_objective_generation := ev_objective_generation chosen, inv_authority := ev_authority chosen,
            inv_estimated_tail_effect := ev_expected_tail_reduction chosen,
            inv_confidence := fsub (lit 1 1) (ev_uncertainty chosen), inv_proposed_at_ns := t,
            inv_expiry_at_ns := i64 (t' + 5000000000),
            inv_reason := ''governed tail: '' @ InterventionType_to_string (ev_selected_intervention chosen)\<rparr>, g))"

definition decide_on :: "TailEvaluation \<Rightarrow> Impl \<Rightarrow> InterventionDecision \<times> Impl" where
  "decide_on chosen g =
     (let d = decision_default\<lparr>d_evaluation := chosen\<rparr>;
          (d, g) =
            (if ev_selected_intervention chosen \<noteq> NO_ACTION \<and> ev_sufficiency chosen = SUFFICIENT
             then let (prop, g) = proposal chosen g in
                  case authorize prop g of
                    (Inr out, g) \<Rightarrow> (d\<lparr>d_would_act := True, d_intervention := out\<rparr>, g)
                  | (Inl _, g) \<Rightarrow> (d, g)
             else (d, g))
      in (d\<lparr>d_infeasible_alternatives :=
              filter (\<lambda>ra. ra_reason ra \<noteq> Infeasibility.NONE) (ev_rejected_alternatives chosen),
            d_rejected_alternatives :=
              filter (\<lambda>ra. ra_reason ra = Infeasibility.NONE) (ev_rejected_alternatives chosen)\<rparr>, g))"

definition decide :: "Impl \<Rightarrow> InterventionDecision Result \<times> Impl" where
  "decide g =
     (if g_shutting_down g then (err StatusCode.SHUTTING_DOWN ''shutdown'', g)
      else let (evs, g) = evaluate_all g in
           case binding_evaluation (po_objectives (g_pol g)) evs of
             None \<Rightarrow> (Inr (decision_default\<lparr>d_evaluation :=
                        (case evs of [] \<Rightarrow> tail_evaluation_default | ev # _ \<Rightarrow> ev)\<rparr>), g)
           | Some chosen \<Rightarrow> (let (d, g) = decide_on chosen g in (Inr d, g)))"

subsection \<open>The binding evaluation\<close>

lemma outweighs_iff:
  "outweighs objs a b \<longleftrightarrow> raw_excess b < raw_excess a \<or> (raw_excess a = raw_excess b \<and>
     (priority_of objs (ev_objective b) < priority_of objs (ev_objective a) \<or>
      (priority_of objs (ev_objective a) = priority_of objs (ev_objective b) \<and> ev_objective a < ev_objective b)))"
  by (auto simp: outweighs_def Let_def less_Id_def)

interpretation weight: strict_weak_order "outweighs objs" "\<lambda>_. True"
  by unfold_locales (auto simp: outweighs_iff)

lemma pick_degrading_Some:
  "pick_degrading objs (Some b) evs =
     Some (foldl (\<lambda>b ev. if outweighs objs ev b then ev else b) b (filter degrading evs))"
  by (induction evs arbitrary: b) auto

lemma pick_degrading_None:
  "pick_degrading objs None evs = (case filter degrading evs of [] \<Rightarrow> None
     | b # es \<Rightarrow> Some (foldl (\<lambda>b ev. if outweighs objs ev b then ev else b) b es))"
  by (induction evs) (auto simp: pick_degrading_Some)

lemma pick_degrading_best:
  assumes "pick_degrading objs None evs = Some b"
  shows "b \<in> set evs" "degrading b" "\<forall>ev \<in> set evs. degrading ev \<longrightarrow> \<not> outweighs objs ev b"
proof -
  obtain e es where es: "filter degrading evs = e # es"
    and b: "b = foldl (\<lambda>b ev. if outweighs objs ev b then ev else b) e es"
    using assms by (auto simp: pick_degrading_None split: list.splits)
  have "b \<in> insert e (set es)" and best: "\<forall>x \<in> insert e (set es). \<not> outweighs objs x b"
    using weight.fold_least [where b = e and xs = es and objs = objs] unfolding b by auto
  then have "b \<in> set (filter degrading evs)" by (simp add: es)
  then show "b \<in> set evs" "degrading b" by auto
  have "set (filter degrading evs) = insert e (set es)" by (simp add: es)
  with best show "\<forall>ev \<in> set evs. degrading ev \<longrightarrow> \<not> outweighs objs ev b" by auto
qed

subsection \<open>The loop over the objectives\<close>

text \<open>What an evaluation does not change.\<close>

definition same_frame :: "Impl \<Rightarrow> Impl \<Rightarrow> bool" where
  "same_frame g h \<longleftrightarrow> g_cfg h = g_cfg g \<and> g_pol h = g_pol g \<and> g_facts h = g_facts g \<and>
     g_worker_boots h = g_worker_boots g \<and> g_seen h = g_seen g \<and> g_interventions h = g_interventions g \<and>
     g_last_intervention_ns h = g_last_intervention_ns g \<and> g_outcomes h = g_outcomes g \<and>
     g_resource_gen h = g_resource_gen g \<and> g_queue_gen h = g_queue_gen g \<and> g_batch_gen h = g_batch_gen g \<and>
     g_recovery_gen h = g_recovery_gen g \<and> g_topology_gen h = g_topology_gen g \<and>
     g_engine_inc h = g_engine_inc g \<and> g_shutting_down h = g_shutting_down g \<and> g_next_int_id h = g_next_int_id g"

lemma same_frame_refl [simp]: "same_frame g g"
  by (simp add: same_frame_def)

lemma same_frame_trans: "same_frame g h \<Longrightarrow> same_frame h k \<Longrightarrow> same_frame g k"
  by (simp add: same_frame_def)

lemma same_frame_evaluate: "same_frame g (snd (evaluate i g))"
  by (simp add: same_frame_def frame)

lemma same_frame_authority: "same_frame g h \<Longrightarrow> current_authority obj h = current_authority obj g"
  by (simp add: same_frame_def current_authority_def)

text \<open>An invariant that every evaluation preserves is preserved by the loop, and every evaluation it
  returns was made in a state with the same frame.\<close>

lemma evaluate_loop_invariant:
  assumes "\<And>i h. I h \<Longrightarrow> I (snd (evaluate i h))" and "I g"
  shows "I (snd (evaluate_loop objs out g))"
  using assms(2)
proof (induction objs arbitrary: out g)
  case (Cons obj objs)
  obtain r h where e: "evaluate (o_id obj) g = (r, h)" by fastforce
  have "I h" using assms(1) [OF Cons.prems, of "o_id obj"] by (simp add: e)
  then show ?case using Cons.IH Cons.prems by (simp add: e split: sum.split)
qed simp

lemma evaluate_loop_results:
  assumes "ev \<in> set (fst (evaluate_loop objs out g))"
  shows "ev \<in> set out \<or> (\<exists>obj \<in> set objs. \<exists>h. same_frame g h \<and> o_enabled obj \<and> fst (evaluate (o_id obj) h) = Inr ev)"
  using assms
proof (induction objs arbitrary: out g)
  case (Cons obj objs)
  show ?case
  proof (cases "o_enabled obj")
    case True
    obtain r h where e: "evaluate (o_id obj) g = (r, h)" by fastforce
    have f: "same_frame g h" using same_frame_evaluate [of g "o_id obj"] by (simp add: e)
    show ?thesis
    proof (cases r)
      case (Inl s)
      with Cons.prems True e have "ev \<in> set (fst (evaluate_loop objs out h))" by simp
      from Cons.IH [OF this] consider "ev \<in> set out"
        | obj' h' where "obj' \<in> set objs" "same_frame h h'" "o_enabled obj'" "fst (evaluate (o_id obj') h') = Inr ev"
        by auto
      then show ?thesis
      proof cases
        case 2
        then show ?thesis using same_frame_trans [OF f 2(2)] by (intro disjI2 bexI [of _ obj'] exI [of _ h']) auto
      qed simp
    next
      case (Inr x)
      with Cons.prems True e have "ev \<in> set (fst (evaluate_loop objs (out @ [x]) h))" by simp
      from Cons.IH [OF this] consider "ev \<in> set out" | "ev = x"
        | obj' h' where "obj' \<in> set objs" "same_frame h h'" "o_enabled obj'" "fst (evaluate (o_id obj') h') = Inr ev"
        by auto
      then show ?thesis
      proof cases
        case 2
        then show ?thesis using True e Inr same_frame_refl [of g] by (intro disjI2 bexI [of _ obj] exI [of _ g]) auto
      next
        case 3
        then show ?thesis using same_frame_trans [OF f 3(2)] by (intro disjI2 bexI [of _ obj'] exI [of _ h']) auto
      qed simp
    qed
  next
    case False
    then show ?thesis using Cons.IH [of out g] Cons.prems by auto
  qed
qed simp

lemma evaluate_all_results:
  assumes "ev \<in> set (fst (evaluate_all g))"
  obtains obj h where "obj \<in> set (po_objectives (g_pol g))" and "o_enabled obj" and "same_frame g h"
    and "fst (evaluate (o_id obj) h) = Inr ev"
  using evaluate_loop_results [of ev "po_objectives (g_pol g)" "[]" g] assms by (auto simp: evaluate_all_def)

lemma same_frame_evaluate_all: "same_frame g (snd (evaluate_all g))"
  unfolding evaluate_all_def
  by (rule evaluate_loop_invariant [where I = "same_frame g"]) (auto intro: same_frame_trans same_frame_evaluate)


lemma find_objective_frame: "same_frame g h \<Longrightarrow> find_objective i h = find_objective i g"
  by (simp add: same_frame_def find_objective_def)

lemma evaluate_result:
  assumes "fst (evaluate i h) = Inr ev"
  obtains obj where "find_objective i h = Some obj" and "o_enabled obj" and "ev_objective ev = i"
    and "ev_authority ev = current_authority obj h" and "\<not> g_shutting_down h"
proof (cases rule: evaluate_cases [of h i])
  case (evaluated obj)
  then have ev: "ev = evaluation_of obj h" using assms by simp
  have "ev_objective ev = o_id obj" "ev_authority ev = current_authority obj h"
    by (simp_all add: ev base_evaluation_def measured_def Let_def split_beta)
  then show thesis using that [OF evaluated(2,3)] find_objective_id [OF evaluated(2)] evaluated(1) by simp
qed (use assms in auto)

text \<open>What holds of each evaluation the loop returns, read off the governor the loop started from.\<close>

lemma evaluate_all_current:
  assumes "ev \<in> set (fst (evaluate_all g))"
  obtains obj where "find_objective (ev_objective ev) g = Some obj" and "o_enabled obj"
    and "ev_authority ev = current_authority obj g"
proof -
  from assms obtain o' h where "o' \<in> set (po_objectives (g_pol g))" and "o_enabled o'" and h: "same_frame g h" and e: "fst (evaluate (o_id o') h) = Inr ev"
    by (rule evaluate_all_results)
  from e obtain obj where "find_objective (o_id o') h = Some obj" "o_enabled obj" "ev_objective ev = o_id o'"
    "ev_authority ev = current_authority obj h" by (rule evaluate_result)
  then show thesis using that find_objective_frame [OF h] same_frame_authority [OF h] by simp
qed

lemma evaluate_all_selected:
  assumes "ev \<in> set (fst (evaluate_all g))" and "ev_selected_intervention ev \<noteq> NO_ACTION"
  shows "ev_state ev \<in> {VIOLATING, SEVERE, AT_RISK} \<and> ev_sufficiency ev = SUFFICIENT \<and>
    infeasibility_of (ev_selected_intervention ev) (g_facts g) = Infeasibility.NONE"
proof -
  from assms(1) obtain o' h where "o' \<in> set (po_objectives (g_pol g))" and "o_enabled o'" and h: "same_frame g h" and e: "fst (evaluate (o_id o') h) = Inr ev"
    by (rule evaluate_all_results)
  have "g_facts h = g_facts g" using h by (simp add: same_frame_def)
  then show ?thesis using selected_for_a_tail [OF e assms(2)] by simp
qed

subsection \<open>What a decision does\<close>

lemma read_now_snd: "snd (read_now g) = g\<lparr>g_reads := Suc (g_reads g)\<rparr>"
  by (simp add: read_now_def)

lemma proposal_value:
  obtains n where "snd (proposal chosen g) = g\<lparr>g_reads := n\<rparr>"
    and "inv_type (fst (proposal chosen g)) = ev_selected_intervention chosen"
    and "inv_status (fst (proposal chosen g)) = PROPOSED" and "inv_id (fst (proposal chosen g)) = Id 0"
    and "inv_objective (fst (proposal chosen g)) = ev_objective chosen"
    and "inv_authority (fst (proposal chosen g)) = ev_authority chosen"
proof
  show "snd (proposal chosen g) = g\<lparr>g_reads := Suc (Suc (g_reads g))\<rparr>"
    by (simp add: proposal_def read_now_def)
  show "inv_type (fst (proposal chosen g)) = ev_selected_intervention chosen"
    by (simp add: proposal_def read_now_def)
  show "inv_objective (fst (proposal chosen g)) = ev_objective chosen"
    by (simp add: proposal_def read_now_def)
  show "inv_authority (fst (proposal chosen g)) = ev_authority chosen"
    by (simp add: proposal_def read_now_def)
  show "inv_status (fst (proposal chosen g)) = PROPOSED" "inv_id (fst (proposal chosen g)) = Id 0"
    by (simp_all add: proposal_def read_now_def intervention_default_def)
qed

lemma decide_on_evaluation [simp]: "d_evaluation (fst (decide_on chosen g)) = chosen"
  by (simp add: decide_on_def Let_def decision_default_def split: prod.split sum.split)

text \<open>A decision acts, and then stores and returns one new authorised intervention, or it leaves
  everything but the clock readings as it was.\<close>

lemma decide_on_cases:
  obtains (acts) p h v where "d_would_act (fst (decide_on chosen g))"
      and "ev_selected_intervention chosen \<noteq> NO_ACTION" and "ev_sufficiency chosen = SUFFICIENT"
      and "p = fst (proposal chosen g)" and "h = snd (proposal chosen g)"
      and "fst (authorize p h) = Inr v" and "d_intervention (fst (decide_on chosen g)) = v"
      and "snd (decide_on chosen g) = snd (authorize p h)"
  | (rests) n where "\<not> d_would_act (fst (decide_on chosen g))" and "snd (decide_on chosen g) = g\<lparr>g_reads := n\<rparr>"
proof (cases "ev_selected_intervention chosen \<noteq> NO_ACTION \<and> ev_sufficiency chosen = SUFFICIENT")
  case True
  obtain p h where ph: "proposal chosen g = (p, h)" by fastforce
  obtain n where h: "h = g\<lparr>g_reads := n\<rparr>" using proposal_value [of chosen g] ph by (metis snd_conv)
  show thesis
  proof (cases rule: authorize_cases [of p h])
    case (authorized out)
    obtain k where k: "authorize p h = (Inr out, k)" using authorized(2) by (cases "authorize p h") simp
    have r: "snd (decide_on chosen g) = k" "d_would_act (fst (decide_on chosen g))"
      "d_intervention (fst (decide_on chosen g)) = out"
      using True by (simp_all add: decide_on_def ph k)
    show thesis
    proof (rule acts)
      show "d_would_act (fst (decide_on chosen g))" "d_intervention (fst (decide_on chosen g)) = out"
        by (fact r)+
      show "ev_selected_intervention chosen \<noteq> NO_ACTION" "ev_sufficiency chosen = SUFFICIENT" using True by auto
      show "p = fst (proposal chosen g)" "h = snd (proposal chosen g)" by (simp_all add: ph)
      show "fst (authorize p h) = Inr out" "snd (decide_on chosen g) = snd (authorize p h)" by (simp_all add: k r)
    qed
  next
    case (refused s)
    then obtain m where k: "authorize p h = (Inl s, g\<lparr>g_reads := m\<rparr>)"
      using h by (cases "authorize p h") auto
    have "\<not> d_would_act (fst (decide_on chosen g))" and "snd (decide_on chosen g) = g\<lparr>g_reads := m\<rparr>"
      using True by (simp_all add: decide_on_def ph k decision_default_def)
    then show thesis by (rule rests)
  qed
next
  case False
  have "\<not> d_would_act (fst (decide_on chosen g))" and "snd (decide_on chosen g) = g\<lparr>g_reads := g_reads g\<rparr>"
    unfolding decide_on_def if_not_P [OF False] by (simp_all add: Let_def decision_default_def)
  then show thesis by (rule rests)
qed

lemma decide_cases:
  obtains (shutdown) "g_shutting_down g" and "decide g = (err StatusCode.SHUTTING_DOWN ''shutdown'', g)"
  | (quiet) d where "\<not> g_shutting_down g" and "fst (decide g) = Inr d" and "\<not> d_would_act d"
      and "binding_evaluation (po_objectives (g_pol g)) (fst (evaluate_all g)) = None"
      and "d_evaluation d = (case fst (evaluate_all g) of [] \<Rightarrow> tail_evaluation_default | ev # _ \<Rightarrow> ev)"
      and "snd (decide g) = snd (evaluate_all g)"
  | (binding) b where "\<not> g_shutting_down g" and "fst (decide g) = Inr (fst (decide_on b (snd (evaluate_all g))))"
      and "binding_evaluation (po_objectives (g_pol g)) (fst (evaluate_all g)) = Some b"
      and "snd (decide g) = snd (decide_on b (snd (evaluate_all g)))"
proof (cases "g_shutting_down g")
  case True
  then show thesis using shutdown by (simp add: decide_def)
next
  case False
  obtain evs h where e: "evaluate_all g = (evs, h)" by fastforce
  have p: "g_pol h = g_pol g" using same_frame_evaluate_all [of g] by (simp add: e same_frame_def)
  show thesis
  proof (cases "binding_evaluation (po_objectives (g_pol g)) evs")
    case None
    then show thesis using quiet False by (simp add: decide_def e p decision_default_def)
  next
    case (Some b)
    then show thesis using binding False by (simp add: decide_def e p split_beta)
  qed
qed

lemma binding_evaluation_member: "binding_evaluation objs evs = Some b \<Longrightarrow> b \<in> set evs"
  by (auto simp: binding_evaluation_def find_Some_iff dest: pick_degrading_best(1) split: option.splits)

lemma pick_degrading_None_iff: "pick_degrading objs None evs = None \<longleftrightarrow> (\<forall>ev \<in> set evs. \<not> degrading ev)"
  by (auto simp: pick_degrading_None filter_empty_conv split: list.splits dest: filter_eq_ConsD)

text \<open>The governor after a decision that acts, from the evaluation that binds.\<close>

lemma decide_on_acts:
  assumes "d_would_act (fst (decide_on b h))" and "v = d_intervention (fst (decide_on b h))"
  shows "inv_id v = Id (g_next_int_id h) \<and> inv_status v = AUTHORIZED \<and>
      inv_type v = ev_selected_intervention b \<and> inv_objective v = ev_objective b \<and> inv_authority v = ev_authority b \<and>
      ev_selected_intervention b \<noteq> NO_ACTION \<and> ev_sufficiency b = SUFFICIENT \<and> \<not> g_shutting_down h" (is ?A)
    and "\<exists>k t. snd (decide_on b h) = h\<lparr>g_next_int_id := g_next_int_id h + 1, g_reads := k,
       g_interventions := om_put (Id (g_next_int_id h)) v (g_interventions h),
       g_last_intervention_ns := om_put (ev_objective b) t (g_last_intervention_ns h)\<rparr>" (is ?B)
proof -
  have "?A \<and> ?B"
  proof (cases rule: decide_on_cases [of b h])
    case (acts p k v')
    have v: "v' = v" using acts(7) assms(2) by simp
    obtain n where n: "k = h\<lparr>g_reads := n\<rparr>" and p: "inv_type p = ev_selected_intervention b" "inv_id p = Id 0"
      "inv_objective p = ev_objective b" "inv_authority p = ev_authority b"
      using proposal_value [of b h] unfolding acts(4,5) by blast
    show ?thesis
    proof (cases rule: authorize_cases [of p k])
      case (authorized out)
      have out: "out = v" using authorized(2) acts(6) v by simp
      have f: "fresh_id p k = Id (g_next_int_id h)" by (simp add: fresh_id_def p n)
      obtain gen t where o: "v = p\<lparr>inv_status := AUTHORIZED, inv_id := Id (g_next_int_id h),
          inv_generation := gen, inv_proposed_at_ns := t\<rparr>"
        using authorized(3) unfolding out f by blast
      obtain m t' where s: "snd (authorize p k) = k\<lparr>g_next_int_id := (if inv_id p = Id 0 then g_next_int_id k + 1 else g_next_int_id k),
         g_reads := m, g_interventions := om_put (Id (g_next_int_id h)) v (g_interventions k),
         g_last_intervention_ns := om_put (inv_objective p) t' (g_last_intervention_ns k)\<rparr>"
        using authorized(4) unfolding out f by blast
      have "?A" using authorized(1) acts(2,3) by (simp add: o p n authorizable_def)
      moreover have "snd (decide_on b h) = h\<lparr>g_next_int_id := g_next_int_id h + 1, g_reads := m,
         g_interventions := om_put (Id (g_next_int_id h)) v (g_interventions h),
         g_last_intervention_ns := om_put (ev_objective b) t' (g_last_intervention_ns h)\<rparr>"
        unfolding acts(8) s by (simp add: n p)
      ultimately show ?thesis by blast
    next
      case (refused s)
      then show ?thesis using acts(6) by simp
    qed
  qed (use assms(1) in simp)
  then show ?A ?B by blast+
qed

text \<open>The same for a decision, read off the governor before it.\<close>

lemma decide_acts:
  assumes "fst (decide g) = Inr d" and "d_would_act d" and "v = d_intervention d"
  obtains obj k t h where "inv_id v = Id (g_next_int_id g)" and "inv_status v = AUTHORIZED"
    and "inv_type v = ev_selected_intervention (d_evaluation d)" and "inv_objective v = ev_objective (d_evaluation d)"
    and "ev_state (d_evaluation d) \<in> {VIOLATING, SEVERE, AT_RISK}" and "ev_sufficiency (d_evaluation d) = SUFFICIENT"
    and "infeasibility_of (inv_type v) (g_facts g) = Infeasibility.NONE"
    and "find_objective (inv_objective v) g = Some obj" and "o_enabled obj"
    and "inv_authority v = current_authority obj g" and "same_frame g h" and "\<not> g_shutting_down g"
    and "snd (decide g) = h\<lparr>g_next_int_id := g_next_int_id g + 1, g_reads := k,
       g_interventions := om_put (Id (g_next_int_id g)) v (g_interventions g),
       g_last_intervention_ns := om_put (inv_objective v) t (g_last_intervention_ns g)\<rparr>"
proof (cases rule: decide_cases [of g])
  case (binding b)
  let ?h = "snd (evaluate_all g)"
  have d: "d = fst (decide_on b ?h)" using binding(2) assms(1) by simp
  have b: "d_evaluation d = b" by (simp add: d)
  have mem: "b \<in> set (fst (evaluate_all g))" by (rule binding_evaluation_member [OF binding(3)])
  have h: "same_frame g ?h" by (rule same_frame_evaluate_all)
  have n: "g_next_int_id ?h = g_next_int_id g" "g_interventions ?h = g_interventions g"
    "g_last_intervention_ns ?h = g_last_intervention_ns g" using h by (simp_all add: same_frame_def)
  note a = decide_on_acts [of b ?h v, folded d, OF assms(2,3), unfolded n]
  have sel: "ev_selected_intervention b \<noteq> NO_ACTION" using a(1) by blast
  obtain obj where obj: "find_objective (ev_objective b) g = Some obj" "o_enabled obj"
    "ev_authority b = current_authority obj g" by (rule evaluate_all_current [OF mem])
  obtain k t where s: "snd (decide g) = ?h\<lparr>g_next_int_id := g_next_int_id g + 1, g_reads := k,
       g_interventions := om_put (Id (g_next_int_id g)) v (g_interventions g),
       g_last_intervention_ns := om_put (ev_objective b) t (g_last_intervention_ns g)\<rparr>"
    using a(2) binding(4) by auto
  have e: "inv_id v = Id (g_next_int_id g)" "inv_status v = AUTHORIZED" "inv_type v = ev_selected_intervention b"
    "inv_objective v = ev_objective b" "inv_authority v = ev_authority b" using a(1) by blast+
  show thesis
    by (rule that [where obj = obj and h = ?h and k = k and t = t])
      (use e obj evaluate_all_selected [OF mem sel] h s binding(1) in \<open>simp_all add: b\<close>)
qed (use assms in auto)

lemma decide_rests:
  assumes "fst (decide g) = Inr d" and "\<not> d_would_act d"
  shows "same_frame g (snd (decide g))"
proof (cases rule: decide_cases [of g])
  case (quiet d')
  then show ?thesis using same_frame_evaluate_all [of g] by simp
next
  case (binding b)
  let ?h = "snd (evaluate_all g)"
  have d: "d = fst (decide_on b ?h)" using binding(2) assms(1) by simp
  show ?thesis
  proof (cases rule: decide_on_cases [of b ?h])
    case (rests n)
    have "same_frame ?h (?h\<lparr>g_reads := n\<rparr>)" by (simp add: same_frame_def)
    then show ?thesis using same_frame_trans [OF same_frame_evaluate_all] by (simp add: binding(4) rests(2))
  qed (use assms(2) d in simp)
qed (use assms in auto)

lemma outweighs_excess: "\<not> outweighs objs a b \<Longrightarrow> raw_excess a \<le> raw_excess b"
  by (auto simp: outweighs_iff)

text \<open>C6: A decision is about the worst tail. When some objective violates its target, the evaluation it
  reports is a violating one that no other violating one outweighs, by its distance from the recovery
  threshold, then the objective's priority, then the smaller identity. Otherwise it is the first
  evaluation at risk, and when there is none either, nothing is done.\<close>

theorem decide_acts_on_the_worst:
  assumes "fst (decide g) = Inr d" and "evs = fst (evaluate_all g)" and "objs = po_objectives (g_pol g)"
  shows "((\<exists>ev \<in> set evs. degrading ev) \<longrightarrow> d_evaluation d \<in> set evs \<and> degrading (d_evaluation d) \<and>
      (\<forall>ev \<in> set evs. degrading ev \<longrightarrow> raw_excess ev < raw_excess (d_evaluation d) \<or>
        (raw_excess ev = raw_excess (d_evaluation d) \<and>
          (priority_of objs (ev_objective ev) < priority_of objs (ev_objective (d_evaluation d)) \<or>
           (priority_of objs (ev_objective ev) = priority_of objs (ev_objective (d_evaluation d)) \<and>
            ev_objective (d_evaluation d) \<le> ev_objective ev))))) \<and>
    (\<not> (\<exists>ev \<in> set evs. degrading ev) \<and> (\<exists>ev \<in> set evs. ev_state ev = AT_RISK) \<longrightarrow>
      Some (d_evaluation d) = find (\<lambda>ev. ev_state ev = AT_RISK) evs) \<and>
    (\<not> (\<exists>ev \<in> set evs. degrading ev \<or> ev_state ev = AT_RISK) \<longrightarrow>
      \<not> d_would_act d \<and> g_interventions (snd (decide g)) = g_interventions g)"
proof (cases rule: decide_cases [of g])
  case (quiet d')
  have f: "g_interventions (snd (evaluate_all g)) = g_interventions g"
    using same_frame_evaluate_all [of g] by (simp add: same_frame_def)
  have "pick_degrading objs None evs = None" and "find (\<lambda>ev. ev_state ev = AT_RISK) evs = None"
    using quiet(4) assms by (auto simp: binding_evaluation_def split: option.splits)
  then show ?thesis
    using quiet assms(1) f unfolding pick_degrading_None_iff by (auto simp: find_None_iff)
next
  case (binding b)
  have d: "d_evaluation d = b" using binding(2) assms(1) by auto
  show ?thesis
  proof (cases "pick_degrading objs None evs")
    case None
    then have "find (\<lambda>ev. ev_state ev = AT_RISK) evs = Some b"
      using binding(3) assms(2,3) by (simp add: binding_evaluation_def)
    moreover have "\<not> (\<exists>ev \<in> set evs. degrading ev)" using None unfolding pick_degrading_None_iff by blast
    moreover have "b \<in> set evs \<and> ev_state b = AT_RISK"
      using calculation(1) by (auto simp: find_Some_iff)
    ultimately show ?thesis unfolding d by auto
  next
    case (Some c)
    then have p: "pick_degrading objs None evs = Some b" using binding(3) assms by (simp add: binding_evaluation_def)
    note best = pick_degrading_best [OF p]
    have "\<forall>ev \<in> set evs. degrading ev \<longrightarrow> raw_excess ev < raw_excess b \<or> (raw_excess ev = raw_excess b \<and>
          (priority_of objs (ev_objective ev) < priority_of objs (ev_objective b) \<or>
           (priority_of objs (ev_objective ev) = priority_of objs (ev_objective b) \<and> ev_objective b \<le> ev_objective ev)))"
      using best(3) unfolding outweighs_iff by (metis linorder_less_linear linorder_not_less)
    then show ?thesis unfolding d using best(1,2) by auto
  qed
qed (use assms(1) in auto)

text \<open>C21: A decision acts only with authority. When it acts, one new intervention is stored as authorised:
  it is the one selected for the reported evaluation, which has sufficient evidence of a tail at risk
  or violating; the facts allow it, its objective is enabled and the authority it carries is the
  current one. When it does not act no intervention is added or changed.\<close>

theorem decide_acts_only_with_authority:
  assumes "fst (decide g) = Inr d" and "v = d_intervention d"
  shows "(d_would_act d \<longrightarrow>
      om_find (g_interventions (snd (decide g))) = (om_find (g_interventions g))(Id (g_next_int_id g) \<mapsto> v) \<and>
      inv_id v = Id (g_next_int_id g) \<and> inv_status v = AUTHORIZED \<and>
      inv_type v = ev_selected_intervention (d_evaluation d) \<and> inv_objective v = ev_objective (d_evaluation d) \<and>
      ev_state (d_evaluation d) \<in> {VIOLATING, SEVERE, AT_RISK} \<and> ev_sufficiency (d_evaluation d) = SUFFICIENT \<and>
      infeasibility_of (inv_type v) (g_facts g) = Infeasibility.NONE \<and>
      (\<exists>obj. find_objective (inv_objective v) g = Some obj \<and> o_enabled obj \<and>
         inv_authority v = current_authority obj g)) \<and>
    (\<not> d_would_act d \<longrightarrow> g_interventions (snd (decide g)) = g_interventions g)"
proof (cases "d_would_act d")
  case True
  obtain obj k t h where a: "inv_id v = Id (g_next_int_id g)" "inv_status v = AUTHORIZED"
    "inv_type v = ev_selected_intervention (d_evaluation d)" "inv_objective v = ev_objective (d_evaluation d)"
    "ev_state (d_evaluation d) \<in> {VIOLATING, SEVERE, AT_RISK}" "ev_sufficiency (d_evaluation d) = SUFFICIENT"
    "infeasibility_of (inv_type v) (g_facts g) = Infeasibility.NONE"
    "find_objective (inv_objective v) g = Some obj" "o_enabled obj" "inv_authority v = current_authority obj g"
    "snd (decide g) = h\<lparr>g_next_int_id := g_next_int_id g + 1, g_reads := k,
       g_interventions := om_put (Id (g_next_int_id g)) v (g_interventions g),
       g_last_intervention_ns := om_put (inv_objective v) t (g_last_intervention_ns g)\<rparr>"
    by (rule decide_acts [OF assms(1) True assms(2)])
  show ?thesis using True a by auto
next
  case False
  then show ?thesis using decide_rests [OF assms(1)] by (simp add: same_frame_def)
qed

text \<open>What a decision authorises can be dispatched: handing the returned intervention to \<open>dispatch\<close>
  right after the decision succeeds and stores it as dispatched. The pipeline never authorises an
  intervention it would then have to refuse.\<close>

theorem decided_intervention_dispatches:
  assumes "fst (decide g) = Inr d" and "d_would_act d" and "v = d_intervention d"
  shows "fst (dispatch (inv_id v) (snd (decide g))) = Inr (v\<lparr>inv_status := DISPATCHED\<rparr>)"
proof -
  obtain obj k t h where a: "inv_id v = Id (g_next_int_id g)" "inv_status v = AUTHORIZED"
    "infeasibility_of (inv_type v) (g_facts g) = Infeasibility.NONE"
    "find_objective (inv_objective v) g = Some obj" "o_enabled obj" "inv_authority v = current_authority obj g"
    and h: "same_frame g h" "\<not> g_shutting_down g" and s: "snd (decide g) = h\<lparr>g_next_int_id := g_next_int_id g + 1,
       g_reads := k, g_interventions := om_put (Id (g_next_int_id g)) v (g_interventions g),
       g_last_intervention_ns := om_put (inv_objective v) t (g_last_intervention_ns g)\<rparr>"
    by (rule decide_acts [OF assms])
  let ?g' = "snd (decide g)"
  have "om_find (g_interventions ?g') (inv_id v) = Some v" by (simp add: s a(1))
  moreover have "find_objective (inv_objective v) ?g' = Some obj"
    using a(4) h(1) by (simp add: s find_objective_def same_frame_def)
  moreover have "current_authority obj ?g' = current_authority obj g"
    using h(1) by (simp add: s current_authority_def same_frame_def)
  moreover have "g_facts ?g' = g_facts g" "\<not> g_shutting_down ?g'" using h by (simp_all add: s same_frame_def)
  ultimately show ?thesis using a by (auto simp: dispatch_iff dispatchable_def)
qed

subsection \<open>A decision that acts\<close>

definition demo_decision :: InterventionDecision where
  "demo_decision = (case fst (decide demo_loaded) of Inr d \<Rightarrow> d | Inl _ \<Rightarrow> decision_default)"

lemma demo_policy: "po_objectives (g_pol demo_loaded) = [demo_objective]"
  "\<not> g_shutting_down demo_loaded" "om_find (g_last_intervention_ns demo_loaded) (Id 1) = None"
  by code_simp+

lemma demo_objective_fields: "o_id demo_objective = Id 1" "o_enabled demo_objective"
  by (simp_all add: demo_objective_def tail_objective_default_def)

lemma demo_evaluate_all: "fst (evaluate_all demo_loaded) = [evaluation_of demo_objective demo_loaded]"
proof -
  obtain h where "evaluate (Id 1) demo_loaded = (Inr (evaluation_of demo_objective demo_loaded), h)"
    using demo_evaluated by (cases "evaluate (Id 1) demo_loaded") simp
  then show ?thesis by (simp add: evaluate_all_def demo_policy demo_objective_fields)
qed

lemma demo_degrading: "degrading (evaluation_of demo_objective demo_loaded)"
  by (simp add: degrading_def demo_severe)

lemma demo_binding:
  "binding_evaluation (po_objectives (g_pol demo_loaded)) (fst (evaluate_all demo_loaded)) =
     Some (evaluation_of demo_objective demo_loaded)"
  using demo_degrading by (simp add: binding_evaluation_def demo_evaluate_all)

lemma demo_decides: "fst (decide demo_loaded) = Inr demo_decision"
  by (cases rule: decide_cases [of demo_loaded]) (simp_all add: demo_decision_def demo_policy)

lemma demo_decision_value:
  "demo_decision = fst (decide_on (evaluation_of demo_objective demo_loaded) (snd (evaluate_all demo_loaded)))"
  using demo_decides demo_binding by (cases rule: decide_cases [of demo_loaded]) (auto simp: demo_policy)

lemma demo_acts: "d_would_act demo_decision"
proof (rule ccontr)
  assume no: "\<not> d_would_act demo_decision"
  let ?b = "evaluation_of demo_objective demo_loaded" and ?h = "snd (evaluate_all demo_loaded)"
  have h: "same_frame demo_loaded ?h" by (rule same_frame_evaluate_all)
  obtain n where ph: "snd (proposal ?b ?h) = ?h\<lparr>g_reads := n\<rparr>"
    and p: "inv_type (fst (proposal ?b ?h)) = ev_selected_intervention ?b"
      "inv_status (fst (proposal ?b ?h)) = PROPOSED" "inv_objective (fst (proposal ?b ?h)) = ev_objective ?b"
      "inv_authority (fst (proposal ?b ?h)) = ev_authority ?b"
    by (rule proposal_value [of ?b ?h])
  have b: "ev_objective (base_evaluation demo_objective demo_loaded) = Id 1"
    "ev_authority (base_evaluation demo_objective demo_loaded) = current_authority demo_objective demo_loaded"
    by (simp_all add: base_evaluation_def measured_def Let_def split_beta demo_objective_fields)
  have f: "infeasibility_of (ev_selected_intervention ?b) (g_facts demo_loaded) = Infeasibility.NONE"
    using selected_for_a_tail [OF demo_evaluated demo_selected] by blast
  have "\<not> cooling demo_objective (snd (proposal ?b ?h))"
    using demo_policy(3) h by (simp add: cooling_def ph same_frame_def demo_objective_fields)
  moreover have "find_objective (Id 1) (snd (proposal ?b ?h)) = Some demo_objective"
    using h demo_found by (simp add: ph find_objective_def same_frame_def)
  moreover have "current_authority demo_objective (snd (proposal ?b ?h)) = current_authority demo_objective demo_loaded"
    using h by (simp add: ph current_authority_def same_frame_def)
  moreover have "\<not> g_shutting_down (snd (proposal ?b ?h))" "g_facts (snd (proposal ?b ?h)) = g_facts demo_loaded"
    using h demo_policy(2) by (simp_all add: ph same_frame_def)
  ultimately have ok: "authorizable (fst (proposal ?b ?h)) (snd (proposal ?b ?h))"
    using demo_selected f by (simp add: authorizable_def p b demo_objective_fields)
  have s: "ev_sufficiency ?b = SUFFICIENT" using demo_sufficient by simp
  show False
  proof (cases rule: authorize_cases [of "fst (proposal ?b ?h)" "snd (proposal ?b ?h)"])
    case (authorized out)
    then obtain k where "authorize (fst (proposal ?b ?h)) (snd (proposal ?b ?h)) = (Inr out, k)"
      by (cases "authorize (fst (proposal ?b ?h)) (snd (proposal ?b ?h))") simp
    then have "d_would_act (fst (decide_on ?b ?h))"
      using demo_selected s by (simp add: decide_on_def split_beta)
    then show False using no by (simp add: demo_decision_value)
  qed (use ok in simp)
qed

lemma decide_acts_on_the_worst_witness:
  "d_evaluation demo_decision = evaluation_of demo_objective demo_loaded \<and> degrading (d_evaluation demo_decision)"
  using decide_acts_on_the_worst [OF demo_decides refl refl] demo_degrading by (simp add: demo_evaluate_all)

lemma decide_acts_only_with_authority_witness:
  "inv_status (d_intervention demo_decision) = AUTHORIZED \<and>
   inv_type (d_intervention demo_decision) \<noteq> NO_ACTION \<and>
   om_find (g_interventions (snd (decide demo_loaded))) (Id (g_next_int_id demo_loaded)) = Some (d_intervention demo_decision)"
proof -
  have "d_evaluation demo_decision = evaluation_of demo_objective demo_loaded" by (simp add: demo_decision_value)
  then show ?thesis
    using decide_acts_only_with_authority [OF demo_decides refl] demo_acts demo_selected by auto
qed

lemma decided_intervention_dispatches_witness:
  "\<exists>w. fst (dispatch (inv_id (d_intervention demo_decision)) (snd (decide demo_loaded))) = Inr w \<and>
     inv_status w = DISPATCHED"
  using decided_intervention_dispatches [OF demo_decides demo_acts refl] by simp

end
