(* ===== verification/Codecs.thy ===== *)
theory Codecs
  imports Identity Durations Enums Binary64
begin

text \<open>
  The fields that both the state file and the wire protocol consist of: identities, durations and
  doubles, each with its codec.
\<close>

definition put_id :: "'tag Id \<Rightarrow> byte list" where "put_id i = put_u64 (id_value i)"
definition get_id :: "(Reader, 'tag Id) state" where
  "get_id = do { w \<leftarrow> get_u64; State_Monad.return (Id w) }"

definition put_duration :: "Duration \<Rightarrow> byte list" where "put_duration d = put_i64 (nanos d)"
definition get_duration :: "(Reader, Duration) state" where
  "get_duration = do { n \<leftarrow> get_i64; State_Monad.return (Duration n) }"

text \<open>A double is stored as its bit pattern, which is how the model represents it.\<close>

definition put_f64 :: "double \<Rightarrow> byte list" where "put_f64 v = put_u64 v"
definition get_f64 :: "(Reader, double) state" where "get_f64 = get_u64"

interpretation id_codec: fixed_codec put_id get_id "\<lambda>_. True" 8
proof unfold_locales
  show "\<not> rd_ok (snd (run_state get_id (reading bs ok)))" if "length bs < 8" for bs ok
    using u64.short [OF that, of ok] by (simp add: get_id_def split_beta)
qed (simp_all add: put_id_def get_id_def u64.decode u64.enc_length)

interpretation duration_codec: fixed_codec put_duration get_duration "\<lambda>d. in_i64 (nanos d)" 8
proof unfold_locales
  show "\<not> rd_ok (snd (run_state get_duration (reading bs ok)))" if "length bs < 8" for bs ok
    using i64.short [OF that, of ok] by (simp add: get_duration_def split_beta)
qed (simp_all add: put_duration_def get_duration_def i64.decode i64.enc_length)

interpretation f64_codec: fixed_codec put_f64 get_f64 "\<lambda>_. True" 8
  by unfold_locales (simp_all add: put_f64_def get_f64_def u64.decode u64.enc_length u64.short)

lemmas field_decode [codec] = codec_decode id_codec.decode duration_codec.decode f64_codec.decode

lemmas field_length [codec] = codec_length id_codec.enc_length duration_codec.enc_length f64_codec.enc_length

end
