(* ===== verification/Crc32.thy ===== *)
theory Crc32
  imports Bytes
begin

text \<open>
  The bitwise CRC-32 (IEEE, reflected polynomial) that guards the state file and the frames of the
  wire protocol. The step on the register is a linear bijection, so a change confined to four
  consecutive bytes always changes the checksum.
\<close>

definition crc_bit :: "u32 \<Rightarrow> u32" where
  "crc_bit crc = (let mask = - (crc AND 1) in drop_bit 1 crc XOR (0xEDB88320 AND mask))"

text \<open>The inner loop, once per bit of a byte.\<close>

fun crc_bits :: "nat \<Rightarrow> u32 \<Rightarrow> u32" where
  "crc_bits 0 crc = crc"
| "crc_bits (Suc n) crc = crc_bits n (crc_bit crc)"

definition crc_byte :: "u32 \<Rightarrow> byte \<Rightarrow> u32" where
  "crc_byte crc b = crc_bits 8 (crc XOR ucast b)"

definition crc32_from :: "u32 \<Rightarrow> byte list \<Rightarrow> u32" where
  "crc32_from crc data = foldl crc_byte crc data XOR 0xFFFFFFFF"

definition crc32 :: "byte list \<Rightarrow> u32" where
  "crc32 data = crc32_from 0xFFFFFFFF data"

text \<open>The published checksum of the ASCII digit 1.\<close>

lemma crc32_check_value: "crc32 [49] = 0x83DCEFB7"
  by code_simp

subsection \<open>The step is linear and injective\<close>

lemma crc_bit_alt:
  "crc_bit c = drop_bit 1 c XOR (if bit c 0 then 0xEDB88320 else 0)"
  by (simp add: crc_bit_def Let_def and_one_eq mod_2_eq_odd bit_0)

lemma bit_crc_bit:
  "bit (crc_bit c) n \<longleftrightarrow> bit c (Suc n) \<noteq> (bit c 0 \<and> bit (0xEDB88320 :: u32) n)"
  by (simp add: crc_bit_alt bit_xor_iff bit_drop_bit_eq)

lemma crc_bit_xor: "crc_bit (a XOR b) = crc_bit a XOR crc_bit b"
  by (rule bit_word_eqI) (auto simp: bit_crc_bit bit_xor_iff)

lemma crc_bits_xor: "crc_bits n (a XOR b) = crc_bits n a XOR crc_bits n b"
  by (induction n arbitrary: a b) (simp_all add: crc_bit_xor)

lemma crc_bits_add: "crc_bits (m + n) c = crc_bits n (crc_bits m c)"
  by (induction m arbitrary: c) simp_all

lemma crc_bit_eq_0:
  assumes "crc_bit c = 0"
  shows "c = 0"
proof -
  have z: "bit c (Suc n) = (bit c 0 \<and> bit (0xEDB88320 :: u32) n)" for n
    using bit_crc_bit [of c n] assms by auto
  have "\<not> bit c 32" using bit_imp_le_length [of c 32] by auto
  moreover have "bit (0xEDB88320 :: u32) 31" by simp
  ultimately have b0: "\<not> bit c 0" using z [of 31] by simp
  have "\<not> bit c n" for n
    using b0 z by (cases n) simp_all
  then show ?thesis by (intro bit_word_eqI) simp
qed

lemma crc_bits_eq_0: "crc_bits n c = 0 \<Longrightarrow> c = 0"
  by (induction n arbitrary: c) (auto dest: crc_bit_eq_0)

lemma crc_bits_inj:
  assumes "crc_bits n a = crc_bits n b"
  shows "a = b"
proof -
  have "crc_bits n (a XOR b) = 0" using assms by (simp add: crc_bits_xor)
  then have "a XOR b = 0" by (rule crc_bits_eq_0)
  then have "b XOR (a XOR b) = b" by simp
  then show ?thesis by (simp add: xor.left_commute)
qed

lemma crc_byte_inj: "crc_byte c b = crc_byte d b \<Longrightarrow> c = d"
proof -
  assume "crc_byte c b = crc_byte d b"
  then have "c XOR ucast b = d XOR ucast b"
    unfolding crc_byte_def by (rule crc_bits_inj)
  then have "(c XOR ucast b) XOR ucast b = (d XOR ucast b) XOR ucast b" by simp
  then show ?thesis by (simp only: xor.assoc xor_self_eq xor.right_neutral)
qed

lemma crc_fold_inj: "foldl crc_byte c bs = foldl crc_byte d bs \<Longrightarrow> c = d"
  by (induction bs arbitrary: c d) (auto dest: crc_byte_inj)

subsection \<open>Four consecutive bytes\<close>

text \<open>As long as the low bits are zero, a step only shifts.\<close>

lemma crc_bits_shift: "\<forall>i < n. \<not> bit c i \<Longrightarrow> crc_bits n c = drop_bit n c"
proof (induction n arbitrary: c)
  case (Suc n)
  then have "\<not> bit c 0" by blast
  then have "crc_bit c = drop_bit 1 c" by (simp add: crc_bit_alt)
  moreover have "crc_bits n (drop_bit 1 c) = drop_bit n (drop_bit 1 c)"
    by (rule Suc.IH) (use Suc.prems in \<open>simp add: bit_drop_bit_eq\<close>)
  ultimately show ?case by (simp add: drop_bit_drop_bit)
qed simp

lemma crc_bits_push:
  assumes "k \<le> 3"
  shows "crc_bits (8 * k) (push_bit (8 * k) (ucast (b :: byte))) = ucast b"
proof -
  have "crc_bits (8 * k) (push_bit (8 * k) (ucast b)) = drop_bit (8 * k) (push_bit (8 * k) (ucast b))"
    by (rule crc_bits_shift) (simp add: bit_push_bit_iff)
  also have "\<dots> = (ucast b :: u32)"
    using assms by (intro bit_word_eqI) (auto simp: bit_simps dest: bit_imp_le_length)
  finally show ?thesis .
qed

lemma le_word_snoc:
  "length bs \<le> 3 \<Longrightarrow> le_word (bs @ [b]) = le_word bs XOR (push_bit (8 * length bs) (ucast b) :: u32)"
proof (rule bit_word_eqI)
  fix n
  assume l: "length bs \<le> 3" and n: "n < LENGTH(32)"
  consider "n div 8 < length bs" | "n div 8 = length bs" | "length bs < n div 8" by linarith
  then show "bit (le_word (bs @ [b]) :: u32) n =
      bit (le_word bs XOR (push_bit (8 * length bs) (ucast b) :: u32)) n"
  proof cases
    case 1
    then have "\<not> 8 * length bs \<le> n" by linarith
    with 1 n show ?thesis by (simp add: bit_le_word bit_xor_iff bit_push_bit_iff nth_append)
  next
    case 2
    then have "n - 8 * length bs = n mod 8" and "8 * length bs \<le> n"
      by (simp_all add: minus_div_mult_eq_mod flip: 2) (metis minus_mult_div_eq_mod)
    moreover have "n mod 8 < 32" by (rule less_trans [of _ 8]) simp_all
    ultimately show ?thesis using 2 n
      by (simp add: bit_le_word bit_xor_iff bit_push_bit_iff bit_unsigned_iff nth_append)
  next
    case 3
    then have "8 \<le> n - 8 * length bs" by linarith
    then have "\<not> bit b (n - 8 * length bs)" by (auto dest: bit_imp_le_length)
    with 3 n show ?thesis
      by (simp add: bit_le_word bit_xor_iff bit_push_bit_iff bit_unsigned_iff)
  qed
qed

lemma crc_fold_word:
  "length bs \<le> 4 \<Longrightarrow> foldl crc_byte c bs = crc_bits (8 * length bs) (c XOR le_word bs)"
proof (induction bs rule: rev_induct)
  case Nil
  then show ?case by (simp add: le_word_def)
next
  case (snoc b bs)
  let ?k = "length bs"
  have k: "?k \<le> 3" using snoc.prems by simp
  have "foldl crc_byte c (bs @ [b]) = crc_bits 8 (crc_bits (8 * ?k) (c XOR le_word bs) XOR ucast b)"
    using snoc.IH k crc_byte_def [of "foldl crc_byte c bs" b] by simp
  also have "\<dots> = crc_bits 8 (crc_bits (8 * ?k) ((c XOR le_word bs) XOR push_bit (8 * ?k) (ucast b)))"
    by (subst crc_bits_xor [of "8 * ?k" "c XOR le_word bs"]) (simp only: crc_bits_push [OF k])
  also have "\<dots> = crc_bits (8 * ?k + 8) (c XOR le_word (bs @ [b]))"
    by (simp only: crc_bits_add le_word_snoc [OF k] xor.assoc)
  finally show ?case by (simp add: add.commute)
qed

lemma le_word_inj:
  assumes "length xs = length ys" and "length xs \<le> 4" and "(le_word xs :: u32) = le_word ys"
  shows "xs = ys"
proof (rule nth_equalityI)
  fix i
  assume i: "i < length xs"
  have "bit (xs ! i) j = bit (ys ! i) j" if "j < 8" for j
  proof -
    have "bit (le_word xs :: u32) (8 * i + j) = bit (le_word ys :: u32) (8 * i + j)"
      using assms(3) by simp
    then show ?thesis using i that assms(1,2) by (simp add: bit_le_word)
  qed
  then show "xs ! i = ys ! i" by (intro bit_word_eqI) simp
qed (rule assms(1))

lemma crc32_burst_distinct:
  assumes "length xs = length ys" and "length xs \<le> 4" and "xs \<noteq> ys"
  shows "crc32 (pre @ xs @ post) \<noteq> crc32 (pre @ ys @ post)"
proof
  let ?c = "foldl crc_byte 0xFFFFFFFF pre"
  assume "crc32 (pre @ xs @ post) = crc32 (pre @ ys @ post)"
  then have "(foldl crc_byte (foldl crc_byte ?c xs) post XOR 0xFFFFFFFF) XOR 0xFFFFFFFF =
      (foldl crc_byte (foldl crc_byte ?c ys) post XOR 0xFFFFFFFF) XOR 0xFFFFFFFF"
    by (simp add: crc32_def crc32_from_def)
  then have "foldl crc_byte (foldl crc_byte ?c xs) post = foldl crc_byte (foldl crc_byte ?c ys) post"
    by (simp only: xor.assoc xor_self_eq xor.right_neutral)
  then have "foldl crc_byte ?c xs = foldl crc_byte ?c ys" by (rule crc_fold_inj)
  then have "crc_bits (8 * length xs) (?c XOR le_word xs) = crc_bits (8 * length xs) (?c XOR le_word ys)"
    using assms(1,2) by (simp add: crc_fold_word)
  then have "?c XOR le_word xs = ?c XOR le_word ys" by (rule crc_bits_inj)
  then have "?c XOR (?c XOR le_word xs) = ?c XOR (?c XOR le_word ys)" by simp
  then have "(le_word xs :: u32) = le_word ys"
    by (simp only: xor.assoc [symmetric] xor_self_eq xor.left_neutral)
  with assms show False using le_word_inj by blast
qed

end
