(* ===== verification/Persistence.thy ===== *)
theory Persistence
  imports Lifecycle Codecs Crc32
begin

text \<open>
  The state file (\<open>save\<close> and \<open>load\<close> of governor.cpp): a header with magic number, version, length and
  checksum, and a body of little-endian fields. Writer and reader of every stored record form a
  \<open>codec\<close>, so a stored record is read back whatever follows it.
\<close>

subsection \<open>Stored records\<close>

definition put_objective :: "TailObjective \<Rightarrow> byte list" where
  "put_objective obj = put_id (o_id obj) @ put_id (o_generation obj) @
     put_f64 (pvalue (o_percentile obj)) @ put_duration (o_target obj) @
     put_enum WindowMode_code (wc_mode (o_window obj)) @ put_duration (wc_window_duration (o_window obj)) @
     put_u64 (wc_max_samples (o_window obj)) @ put_u64 (wc_fixed_count (o_window obj)) @
     put_u64 (o_min_samples obj) @ put_duration (o_freshness obj) @ put_bool (o_hard obj) @
     put_f64 (o_recovery_fraction obj) @ put_duration (o_cool_down obj) @
     put_bool (o_class_scope obj \<noteq> None) @
     (case o_class_scope obj of Some c \<Rightarrow> put_id c | None \<Rightarrow> []) @
     put_u32 (u32_of_i32 (o_priority obj)) @ put_bool (o_enabled obj)"

definition get_objective :: "(Reader, TailObjective) state" where
  "get_objective = do {
     i \<leftarrow> get_id; gen \<leftarrow> get_id; p \<leftarrow> get_f64; target \<leftarrow> get_duration;
     mode \<leftarrow> get_enum WindowMode_of_code; duration \<leftarrow> get_duration;
     max_samples \<leftarrow> get_u64; fixed_count \<leftarrow> get_u64; min_samples \<leftarrow> get_u64;
     freshness \<leftarrow> get_duration; hard \<leftarrow> get_bool; fraction \<leftarrow> get_f64; cool_down \<leftarrow> get_duration;
     has_class \<leftarrow> get_bool;
     cls \<leftarrow> (if has_class then do { c \<leftarrow> get_id; State_Monad.return (Some c) } else State_Monad.return None);
     priority \<leftarrow> get_u32; enabled \<leftarrow> get_bool;
     State_Monad.return (tail_objective_default\<lparr>o_id := i, o_generation := gen,
       o_percentile := Percentile p, o_target := target,
       o_window := \<lparr>wc_mode = mode, wc_window_duration = duration, wc_fixed_count = fixed_count,
         wc_max_samples = max_samples\<rparr>,
       o_min_samples := min_samples, o_freshness := freshness, o_hard := hard,
       o_recovery_fraction := fraction, o_cool_down := cool_down, o_class_scope := cls,
       o_priority := i32_of_u32 priority, o_enabled := enabled\<rparr>) }"

definition put_intervention :: "Intervention \<Rightarrow> byte list" where
  "put_intervention v = put_id (inv_id v) @ put_id (inv_generation v) @
     put_enum InterventionType_code (inv_type v) @ put_enum InterventionStatus_code (inv_status v) @
     put_id (inv_objective v) @ put_id (inv_objective_generation v) @
     put_enum TailCauseCategory_code (inv_target_cause v) @ put_id (inv_target_class v) @
     put_i64 (inv_proposed_at_ns v) @ put_i64 (inv_expiry_at_ns v) @
     put_duration (inv_estimated_tail_effect v) @
     put_bool (inv_feasibility v \<noteq> Infeasibility.NONE) @ put_enum Infeasibility_code (inv_feasibility v) @
     put_f64 (inv_confidence v)"

text \<open>Authority, economics and reason are not stored; they come back as the defaults.\<close>

definition get_intervention :: "(Reader, Intervention) state" where
  "get_intervention = do {
     i \<leftarrow> get_id; gen \<leftarrow> get_id; ty \<leftarrow> get_enum InterventionType_of_code;
     st \<leftarrow> get_enum InterventionStatus_of_code; objective \<leftarrow> get_id; objective_gen \<leftarrow> get_id;
     cause \<leftarrow> get_enum TailCauseCategory_of_code; cls \<leftarrow> get_id; proposed \<leftarrow> get_i64; expiry \<leftarrow> get_i64;
     effect \<leftarrow> get_duration; has_inf \<leftarrow> get_bool; why \<leftarrow> get_enum Infeasibility_of_code; conf \<leftarrow> get_f64;
     State_Monad.return (intervention_default\<lparr>inv_id := i, inv_generation := gen, inv_type := ty,
       inv_status := st, inv_objective := objective, inv_objective_generation := objective_gen,
       inv_target_cause := cause, inv_target_class := cls, inv_proposed_at_ns := proposed,
       inv_expiry_at_ns := expiry, inv_estimated_tail_effect := effect, inv_feasibility := why,
       inv_confidence := conf\<rparr>) }"

definition put_outcome :: "InterventionId \<times> PostOutcome \<Rightarrow> byte list" where
  "put_outcome kv = put_id (fst kv) @ put_enum PostOutcome_code (snd kv)"

definition get_outcome :: "(Reader, InterventionId \<times> PostOutcome) state" where
  "get_outcome = do { i \<leftarrow> get_id; po \<leftarrow> get_enum PostOutcome_of_code; State_Monad.return (i, po) }"

definition put_flag :: "TailObjectiveId \<times> bool \<Rightarrow> byte list" where
  "put_flag kv = put_id (fst kv) @ put_bool (snd kv)"

definition get_flag :: "(Reader, TailObjectiveId \<times> bool) state" where
  "get_flag = do { i \<leftarrow> get_id; b \<leftarrow> get_bool; State_Monad.return (i, b) }"

subsection \<open>Saving\<close>

definition kPersistMagic :: u32 where "kPersistMagic = 0x54474F56"
definition kPersistVersion :: u32 where "kPersistVersion = 1"
definition kMaxPersistBytes :: int where "kMaxPersistBytes = 256 * 1024 * 1024"

definition save_body :: "Impl \<Rightarrow> byte list" where
  "save_body g = put_id (gc_epoch (g_cfg g)) @ put_id (po_id (g_pol g)) @ put_id (po_generation (g_pol g)) @
     put_u32 (of_nat (length (po_objectives (g_pol g)))) @
     concat (map put_objective (po_objectives (g_pol g))) @
     put_u32 (of_nat (length (g_interventions g))) @
     concat (map put_intervention (map snd (g_interventions g))) @
     put_u32 (of_nat (length (g_outcomes g))) @ concat (map put_outcome (g_outcomes g)) @
     put_u32 (of_nat (length (g_revalidate_needed g))) @ concat (map put_flag (g_revalidate_needed g)) @
     put_u64 (g_next_eval_id g) @ put_u64 (g_next_int_id g)"

definition state_file :: "byte list \<Rightarrow> byte list" where
  "state_file body = put_u32 kPersistMagic @ put_u32 kPersistVersion @
     put_u64 (of_nat (length body)) @ put_u32 (crc32 body) @ body"

text \<open>
  The files a process sees, and the four operations on them that saving performs. What the
  operating system answers to opening and writing is a parameter: \<open>opened\<close>, and \<open>written\<close>, which is
  \<open>None\<close> for a successful write and otherwise what reached the file. The results of removing and
  renaming are ignored by the code; they are taken to succeed.
\<close>

type_synonym Disk = "string \<Rightarrow> byte list option"

datatype DiskOp = Truncate string | Write string "byte list" | Remove string | Rename string string

fun disk_op :: "DiskOp \<Rightarrow> Disk \<Rightarrow> Disk" where
  "disk_op (Truncate p) d = d(p \<mapsto> [])"
| "disk_op (Write p bs) d = d(p \<mapsto> bs)"
| "disk_op (Remove p) d = d(p := None)"
| "disk_op (Rename p q) d = (d(p := None))(q := d p)"

definition tmp_path :: "string \<Rightarrow> string" where "tmp_path path = path @ ''.tmp''"

definition save_ops :: "string \<Rightarrow> byte list \<Rightarrow> DiskOp list" where
  "save_ops path file = [Truncate (tmp_path path), Write (tmp_path path) file, Remove path,
     Rename (tmp_path path) path]"

definition save :: "bool \<Rightarrow> byte list option \<Rightarrow> string \<Rightarrow> Impl \<Rightarrow> Disk \<Rightarrow> Status \<times> Disk" where
  "save opened written path g d =
     (let file = state_file (save_body g) in
      if \<not> opened then (status PERSISTENCE_CORRUPT ''cannot open state file for write'', d)
      else case written of
        Some part \<Rightarrow> (status PERSISTENCE_CORRUPT ''write failed'',
          fold disk_op [Truncate (tmp_path path), Write (tmp_path path) part] d)
      | None \<Rightarrow> (status_ok, fold disk_op (save_ops path file) d))"

subsection \<open>Loading\<close>

definition flag_all :: "TailObjectiveId list \<Rightarrow> Impl \<Rightarrow> Impl" where
  "flag_all is g = g\<lparr>g_revalidate_needed := foldl (\<lambda>m i. om_put i True m) (g_revalidate_needed g) is\<rparr>"

text \<open>The counts at the head of each part are bounded before anything is read.\<close>

definition load_flags :: "Reader \<Rightarrow> Impl \<Rightarrow> Status \<times> Impl" where
  "load_flags r g =
     (let (n, r) = run_state get_u32 r in
      if n > 8192 then (status PERSISTENCE_CORRUPT ''absurd revalidation count'', g)
      else let (flags, r) = run_state (get_many (unat n) get_flag) r;
               g = flag_all (map fst flags) g;
               (next_eval, r) = run_state get_u64 r; (next_int, r) = run_state get_u64 r;
               g = g\<lparr>g_next_eval_id := next_eval, g_next_int_id := next_int\<rparr>
           in if \<not> rd_ok r then (status PERSISTENCE_CORRUPT ''truncated body'', g) else (status_ok, g))"

definition load_outcomes :: "Reader \<Rightarrow> Impl \<Rightarrow> Status \<times> Impl" where
  "load_outcomes r g =
     (let (n, r) = run_state get_u32 r in
      if n > 100000 then (status PERSISTENCE_CORRUPT ''absurd outcome count'', g)
      else let (outs, r) = run_state (get_many (unat n) get_outcome) r
           in load_flags r (g\<lparr>g_outcomes := foldl (\<lambda>m (i, po). om_put i po m) om_empty outs\<rparr>))"

definition load_interventions :: "Reader \<Rightarrow> Impl \<Rightarrow> Status \<times> Impl" where
  "load_interventions r g =
     (let (n, r) = run_state get_u32 r in
      if n > 100000 then (status PERSISTENCE_CORRUPT ''absurd intervention count'', g)
      else let (ints, r) = run_state (get_many (unat n) get_intervention) r
           in load_outcomes r (g\<lparr>g_interventions :=
                foldl (\<lambda>m v. om_put (inv_id v) v m) om_empty ints\<rparr>))"

definition load_body :: "byte list \<Rightarrow> Impl \<Rightarrow> Status \<times> Impl" where
  "load_body body g =
     (let r = reading body True; (saved_epoch, r) = run_state get_u64 r;
          (pol_id, r) = run_state get_id r; (pol_gen, r) = run_state get_id r;
          (n, r) = run_state get_u32 r
      in if n > 8192 then (status PERSISTENCE_CORRUPT ''absurd objective count'', g)
         else let (objs, r) = run_state (get_many (unat n) get_objective) r;
                  g = flag_all (map o_id objs) g
              in if \<not> rd_ok r then (status PERSISTENCE_CORRUPT ''truncated objective body'', g)
                 else load_interventions r (g\<lparr>g_pol := tail_policy_default\<lparr>po_id := pol_id,
                        po_generation := pol_gen, po_objectives := objs\<rparr>\<rparr>))"

text \<open>The checks of the file before anything is read from its body.\<close>

definition load_file :: "byte list \<Rightarrow> Impl \<Rightarrow> Status \<times> Impl" where
  "load_file file g =
     (if length file < 20 then (status PERSISTENCE_CORRUPT ''file too small'', g)
      else if int (length file) > kMaxPersistBytes then (status PERSISTENCE_CORRUPT ''file too large'', g)
      else let magic = le_word (take 4 file); version = le_word (take 4 (drop 4 file));
               body_len = (le_word (take 8 (drop 8 file)) :: u64);
               stored_crc = le_word (take 4 (drop 16 file))
           in if magic \<noteq> kPersistMagic then (status PERSISTENCE_CORRUPT ''bad magic'', g)
              else if version \<noteq> kPersistVersion then (status PERSISTENCE_CORRUPT ''unsupported version'', g)
              else if uint body_len > kMaxPersistBytes then (status PERSISTENCE_CORRUPT ''body too large'', g)
              else if 20 + body_len \<noteq> of_nat (length file)
              then (status PERSISTENCE_CORRUPT ''trailing garbage / truncated'', g)
              else let body = take (unat body_len) (drop 20 file) in
                if stored_crc \<noteq> crc32 body then (status PERSISTENCE_CORRUPT ''checksum mismatch'', g)
                else load_body body g)"

text \<open>\<open>readable\<close> is whether the operating system delivers the bytes of a file that is there.\<close>

definition load :: "bool \<Rightarrow> string \<Rightarrow> Disk \<Rightarrow> Impl \<Rightarrow> Status \<times> Impl" where
  "load readable path d g =
     (case d path of
        None \<Rightarrow> (status PERSISTENCE_CORRUPT ''cannot open state file'', g)
      | Some file \<Rightarrow>
          if length file \<ge> 20 \<and> int (length file) \<le> kMaxPersistBytes \<and> \<not> readable
          then (status PERSISTENCE_CORRUPT ''read failed'', g)
          else load_file file g)"

subsection \<open>The codecs of the stored records\<close>

lemmas stored_decode = field_decode
  window_mode_enum.enum_codec.decode intervention_type_enum.enum_codec.decode
  intervention_status_enum.enum_codec.decode cause_enum.enum_codec.decode
  infeasibility_enum.enum_codec.decode post_outcome_enum.enum_codec.decode

lemmas stored_length = field_length
  window_mode_enum.enum_codec.enc_length intervention_type_enum.enum_codec.enc_length
  intervention_status_enum.enum_codec.enc_length cause_enum.enum_codec.enc_length
  infeasibility_enum.enum_codec.enc_length post_outcome_enum.enum_codec.enc_length

text \<open>What the fields of a stored record must fit in.\<close>

definition objective_fits :: "TailObjective \<Rightarrow> bool" where
  "objective_fits obj \<longleftrightarrow> in_i64 (nanos (o_target obj)) \<and> is_u32 (WindowMode_code (wc_mode (o_window obj))) \<and>
     in_i64 (nanos (wc_window_duration (o_window obj))) \<and> in_i64 (nanos (o_freshness obj)) \<and>
     in_i64 (nanos (o_cool_down obj)) \<and> in_i32 (o_priority obj)"

definition intervention_fits :: "Intervention \<Rightarrow> bool" where
  "intervention_fits v \<longleftrightarrow> is_u32 (InterventionType_code (inv_type v)) \<and>
     is_u32 (InterventionStatus_code (inv_status v)) \<and> is_u32 (TailCauseCategory_code (inv_target_cause v)) \<and>
     is_u32 (Infeasibility_code (inv_feasibility v)) \<and> in_i64 (inv_proposed_at_ns v) \<and>
     in_i64 (inv_expiry_at_ns v) \<and> in_i64 (nanos (inv_estimated_tail_effect v))"

text \<open>What is left of an intervention once it went through the file.\<close>

definition forget :: "Intervention \<Rightarrow> Intervention" where
  "forget v = v\<lparr>inv_authority := authority_default, inv_economics := economics_default, inv_reason := ''''\<rparr>"

interpretation objective_codec: codec put_objective get_objective objective_fits
proof unfold_locales
  fix obj rest ok
  assume fits: "objective_fits obj"
  show "run_state get_objective (reading (put_objective obj @ rest) ok) = (obj, reading rest ok)"
  proof (cases "o_class_scope obj")
    case None
    with fits show ?thesis
      by (simp add: put_objective_def get_objective_def objective_fits_def stored_decode tail_objective_default_def)
  next
    case (Some c)
    with fits show ?thesis
      by (simp add: put_objective_def get_objective_def objective_fits_def stored_decode tail_objective_default_def)
  qed
qed

lemma get_put_intervention:
  "intervention_fits v \<Longrightarrow>
     run_state get_intervention (reading (put_intervention v @ rest) ok) = (forget v, reading rest ok)"
  by (simp add: put_intervention_def get_intervention_def intervention_fits_def stored_decode
      intervention_default_def forget_def)


text \<open>What is stored of an intervention determines what is left of it, and that is read back.\<close>

lemma put_forget [simp]: "put_intervention (forget v) = put_intervention v"
  by (simp add: put_intervention_def forget_def)

lemma forget_fields [simp]:
  "inv_id (forget v) = inv_id v" "inv_authority (forget v) = authority_default"
  "intervention_fits (forget v) = intervention_fits v" "forget (forget v) = forget v"
  by (simp_all add: forget_def intervention_fits_def)

interpretation intervention_codec: codec put_intervention get_intervention
    "\<lambda>v. intervention_fits v \<and> forget v = v"
  by unfold_locales (auto simp: get_put_intervention)

interpretation outcome_codec: codec put_outcome get_outcome "\<lambda>kv. is_u32 (PostOutcome_code (snd kv))"
  by unfold_locales (simp add: put_outcome_def get_outcome_def stored_decode)

interpretation flag_codec: codec put_flag get_flag "\<lambda>_. True"
  by unfold_locales (simp add: put_flag_def get_flag_def stored_decode)

subsection \<open>The round trip\<close>

text \<open>A governor whose state fits in the file: the counts within the bounds that \<open>load\<close> checks, the maps
  in order, every intervention stored under its own id.\<close>

definition persistable :: "Impl \<Rightarrow> bool" where
  "persistable g \<longleftrightarrow> length (po_objectives (g_pol g)) \<le> 8192 \<and> list_all objective_fits (po_objectives (g_pol g)) \<and>
     length (g_interventions g) \<le> 100000 \<and> om_inv (g_interventions g) \<and>
     list_all (\<lambda>kv. inv_id (snd kv) = fst kv \<and> intervention_fits (snd kv)) (g_interventions g) \<and>
     length (g_outcomes g) \<le> 100000 \<and> om_inv (g_outcomes g) \<and>
     list_all (\<lambda>kv. is_u32 (PostOutcome_code (snd kv))) (g_outcomes g) \<and>
     length (g_revalidate_needed g) \<le> 8192"

text \<open>Its two parts: what the types of the code and the invariants of the governor give, and the limits
  of \<open>load\<close>, which no operation of the governor observes.\<close>

definition representable :: "Impl \<Rightarrow> bool" where
  "representable g \<longleftrightarrow> list_all objective_fits (po_objectives (g_pol g)) \<and> om_inv (g_interventions g) \<and>
     list_all (\<lambda>kv. inv_id (snd kv) = fst kv \<and> intervention_fits (snd kv)) (g_interventions g) \<and>
     om_inv (g_outcomes g) \<and> list_all (\<lambda>kv. is_u32 (PostOutcome_code (snd kv))) (g_outcomes g)"

definition within_limits :: "Impl \<Rightarrow> bool" where
  "within_limits g \<longleftrightarrow> length (po_objectives (g_pol g)) \<le> 8192 \<and> length (g_interventions g) \<le> 100000 \<and>
     length (g_outcomes g) \<le> 100000 \<and> length (g_revalidate_needed g) \<le> 8192"

lemma persistable_iff: "persistable g \<longleftrightarrow> representable g \<and> within_limits g"
  by (auto simp: persistable_def representable_def within_limits_def)

definition restored :: "Impl \<Rightarrow> Impl \<Rightarrow> Impl" where
  "restored g h = flag_all (map o_id (po_objectives (g_pol g)) @ map fst (g_revalidate_needed g))
     (h\<lparr>g_pol := (g_pol g)\<lparr>po_name := ''''\<rparr>,
        g_interventions := map (\<lambda>(i, v). (i, forget v)) (g_interventions g),
        g_outcomes := g_outcomes g, g_next_eval_id := g_next_eval_id g, g_next_int_id := g_next_int_id g\<rparr>)"

lemma count_fits:
  assumes "n < 4294967296"
  shows "unat (of_nat n :: u32) = n" and "(of_nat n :: u32) > 8192 \<longleftrightarrow> n > 8192"
    and "(of_nat n :: u32) > 100000 \<longleftrightarrow> n > 100000"
proof -
  show u: "unat (of_nat n :: u32) = n" using assms by (simp add: unat_of_nat)
  show "(of_nat n :: u32) > 8192 \<longleftrightarrow> n > 8192" "(of_nat n :: u32) > 100000 \<longleftrightarrow> n > 100000"
    by (simp_all add: word_less_nat_alt u)
qed

lemma rebuild_interventions:
  assumes "om_inv m" and "list_all (\<lambda>kv. inv_id (snd kv) = fst kv \<and> P (snd kv)) m"
  shows "foldl (\<lambda>m v. om_put (inv_id v) v m) om_empty (map (forget \<circ> snd) m) = map (\<lambda>(i, v). (i, forget v)) m"
proof -
  let ?m = "map (\<lambda>(i, v). (i, forget v)) m"
  have "om_inv ?m" using assms(1) by (simp add: om_inv_def comp_def split_beta)
  then have "foldl (\<lambda>m (k, v). om_put k v m) om_empty ?m = ?m" by (rule om_rebuild)
  moreover have "foldl (\<lambda>m (k, v). om_put k v m) n ?m = foldl (\<lambda>m v. om_put (inv_id v) v m) n (map (forget \<circ> snd) m)" for n
    using assms(2) by (induction m arbitrary: n) auto
  ultimately show ?thesis by simp
qed

lemma flag_all_append: "flag_all ys (flag_all xs g) = flag_all (xs @ ys) g"
  by (simp add: flag_all_def)

text \<open>Reading back what was saved: the first count over its limit ends it.\<close>

definition counted :: "Impl \<Rightarrow> bool" where
  "counted g \<longleftrightarrow> length (po_objectives (g_pol g)) < 4294967296 \<and> length (g_interventions g) < 4294967296 \<and>
     length (g_outcomes g) < 4294967296 \<and> length (g_revalidate_needed g) < 4294967296"

lemma within_counted: "within_limits g \<Longrightarrow> counted g"
  by (simp add: within_limits_def counted_def)

lemma load_save_cases:
  assumes "representable g" and "counted g"
  shows "load_body (save_body g) h =
    (let k = (flag_all (map o_id (po_objectives (g_pol g))) h)\<lparr>g_pol := (g_pol g)\<lparr>po_name := ''''\<rparr>\<rparr>;
         k' = k\<lparr>g_interventions := map (\<lambda>(i, v). (i, forget v)) (g_interventions g)\<rparr>
     in if length (po_objectives (g_pol g)) > 8192 then (status PERSISTENCE_CORRUPT ''absurd objective count'', h)
        else if length (g_interventions g) > 100000 then (status PERSISTENCE_CORRUPT ''absurd intervention count'', k)
        else if length (g_outcomes g) > 100000 then (status PERSISTENCE_CORRUPT ''absurd outcome count'', k')
        else if length (g_revalidate_needed g) > 8192
        then (status PERSISTENCE_CORRUPT ''absurd revalidation count'', k'\<lparr>g_outcomes := g_outcomes g\<rparr>)
        else (status_ok, restored g h))"
proof -
  let ?objs = "po_objectives (g_pol g)" and ?ints = "g_interventions g"
    and ?outs = "g_outcomes g" and ?flags = "g_revalidate_needed g"
  let ?tail = "put_u64 (g_next_eval_id g) @ put_u64 (g_next_int_id g)"
  let ?B4 = "put_u32 (of_nat (length ?flags)) @ concat (map put_flag ?flags) @ ?tail"
  let ?B3 = "put_u32 (of_nat (length ?outs)) @ concat (map put_outcome ?outs) @ ?B4"
  let ?B2 = "put_u32 (of_nat (length ?ints)) @ concat (map put_intervention (map snd ?ints)) @ ?B3"
  have n: "length ?objs < 4294967296" "length ?ints < 4294967296" "length ?outs < 4294967296" "length ?flags < 4294967296"
    using assms(2) by (simp_all add: counted_def)
  note counts = count_fits [OF n(1)] count_fits [OF n(2)] count_fits [OF n(3)] count_fits [OF n(4)]
  have flags: "load_flags (reading ?B4 True) k =
      (if length ?flags > 8192 then (status PERSISTENCE_CORRUPT ''absurd revalidation count'', k)
       else (status_ok, flag_all (map fst ?flags) (k\<lparr>g_next_eval_id := g_next_eval_id g, g_next_int_id := g_next_int_id g\<rparr>)))" for k
    using flag_codec.decode_many [of ?flags ?tail True] u64.decode_end [of "g_next_int_id g" True]
    by (simp add: load_flags_def stored_decode counts flag_all_def list.pred_True)
  have outcomes: "load_outcomes (reading ?B3 True) k =
      (if length ?outs > 100000 then (status PERSISTENCE_CORRUPT ''absurd outcome count'', k)
       else load_flags (reading ?B4 True) (k\<lparr>g_outcomes := ?outs\<rparr>))" for k
    using outcome_codec.decode_many [of ?outs ?B4 True] om_rebuild [of ?outs] assms(1)
    by (simp add: load_outcomes_def stored_decode counts representable_def)
  have "concat (map put_intervention (map snd ?ints)) = concat (map put_intervention (map (forget \<circ> snd) ?ints))"
    by (simp add: comp_def)
  moreover have "list_all (\<lambda>v. intervention_fits v \<and> forget v = v) (map (forget \<circ> snd) ?ints)"
    using assms(1) by (auto simp: representable_def list_all_iff)
  ultimately have i: "run_state (get_many (length ?ints) get_intervention)
      (reading (concat (map put_intervention (map snd ?ints)) @ ?B3) True) = (map (forget \<circ> snd) ?ints, reading ?B3 True)"
    using intervention_codec.decode_many [of "map (forget \<circ> snd) ?ints" ?B3 True] by simp
  have ri: "foldl (\<lambda>m v. om_put (inv_id v) v m) om_empty (map (forget \<circ> snd) ?ints) = map (\<lambda>(i, v). (i, forget v)) ?ints"
    using assms(1) by (intro rebuild_interventions [where P = intervention_fits]) (simp_all add: representable_def)
  have ints: "load_interventions (reading ?B2 True) k =
      (if length ?ints > 100000 then (status PERSISTENCE_CORRUPT ''absurd intervention count'', k)
       else load_outcomes (reading ?B3 True) (k\<lparr>g_interventions := map (\<lambda>(i, v). (i, forget v)) ?ints\<rparr>))" for k
    using i ri by (simp add: load_interventions_def stored_decode counts)
  have pol: "tail_policy_default\<lparr>po_id := po_id (g_pol g), po_generation := po_generation (g_pol g),
      po_objectives := ?objs\<rparr> = (g_pol g)\<lparr>po_name := ''''\<rparr>"
    by (cases "g_pol g") (simp add: tail_policy_default_def)
  have "load_body (save_body g) h =
      (if length ?objs > 8192 then (status PERSISTENCE_CORRUPT ''absurd objective count'', h)
       else load_interventions (reading ?B2 True) ((flag_all (map o_id ?objs) h)\<lparr>g_pol := (g_pol g)\<lparr>po_name := ''''\<rparr>\<rparr>))"
    using objective_codec.decode_many [of ?objs ?B2 True] assms(1)
    by (simp add: load_body_def save_body_def put_id_def [of "gc_epoch (g_cfg g)"] stored_decode counts pol
        representable_def)
  then show ?thesis
    unfolding ints outcomes flags by (simp add: restored_def flag_all_def Let_def)
qed

lemma load_save_body: "persistable g \<Longrightarrow> load_body (save_body g) h = (status_ok, restored g h)"
  using load_save_cases [of g h] within_counted [of g]
  by (simp add: persistable_iff Let_def) (simp add: within_limits_def not_less)

subsection \<open>The size of the file\<close>

lemma length_concat_le:
  "(\<And>x. length (f x) \<le> k) \<Longrightarrow> length (concat (map f xs)) \<le> k * length xs"
  by (induction xs) (auto simp: add_mono)

lemma stored_sizes:
  "length (put_objective obj) \<le> 115" "length (put_intervention v) \<le> 89"
  "length (put_outcome kv) \<le> 12" "length (put_flag kv') \<le> 9"
  by (simp_all add: put_objective_def put_intervention_def put_outcome_def put_flag_def stored_length split: option.split)

lemma save_body_length:
  "length (save_body g) = 56 + length (concat (map put_objective (po_objectives (g_pol g)))) +
     length (concat (map put_intervention (map snd (g_interventions g)))) +
     length (concat (map put_outcome (g_outcomes g))) + length (concat (map put_flag (g_revalidate_needed g)))"
  unfolding save_body_def length_append by (simp only: stored_length)

lemma length_save_body:
  assumes "persistable g"
  shows "length (save_body g) \<le> 11115864"
proof -
  have "length (concat (map put_objective (po_objectives (g_pol g)))) \<le> 115 * length (po_objectives (g_pol g))"
    "length (concat (map put_intervention (map snd (g_interventions g)))) \<le> 89 * length (map snd (g_interventions g))"
    "length (concat (map put_outcome (g_outcomes g))) \<le> 12 * length (g_outcomes g)"
    "length (concat (map put_flag (g_revalidate_needed g))) \<le> 9 * length (g_revalidate_needed g)"
    by (rule length_concat_le, rule stored_sizes)+
  moreover have "length (po_objectives (g_pol g)) \<le> 8192" "length (g_interventions g) \<le> 100000"
    "length (g_outcomes g) \<le> 100000" "length (g_revalidate_needed g) \<le> 8192"
    using assms by (simp_all add: persistable_def)
  ultimately show ?thesis unfolding length_map save_body_length by linarith
qed

lemma length_concat_ge: "(\<And>x. 1 \<le> length (f x)) \<Longrightarrow> length xs \<le> length (concat (map f xs))"
proof (induction xs)
  case (Cons x xs)
  have "1 \<le> length (f x)" and "length xs \<le> length (concat (map f xs))" using Cons by blast+
  then have "1 + length xs \<le> length (f x) + length (concat (map f xs))" by (rule add_mono)
  then show ?case by simp
qed simp

text \<open>A file that is not too large holds counts of 32 bits.\<close>

lemma small_file_counted:
  assumes "length (save_body g) < 4294967296"
  shows "counted g"
proof -
  have "length (po_objectives (g_pol g)) \<le> length (concat (map put_objective (po_objectives (g_pol g))))"
    "length (map snd (g_interventions g)) \<le> length (concat (map put_intervention (map snd (g_interventions g))))"
    "length (g_outcomes g) \<le> length (concat (map put_outcome (g_outcomes g)))"
    "length (g_revalidate_needed g) \<le> length (concat (map put_flag (g_revalidate_needed g)))"
    by (rule length_concat_ge, simp add: put_objective_def put_intervention_def put_outcome_def put_flag_def stored_length)+
  then show ?thesis using assms unfolding save_body_length counted_def length_map by linarith
qed

lemma length_state_file [simp]: "length (state_file body) = 20 + length body"
  by (simp add: state_file_def codec_length)

subsection \<open>What the checks of the file admit\<close>

lemma load_file_state_file:
  assumes "int (length (state_file body)) \<le> kMaxPersistBytes"
  shows "load_file (state_file body) g = load_body body g"
proof -
  have b: "int (length body) \<le> kMaxPersistBytes" "20 + int (length body) \<le> kMaxPersistBytes" using assms by auto
  then have u: "uint (of_nat (length body) :: u64) = int (length body)"
    by (simp add: uint_nat unat_of_nat kMaxPersistBytes_def)
  have un: "unat (of_nat (length body) :: u64) = length body"
    using b by (simp add: unat_of_nat kMaxPersistBytes_def)
  have drops: "drop 4 (state_file body) = put_u32 kPersistVersion @ put_u64 (of_nat (length body)) @ put_u32 (crc32 body) @ body"
    "drop 8 (state_file body) = put_u64 (of_nat (length body)) @ put_u32 (crc32 body) @ body"
    "drop 16 (state_file body) = put_u32 (crc32 body) @ body" "drop 20 (state_file body) = body"
    "take 4 (state_file body) = put_u32 kPersistMagic"
    by (simp_all add: state_file_def codec_length)
  show ?thesis
    using b u un by (simp add: load_file_def drops codec_length put_u32_def put_u64_def le_word_le_bytes Let_def)
qed

lemma word_offset:
  assumes "uint (w :: u64) \<le> 268435456" and "20 + w = of_nat n" and "n < 2 ^ 64"
  shows "20 + unat w = n"
proof -
  have w: "int (unat w) \<le> 268435456" using assms(1) by simp
  have "int (unat (20 + w)) = (20 + int (unat w)) mod 2 ^ 64"
    by (simp add: uint_word_ariths)
  also have "\<dots> = 20 + int (unat w)" using w by (intro mod_pos_pos_trivial) simp_all
  finally have "int (unat (20 + w)) = 20 + int (unat w)" .
  then have "unat (20 + w) = 20 + unat w" by linarith
  moreover have "unat (of_nat n :: u64) = n" using assms(3) by (simp add: unat_of_nat)
  ultimately show ?thesis unfolding assms(2) by (rule trans [OF sym])
qed

lemma load_file_cases:
  obtains (intact) body where "file = state_file body" and "int (length file) \<le> kMaxPersistBytes"
      and "load_file file g = load_body body g"
  | (refused) msg where "load_file file g = (status PERSISTENCE_CORRUPT msg, g)"
proof -
  let ?magic = "le_word (take 4 file) :: u32" and ?version = "le_word (take 4 (drop 4 file)) :: u32"
    and ?len = "le_word (take 8 (drop 8 file)) :: u64" and ?crc = "le_word (take 4 (drop 16 file)) :: u32"
  let ?body = "take (unat ?len) (drop 20 file)"
  let ?ok = "\<not> length file < 20 \<and> \<not> kMaxPersistBytes < int (length file) \<and> ?magic = kPersistMagic \<and>
      ?version = kPersistVersion \<and> \<not> kMaxPersistBytes < uint ?len \<and> 20 + ?len = of_nat (length file) \<and> ?crc = crc32 ?body"
  have "?ok \<or> (\<exists>msg. load_file file g = (status PERSISTENCE_CORRUPT msg, g))"
    unfolding load_file_def Let_def by (simp split: if_split)
  then consider (bad) msg where "load_file file g = (status PERSISTENCE_CORRUPT msg, g)"
    | (good) "\<not> length file < 20" "int (length file) \<le> kMaxPersistBytes" "?magic = kPersistMagic"
      "?version = kPersistVersion" "uint ?len \<le> kMaxPersistBytes" "20 + ?len = of_nat (length file)" "?crc = crc32 ?body"
    unfolding not_less by blast
  then show thesis
  proof cases
    case good
    have "length file < 2 ^ 64" using good(2) by (simp add: kMaxPersistBytes_def)
    then have len: "20 + unat ?len = length file"
      using good(5,6) unfolding kMaxPersistBytes_def by (intro word_offset) simp_all
    then have body: "?body = drop 20 file" by simp
    have "length ?body = unat ?len" using len by (simp add: body)
    then have "of_nat (length ?body) = ?len" by simp
    then have "put_u64 (of_nat (length ?body)) = take 8 (drop 8 file)"
      unfolding put_u64_def using good(1) by (simp only:) (rule le_bytes_le_word, simp_all)
    moreover have "put_u32 kPersistMagic = take 4 file"
      unfolding put_u32_def good(3) [symmetric] by (rule le_bytes_le_word) (use good(1) in simp_all)
    moreover have "put_u32 kPersistVersion = take 4 (drop 4 file)"
      unfolding put_u32_def good(4) [symmetric] by (rule le_bytes_le_word) (use good(1) in simp_all)
    moreover have "put_u32 (crc32 ?body) = take 4 (drop 16 file)"
      unfolding put_u32_def good(7) [symmetric] by (rule le_bytes_le_word) (use good(1) in simp_all)
    ultimately have "state_file ?body = take 4 file @ take 4 (drop 4 file) @ take 8 (drop 8 file) @
        take 4 (drop 16 file) @ drop 20 file"
      unfolding state_file_def by (simp only: body)
    also have "\<dots> = file"
      using append_take_drop_id [of 4 "file"] append_take_drop_id [of 4 "drop 4 file"]
        append_take_drop_id [of 8 "drop 8 file"] append_take_drop_id [of 4 "drop 16 file"] by simp
    finally have f: "file = state_file ?body" by simp
    show thesis
      by (rule intact [OF f good(2)]) (use load_file_state_file [of ?body g] f good(2) in simp)
  qed (rule refused)
qed

lemma state_file_inject [simp]: "state_file a = state_file b \<longleftrightarrow> a = b"
proof
  assume "state_file a = state_file b"
  then have "drop 20 (state_file a) = drop 20 (state_file b)" by simp
  then show "a = b" by (simp add: state_file_def codec_length)
qed simp

subsection \<open>What a successful load leaves behind\<close>

lemma get_many_all:
  assumes "\<And>r. P (fst (run_state g r))"
  shows "\<forall>x \<in> set (fst (run_state (get_many n g) r)). P x"
proof (induction n arbitrary: r)
  case (Suc n)
  obtain x s where x: "run_state g r = (x, s)" by fastforce
  then have "P x" using assms [of r] by simp
  then show ?case using Suc [of s] by (simp add: x split_beta)
qed simp

lemma get_intervention_authority: "inv_authority (fst (run_state get_intervention r)) = authority_default"
  by (simp add: get_intervention_def split_beta Let_def intervention_default_def)

lemma flags_find:
  "om_find (foldl (\<lambda>m i. om_put i True m) m is) i = (if i \<in> set is then Some True else om_find m i)"
  by (induction "is" arbitrary: m) auto

lemma put_all_authority:
  assumes "\<forall>v \<in> set vs. inv_authority v = authority_default"
    and "\<forall>i v. om_find m i = Some v \<longrightarrow> inv_authority v = authority_default"
    and "om_find (foldl (\<lambda>m v. om_put (inv_id v) v m) m vs) i = Some v"
  shows "inv_authority v = authority_default"
  using assms
proof (induction vs arbitrary: m)
  case (Cons a vs)
  then show ?case by (intro Cons.IH [of "om_put (inv_id a) a m"]) auto
qed simp

text \<open>Whatever the body holds, loading it successfully flags every objective of the new policy, and no
  intervention in the new map carries an authority.\<close>

definition without_authority :: "Impl \<Rightarrow> bool" where
  "without_authority g \<longleftrightarrow> (\<forall>obj \<in> set (po_objectives (g_pol g)). flagged g (o_id obj)) \<and>
     (\<forall>i v. om_find (g_interventions g) i = Some v \<longrightarrow> inv_authority v = authority_default)"

lemma flag_all_fields [simp]:
  "g_pol (flag_all is g) = g_pol g" "g_interventions (flag_all is g) = g_interventions g"
  by (simp_all add: flag_all_def)

lemma flagged_flag_all: "flagged (flag_all is g) i \<longleftrightarrow> i \<in> set is \<or> flagged g i"
  by (simp add: flag_all_def flagged_def flags_find)

lemma without_authority_frame [simp]:
  "without_authority (g\<lparr>g_next_eval_id := a, g_next_int_id := b\<rparr>) = without_authority g"
  "without_authority (g\<lparr>g_outcomes := outs\<rparr>) = without_authority g"
  by (simp_all add: without_authority_def flagged_def)

lemma without_authority_flag_all: "without_authority g \<Longrightarrow> without_authority (flag_all is g)"
  by (simp add: without_authority_def flagged_flag_all)

lemma without_authority_flags: "without_authority g \<Longrightarrow> without_authority (snd (load_flags r g))"
  by (simp add: load_flags_def split_beta Let_def without_authority_flag_all)

lemma without_authority_outcomes: "without_authority g \<Longrightarrow> without_authority (snd (load_outcomes r g))"
  by (simp add: load_outcomes_def split_beta Let_def without_authority_flags)

lemma load_interventions_authority:
  assumes "\<forall>obj \<in> set (po_objectives (g_pol g)). flagged g (o_id obj)" and "is_ok (fst (load_interventions r g))"
  shows "without_authority (snd (load_interventions r g))"
proof -
  obtain n r1 where n: "run_state get_u32 r = (n, r1)" by fastforce
  obtain ints r2 where i: "run_state (get_many (unat n) get_intervention) r1 = (ints, r2)" by fastforce
  have "\<forall>v \<in> set ints. inv_authority v = authority_default"
    using get_many_all [of "\<lambda>v. inv_authority v = authority_default", OF get_intervention_authority, of "unat n" r1]
    by (simp add: i)
  then have "without_authority (g\<lparr>g_interventions := foldl (\<lambda>m v. om_put (inv_id v) v m) om_empty ints\<rparr>)"
    using assms(1) put_all_authority [of ints om_empty] by (auto simp: without_authority_def flagged_def)
  then show ?thesis
    using assms(2) without_authority_outcomes
    by (simp add: load_interventions_def n i is_ok_def status_def split: if_splits)
qed

lemma load_body_authority:
  assumes "is_ok (fst (load_body body g))"
  shows "without_authority (snd (load_body body g))"
proof -
  obtain e r1 where e: "run_state get_u64 (reading body True) = (e, r1)" by fastforce
  obtain i :: TailPolicyId and r2 where i: "run_state get_id r1 = (i, r2)" by fastforce
  obtain gen :: TailPolicyGeneration and r3 where gen: "run_state get_id r2 = (gen, r3)" by fastforce
  obtain n r4 where n: "run_state get_u32 r3 = (n, r4)" by fastforce
  obtain objs r5 where objs: "run_state (get_many (unat n) get_objective) r4 = (objs, r5)" by fastforce
  let ?g = "(flag_all (map o_id objs) g)\<lparr>g_pol := tail_policy_default\<lparr>po_id := i, po_generation := gen,
      po_objectives := objs\<rparr>\<rparr>"
  have "load_body body g = load_interventions r5 ?g"
    using assms by (auto simp: load_body_def e i gen n objs Let_def is_ok_def status_def split: if_splits)
  moreover have "\<forall>obj \<in> set (po_objectives (g_pol ?g)). flagged ?g (o_id obj)"
    by (simp add: flagged_def flag_all_def flags_find)
  ultimately show ?thesis using load_interventions_authority [of ?g r5] assms by simp
qed

lemma load_file_authority:
  assumes "is_ok (fst (load_file file g))"
  shows "without_authority (snd (load_file file g))"
  using assms by (cases rule: load_file_cases [of "file" g]) (auto simp: load_body_authority is_ok_def status_def)

subsection \<open>Properties\<close>

lemma tmp_path_neq [simp]: "tmp_path path \<noteq> path" "path \<noteq> tmp_path path"
  by (simp_all add: tmp_path_def)

lemma save_ops_disk:
  "fold disk_op (save_ops path bs) d = (d(tmp_path path := None))(path \<mapsto> bs)"
  by (auto simp: save_ops_def)

lemma load_saved:
  assumes "persistable g"
  shows "load True path (snd (save True None path g d)) h = (status_ok, restored g h)"
proof -
  have len: "int (length (state_file (save_body g))) \<le> kMaxPersistBytes"
    using length_save_body [OF assms] by (simp add: kMaxPersistBytes_def)
  have "snd (save True None path g d) path = Some (state_file (save_body g))"
    by (simp add: save_def save_ops_disk)
  then show ?thesis
    using load_file_state_file [OF len, of h] load_save_body [OF assms, of h] by (simp add: load_def)
qed

text \<open>Beyond the limits the file is refused, at the latest by its size.\<close>

lemma load_refuses_beyond_limits:
  assumes "representable g" and "\<not> within_limits g"
  shows "fst (load_file (state_file (save_body g)) h) \<noteq> status_ok"
proof (cases rule: load_file_cases [of "state_file (save_body g)" h])
  case (intact body)
  then have "length (save_body g) < 4294967296" by (simp add: kMaxPersistBytes_def)
  then have "fst (load_body (save_body g) h) \<noteq> status_ok"
    using load_save_cases [OF assms(1) small_file_counted, of h] assms(2)
    by (auto simp: within_limits_def Let_def status_ok_def status_def)
  then show ?thesis using intact(1,3) by simp
qed (simp add: status_ok_def status_def)

text \<open>C5: The round trip through the state file. Saving succeeds when the disk does. Loading the file, in
  the same or another process, succeeds exactly when the governor that was saved is within the limits that
  \<open>load\<close> checks and \<open>save\<close> does not: at most 8192 objectives and flags, at most 100000 interventions and
  outcomes. It then brings back the policy but for its name, the outcomes, the identity counters, and the
  interventions but for their authority, economics and reason, which the file leaves out. Epoch and windows
  stay those of the loading governor, and every objective that is in the policy or has a flag now needs
  revalidation.\<close>

theorem load_restores_what_was_saved:
  assumes "representable g" and "h' = snd (load True path (snd (save True None path g d)) h)"
  shows "fst (save True None path g d) = status_ok \<and>
     (fst (load True path (snd (save True None path g d)) h) = status_ok \<longleftrightarrow> within_limits g) \<and>
     (within_limits g \<longrightarrow>
       g_pol h' = (g_pol g)\<lparr>po_name := ''''\<rparr> \<and> g_outcomes h' = g_outcomes g \<and>
       om_find (g_interventions h') = map_option forget \<circ> om_find (g_interventions g) \<and>
       g_next_eval_id h' = g_next_eval_id g \<and> g_next_int_id h' = g_next_int_id g \<and>
       g_cfg h' = g_cfg h \<and> g_windows h' = g_windows h \<and>
       (\<forall>i. flagged h' i \<longleftrightarrow> (\<exists>obj \<in> set (po_objectives (g_pol g)). o_id obj = i) \<or>
          om_find (g_revalidate_needed g) i \<noteq> None \<or> flagged h i))"
proof (cases "within_limits g")
  case True
  then have p: "persistable g" using assms(1) by (simp add: persistable_iff)
  have h': "h' = restored g h" using assms(2) by (simp add: load_saved [OF p])
  have "om_find (g_interventions h') = map_option forget \<circ> om_find (g_interventions g)"
    by (simp add: h' restored_def om_find_def map_of_map)
  moreover have "flagged h' i \<longleftrightarrow> (\<exists>obj \<in> set (po_objectives (g_pol g)). o_id obj = i) \<or>
        om_find (g_revalidate_needed g) i \<noteq> None \<or> flagged h i" for i
  proof -
    have "i \<in> fst ` set (g_revalidate_needed g) \<longleftrightarrow> om_find (g_revalidate_needed g) i \<noteq> None"
      by (simp add: om_find_def map_of_eq_None_iff)
    moreover have "flagged (h\<lparr>g_pol := p, g_interventions := v, g_outcomes := out, g_next_eval_id := a, g_next_int_id := b\<rparr>) i =
        flagged h i" for p v out a b by (simp add: flagged_def)
    ultimately show ?thesis by (auto simp: h' restored_def flagged_flag_all)
  qed
  moreover have "fst (save True None path g d) = status_ok" by (simp add: save_def)
  ultimately show ?thesis
    using True by (simp add: load_saved [OF p] h') (simp add: restored_def flag_all_def)
next
  case False
  have "snd (save True None path g d) path = Some (state_file (save_body g))" by (simp add: save_def save_ops_disk)
  then show ?thesis
    using False load_refuses_beyond_limits [OF assms(1) False, of h] by (simp add: load_def save_def)
qed

definition demo_disk :: Disk where "demo_disk = (\<lambda>_. None)"

lemma demo_persistable: "persistable demo_authorized"
proof -
  have "om_inv (g_interventions demo_authorized)" "om_inv (g_outcomes demo_authorized)"
    "g_interventions demo_authorized = [(Id 1, demo_proposal\<lparr>inv_id := Id 1, inv_generation := Id 2,
       inv_status := AUTHORIZED, inv_proposed_at_ns := 1000\<rparr>)]"
    "g_outcomes demo_authorized = []" "po_objectives (g_pol demo_authorized) = [demo_objective]"
    "length (g_revalidate_needed demo_authorized) = 0"
    by code_simp+
  moreover have "objective_fits demo_objective"
    by (simp add: objective_fits_def demo_objective_def tail_objective_default_def window_config_default_def
        in_i64_def i64_min_def i64_max_def is_u32_def in_i32_def)
  moreover have "intervention_fits (demo_proposal\<lparr>inv_id := Id 1, inv_generation := Id 2,
       inv_status := AUTHORIZED, inv_proposed_at_ns := 1000\<rparr>)"
    by (simp add: intervention_fits_def demo_proposal_def intervention_default_def in_i64_def i64_min_def i64_max_def
        is_u32_def)
  ultimately show ?thesis by (simp add: persistable_def)
qed

lemma load_restores_what_was_saved_witness:
  "om_find (g_interventions (snd (load True ''state'' (snd (save True None ''state'' demo_authorized demo_disk))
      (governor_new demo_config)))) (Id 1) =
     Some (forget (demo_proposal\<lparr>inv_id := Id 1, inv_generation := Id 2, inv_status := AUTHORIZED,
       inv_proposed_at_ns := 1000\<rparr>))"
  using load_restores_what_was_saved [OF _ refl, of demo_authorized "''state''" demo_disk "governor_new demo_config"]
    demo_persistable
  by (simp add: demo_stored persistable_iff)

lemma state_file_prefix:
  assumes "state_file a @ x = state_file b" and "int (length a) \<le> kMaxPersistBytes" and "int (length b) \<le> kMaxPersistBytes"
  shows "x = []"
proof -
  have "take 8 (drop 8 (state_file a @ x)) = take 8 (drop 8 (state_file b))" using assms(1) by simp
  then have "put_u64 (of_nat (length a)) = put_u64 (of_nat (length b))" by (simp add: state_file_def codec_length)
  then have "(of_nat (length a) :: u64) = of_nat (length b)" using u64.enc_inj by blast
  then have "unat (of_nat (length a) :: u64) = unat (of_nat (length b) :: u64)" by simp
  then have "length a = length b" using assms(2,3) by (simp add: unat_of_nat kMaxPersistBytes_def)
  then show ?thesis using arg_cong [OF assms(1), of length] by simp
qed

text \<open>C23: Damage to a state file is detected before anything is changed: a truncated file, a file with bytes
  appended, a file whose 20-byte header differs in any way, and a file in whose body up to four
  consecutive bytes differ are all rejected as corrupt, and the governor stays as it was.\<close>

theorem load_rejects_damage:
  assumes "int (length (state_file body)) \<le> kMaxPersistBytes"
    and "(\<exists>n < length (state_file body). damaged = take n (state_file body)) \<or>
      (\<exists>x. x \<noteq> [] \<and> damaged = state_file body @ x) \<or>
      (\<exists>hdr. length hdr = 20 \<and> hdr \<noteq> take 20 (state_file body) \<and> damaged = hdr @ body) \<or>
      (\<exists>pre xs ys post. body = pre @ xs @ post \<and> length xs = length ys \<and> length xs \<le> 4 \<and> xs \<noteq> ys \<and>
         damaged = take 20 (state_file body) @ pre @ ys @ post)"
  shows "\<exists>msg. load_file damaged g = (status PERSISTENCE_CORRUPT msg, g)"
proof (cases rule: load_file_cases [of damaged g])
  case (intact b)
  have short: "int (length b) \<le> kMaxPersistBytes" "int (length body) \<le> kMaxPersistBytes"
    using intact(1,2) assms(1) by simp_all
  have twenty: "drop 20 (take 20 (state_file c) @ z) = z" "take 20 (state_file c) @ c = state_file c" for c z
    using append_take_drop_id [of 20 "state_file c"] by (simp_all add: state_file_def codec_length)
  from assms(2) have False
  proof (elim disjE exE conjE)
    fix n assume n: "n < length (state_file body)" "damaged = take n (state_file body)"
    then have "state_file b @ drop n (state_file body) = state_file body" using intact(1) by simp
    from state_file_prefix [OF this short] n show False by simp
  next
    fix x assume "x \<noteq> []" "damaged = state_file body @ x"
    then show False using state_file_prefix [of body x b] intact(1) short by simp
  next
    fix hdr assume hdr: "length hdr = 20" "hdr \<noteq> take 20 (state_file body)" "damaged = hdr @ body"
    have "drop 20 (state_file b) = b" by (simp add: state_file_def codec_length)
    then have "b = body" using hdr intact(1) by (metis append_eq_conv_conj)
    then show False using hdr intact(1) by (metis append_eq_conv_conj)
  next
    fix pre xs ys post
    assume b: "body = pre @ xs @ post" "length xs = length ys" "length xs \<le> 4" "xs \<noteq> ys"
      "damaged = take 20 (state_file body) @ pre @ ys @ post"
    have "drop 20 (state_file b) = b" by (simp add: state_file_def codec_length)
    then have eq: "b = pre @ ys @ post" using b(5) intact(1) twenty(1) [of body "pre @ ys @ post"] by simp
    have e: "state_file b = take 20 (state_file body) @ pre @ ys @ post" using intact(1) b(5) by simp
    have "take 20 (state_file b) = take 20 (state_file body)" unfolding e by simp
    then have "drop 16 (take 20 (state_file b)) = drop 16 (take 20 (state_file body))" by simp
    then have "put_u32 (crc32 b) = put_u32 (crc32 body)" by (simp add: state_file_def codec_length)
    then have "crc32 b = crc32 body" using u32.enc_inj by blast
    then show False using crc32_burst_distinct [OF b(2-4), of pre post] eq b(1) by simp
  qed
  then show ?thesis ..
qed auto

lemma load_rejects_damage_witness:
  "\<exists>msg. load_file (state_file [1, 2, 3] @ [0]) demo_governor = (status PERSISTENCE_CORRUPT msg, demo_governor)"
  by (rule load_rejects_damage [of "[1, 2, 3]"]) (simp_all add: kMaxPersistBytes_def)

text \<open>C31: Whatever moment a save is interrupted at, the previous state file or the complete new one is still
  on disk, under its own name or, between removal and renaming, the new one under the temporary
  name; no other file is touched, and after the last step only the new file is left.\<close>

theorem save_survives_interruption:
  assumes "new = state_file (save_body g)" and "d' = fold disk_op (take n (save_ops path new)) d"
  shows "(d' path = d path \<or> d' path = Some new \<or> (d' path = None \<and> d' (tmp_path path) = Some new)) \<and>
     (\<forall>p. p \<noteq> path \<and> p \<noteq> tmp_path path \<longrightarrow> d' p = d p) \<and>
     (4 \<le> n \<longrightarrow> d' = (d(tmp_path path := None))(path \<mapsto> new)) \<and>
     fold disk_op (save_ops path new) d = snd (save True None path g d)"
proof -
  consider "n = 0" | "n = 1" | "n = 2" | "n = 3" | "4 \<le> n" by linarith
  then show ?thesis
    by cases (auto simp: assms save_ops_def save_def numeral_3_eq_3 numeral_2_eq_2)
qed

lemma save_survives_interruption_witness:
  "let d' = fold disk_op (take 3 (save_ops ''state'' (state_file (save_body demo_authorized)))) demo_disk
   in d' ''state'' = None \<and> d' (tmp_path ''state'') = Some (state_file (save_body demo_authorized))"
  using save_survives_interruption [OF refl refl, of 3 "''state''" demo_authorized demo_disk]
  by (simp add: Let_def save_ops_def numeral_3_eq_3)

text \<open>A load never brings back the right to act. After any file was loaded successfully, no stored
  intervention can be dispatched, whatever its status: none carries the authority of the running
  governor.\<close>

lemma load_fences_dispatch:
  assumes "is_ok (fst (load_file bytes h))"
  shows "fst (dispatch i (snd (load_file bytes h))) \<noteq> Inr w"
proof
  assume "fst (dispatch i (snd (load_file bytes h))) = Inr w"
  then obtain v obj where v: "om_find (g_interventions (snd (load_file bytes h))) i = Some v"
    "inv_authority v = current_authority obj (snd (load_file bytes h))"
    by (auto simp: dispatch_iff dispatchable_def)
  then have "current_authority obj (snd (load_file bytes h)) = authority_default"
    using load_file_authority [OF assms] by (auto simp: without_authority_def)
  then show False by (simp add: current_authority_def authority_default_def)
qed

lemma demo_loads: "is_ok (fst (load_file (state_file (save_body demo_authorized)) (governor_new demo_config)))"
proof -
  have "int (length (state_file (save_body demo_authorized))) \<le> kMaxPersistBytes"
    using length_save_body [OF demo_persistable] by (simp add: kMaxPersistBytes_def)
  then show ?thesis
    by (simp add: load_file_state_file load_save_body [OF demo_persistable] is_ok_def status_ok_def)
qed

text \<open>After a successful load every objective of the loaded policy must be revalidated: its evaluation
  is \<open>REVALIDATION_REQUIRED\<close>, counts its evidence as stale and suggests nothing, until fresh evidence
  is ingested.\<close>

lemma load_forces_revalidation:
  assumes "is_ok (fst (load_file bytes h))" and "fst (evaluate i (snd (load_file bytes h))) = Inr ev"
  shows "ev_state ev = REVALIDATION_REQUIRED \<and> ev_sufficiency ev = Sufficiency.STALE \<and>
     ev_selected_intervention ev = NO_ACTION"
proof -
  let ?g = "snd (load_file bytes h)"
  show ?thesis
  proof (cases rule: evaluate_cases [of ?g i])
    case (evaluated obj)
    have "obj \<in> set (po_objectives (g_pol ?g))" and id: "o_id obj = i"
      using evaluated(2) find_objective_id [OF evaluated(2)] by (auto simp: find_objective_def find_Some_iff)
    then have fl: "flagged ?g i" using load_file_authority [OF assms(1)] by (auto simp: without_authority_def)
    have ev: "ev = evaluation_of obj ?g" using evaluated assms(2) by simp
    have st: "ev_state ev = REVALIDATION_REQUIRED" using fl id by (simp add: ev new_state_value)
    then have "ev_selected_intervention ev = NO_ACTION"
      using selected_for_a_tail [OF assms(2)] by auto
    moreover have "ev_sufficiency ev = Sufficiency.STALE"
      using fl id by (simp add: ev base_evaluation_def measured_def Let_def split_beta sufficiency_of_def)
    ultimately show ?thesis using st by simp
  qed (use assms(2) in auto)
qed

lemma demo_restored:
  "snd (load_file (state_file (save_body demo_authorized)) (governor_new demo_config)) =
     restored demo_authorized (governor_new demo_config)"
proof -
  have "int (length (state_file (save_body demo_authorized))) \<le> kMaxPersistBytes"
    using length_save_body [OF demo_persistable] by (simp add: kMaxPersistBytes_def)
  then show ?thesis by (simp add: load_file_state_file load_save_body [OF demo_persistable])
qed

text \<open>C16: A load never brings back the right to act, whatever the file holds. After any file was loaded
  successfully, no stored intervention can be dispatched, whatever its status, and every evaluation that
  succeeds is \<open>REVALIDATION_REQUIRED\<close>, counts its evidence as stale and suggests nothing.\<close>

theorem load_restores_no_authority:
  assumes "is_ok (fst (load_file bytes h))"
  shows "(\<forall>i w. fst (dispatch i (snd (load_file bytes h))) \<noteq> Inr w) \<and>
     (\<forall>i ev. fst (evaluate i (snd (load_file bytes h))) = Inr ev \<longrightarrow>
        ev_state ev = REVALIDATION_REQUIRED \<and> ev_sufficiency ev = Sufficiency.STALE \<and>
        ev_selected_intervention ev = NO_ACTION)"
  using load_fences_dispatch [OF assms] load_forces_revalidation [OF assms] by blast

lemma load_restores_no_authority_witness:
  "(\<nexists>w. fst (dispatch (Id 1) (snd (load_file (state_file (save_body demo_authorized)) (governor_new demo_config)))) = Inr w) \<and>
   (\<exists>ev. fst (evaluate (Id 1) (snd (load_file (state_file (save_body demo_authorized)) (governor_new demo_config)))) = Inr ev \<and>
     ev_state ev = REVALIDATION_REQUIRED \<and> ev_selected_intervention ev = NO_ACTION)"
proof -
  let ?g = "snd (load_file (state_file (save_body demo_authorized)) (governor_new demo_config))"
  have "find_objective (Id 1) ?g = Some demo_objective"
    using demo_frame(2) by (simp add: demo_restored restored_def find_objective_def)
  moreover have "\<not> g_shutting_down ?g"
    unfolding demo_restored by (simp add: restored_def flag_all_def governor_new_def)
  ultimately obtain ev where ev: "fst (evaluate (Id 1) ?g) = Inr ev"
    using demo_frame(5) by (cases rule: evaluate_cases [of ?g "Id 1"]) auto
  then show ?thesis using load_restores_no_authority [OF demo_loads] by blast
qed

end
