(* ===== verification/Runs.thy ===== *)
theory Runs
  imports Decisions Persistence
begin

text \<open>
  Runs of the governor: every public operation that changes its state, in any order, from construction
  on. The lemmas show what holds in every state that can be reached and what stays true along a run.
\<close>

subsection \<open>Operations\<close>

datatype GovOp =
    RegisterWorker WorkerId WorkerBootId
  | UnregisterWorker WorkerId
  | SetPolicy TailPolicy
  | AdvanceEpoch
  | SetResourceGeneration ResourceGeneration
  | SetQueueGeneration QueueGeneration
  | SetBatchGeneration BatchGeneration
  | SetRecoveryGeneration RecoveryGeneration
  | SetTopologyGeneration TopologyGeneration
  | SetEngineIncarnation EngineIncarnationId
  | SetResourceFacts ResourceFacts
  | BeginShutdown
  | Ingest RequestLatency
  | EvaluateOne TailObjectiveId
  | EvaluateAll
  | InspectWindow TailObjectiveId RequestClassId
  | Decide
  | Authorize Intervention
  | Dispatch InterventionId
  | Acknowledge InterventionId
  | RecordOutcome InterventionId PostOutcome
  | Cancel InterventionId
  | Supersede InterventionId string
  | Load "byte list"

fun perform :: "GovOp \<Rightarrow> Impl \<Rightarrow> Impl" where
  "perform (RegisterWorker i boot) g = snd (register_worker i boot g)"
| "perform (UnregisterWorker i) g = snd (unregister_worker i g)"
| "perform (SetPolicy p) g = set_policy p g"
| "perform AdvanceEpoch g = advance_epoch g"
| "perform (SetResourceGeneration v) g = set_resource_generation v g"
| "perform (SetQueueGeneration v) g = set_queue_generation v g"
| "perform (SetBatchGeneration v) g = set_batch_generation v g"
| "perform (SetRecoveryGeneration v) g = set_recovery_generation v g"
| "perform (SetTopologyGeneration v) g = set_topology_generation v g"
| "perform (SetEngineIncarnation v) g = set_engine_incarnation v g"
| "perform (SetResourceFacts f) g = set_resource_facts f g"
| "perform BeginShutdown g = begin_shutdown g"
| "perform (Ingest ev) g = snd (ingest ev g)"
| "perform (EvaluateOne i) g = snd (evaluate i g)"
| "perform EvaluateAll g = snd (evaluate_all g)"
| "perform (InspectWindow i c) g = snd (inspect_window i c g)"
| "perform Decide g = snd (decide g)"
| "perform (Authorize p) g = snd (authorize p g)"
| "perform (Dispatch i) g = snd (dispatch i g)"
| "perform (Acknowledge i) g = snd (acknowledge i g)"
| "perform (RecordOutcome i po) g = snd (record_outcome i po g)"
| "perform (Cancel i) g = snd (cancel i g)"
| "perform (Supersede i reason) g = snd (supersede i reason g)"
| "perform (Load bytes) g = snd (load_file bytes g)"

inductive reachable :: "GovernorConfig \<Rightarrow> Impl \<Rightarrow> bool" for cfg where
  constructed: "reachable cfg (governor_new cfg)"
| performed: "reachable cfg g \<Longrightarrow> reachable cfg (perform op g)"

inductive_cases reachableE: "reachable cfg g"

definition run :: "GovOp list \<Rightarrow> Impl \<Rightarrow> Impl" where "run ops g = fold perform ops g"

lemma run_simps [simp]: "run [] g = g" "run (op # ops) g = run ops (perform op g)"
  by (simp_all add: run_def)

lemma reachable_run: "reachable cfg g \<Longrightarrow> reachable cfg (run ops g)"
  by (induction ops arbitrary: g) (auto intro: performed)

text \<open>The states reached are exactly those of the finite runs.\<close>

lemma reachable_iff_run: "reachable cfg g \<longleftrightarrow> (\<exists>ops. g = run ops (governor_new cfg))"
proof
  show "reachable cfg g \<Longrightarrow> \<exists>ops. g = run ops (governor_new cfg)"
  proof (induction rule: reachable.induct)
    case constructed
    show ?case by (intro exI [of _ "[]"]) simp
  next
    case (performed g op)
    then obtain ops where "g = run ops (governor_new cfg)" by blast
    then show ?case by (intro exI [of _ "ops @ [op]"]) (simp add: run_def)
  qed
qed (auto intro: reachable_run constructed)

text \<open>The contract of an invariant, and what it gives: it holds in every reachable state.\<close>

locale governor_invariant =
  fixes I :: "Impl \<Rightarrow> bool"
  assumes initially: "I (governor_new cfg)" and preserved: "I g \<Longrightarrow> I (perform op g)"
begin

lemma along_runs: "I g \<Longrightarrow> I (run ops g)"
  by (induction ops arbitrary: g) (simp_all add: preserved del: perform.simps)

lemma everywhere: "reachable cfg g \<Longrightarrow> I g"
  by (induction rule: reachable.induct) (simp_all add: initially preserved del: perform.simps)

end

subsection \<open>What the evidence depends on\<close>

text \<open>An operation that touches neither the windows nor the memory of past evaluations.\<close>

definition keeps_evidence :: "Impl \<Rightarrow> Impl \<Rightarrow> bool" where
  "keeps_evidence g h \<longleftrightarrow> g_windows h = g_windows g \<and> gc_epoch (g_cfg h) = gc_epoch (g_cfg g) \<and>
     g_last_state h = g_last_state g \<and> g_recover_streak h = g_recover_streak g \<and> g_seen h = g_seen g \<and>
     (\<forall>i. flagged g i \<longrightarrow> flagged h i)"

lemma keeps_evidence_refl [simp]: "keeps_evidence g g"
  by (simp add: keeps_evidence_def)

lemma keeps_evidence_trans: "keeps_evidence g h \<Longrightarrow> keeps_evidence h k \<Longrightarrow> keeps_evidence g k"
  by (simp add: keeps_evidence_def)

lemma keeps_evidence_reads [simp]: "keeps_evidence g (g\<lparr>g_reads := n\<rparr>)"
  by (simp add: keeps_evidence_def flagged_def)

lemma keeps_set_status [simp]: "keeps_evidence g (set_status i s g)"
  by (simp add: keeps_evidence_def set_status_def flagged_def split: option.split)

lemma keeps_authorize: "keeps_evidence g (snd (authorize p g))"
  by (cases rule: authorize_cases [of p g]) (auto simp: keeps_evidence_def flagged_def)

lemma keeps_dispatch: "keeps_evidence g (snd (dispatch i g))"
  by (simp add: dispatch_def split: option.split)

lemma keeps_acknowledge: "keeps_evidence g (snd (acknowledge i g))"
  by (simp add: acknowledge_def split: option.split)

lemma keeps_cancel: "keeps_evidence g (snd (cancel i g))"
  by (simp add: cancel_def split: option.split)

lemma keeps_supersede: "keeps_evidence g (snd (supersede i reason g))"
  by (simp add: supersede_def keeps_evidence_def flagged_def split: option.split)

lemma keeps_outcome: "keeps_evidence g (snd (record_outcome i outcome g))"
proof -
  have "keeps_evidence g (h\<lparr>g_outcomes := x\<rparr>)" if "keeps_evidence g h" for h x
    using that by (simp add: keeps_evidence_def flagged_def)
  then show ?thesis by (simp add: record_outcome_def Let_def split: option.split)
qed

lemma keeps_inspect: "keeps_evidence g (snd (inspect_window i c g))"
  by (simp add: inspect_window_def read_now_def Let_def split: option.split)

lemma keeps_decide_on: "keeps_evidence g (snd (decide_on chosen g))"
proof (cases rule: decide_on_cases [of chosen g])
  case (acts p h v)
  obtain n where "h = g\<lparr>g_reads := n\<rparr>" using proposal_value [of chosen g] acts(5) by metis
  then have "keeps_evidence g h" by simp
  then show ?thesis using keeps_evidence_trans [OF _ keeps_authorize, of g h p] acts(8) by simp
qed simp

lemma keeps_load_flags: "keeps_evidence g (snd (load_flags r g))"
  by (simp add: load_flags_def split_beta Let_def keeps_evidence_def flagged_def flag_all_def flags_find)

lemma keeps_load_outcomes: "keeps_evidence g (snd (load_outcomes r g))"
  using keeps_load_flags
  by (simp add: load_outcomes_def split_beta Let_def keeps_evidence_def flagged_def)

lemma keeps_load_interventions: "keeps_evidence g (snd (load_interventions r g))"
  using keeps_load_outcomes
  by (simp add: load_interventions_def split_beta Let_def keeps_evidence_def flagged_def)

lemma keeps_load_body: "keeps_evidence g (snd (load_body body g))"
proof -
  have f: "keeps_evidence g (flag_all is g)" for "is"
    by (simp add: keeps_evidence_def flagged_flag_all) (simp add: flag_all_def)
  have "keeps_evidence g (snd (load_interventions r ((flag_all is g)\<lparr>g_pol := p\<rparr>)))" for r "is" p
  proof -
    have "keeps_evidence g ((flag_all is g)\<lparr>g_pol := p\<rparr>)"
      using f [of "is"] by (simp add: keeps_evidence_def flagged_def)
    then show ?thesis using keeps_evidence_trans keeps_load_interventions by blast
  qed
  then show ?thesis using f by (simp add: load_body_def split_beta Let_def)
qed

lemma keeps_load: "keeps_evidence g (snd (load_file bytes g))"
  by (cases rule: load_file_cases [of bytes g]) (simp_all add: keeps_load_body)

lemmas keeps_operations = keeps_authorize keeps_dispatch keeps_acknowledge keeps_cancel keeps_supersede
  keeps_outcome keeps_inspect keeps_load

text \<open>An evaluation keeps the flags, too, and \<open>decide\<close> does to the evidence what \<open>evaluate_all\<close> does.\<close>

lemma flagged_evaluate: "flagged (snd (evaluate i g)) j = flagged g j"
proof (cases rule: evaluate_cases [of g i])
  case (evaluated obj)
  have "g_revalidate_needed (snd (evaluate i g)) = snd (om_index False (g_revalidate_needed g) (o_id obj))"
    using evaluate_enabled_value [of obj g] by (auto simp: evaluated(4))
  then show ?thesis by (simp add: flagged_def om_index_snd split: option.split)
qed simp_all

lemma keeps_decide: "keeps_evidence (if g_shutting_down g then g else snd (evaluate_all g)) (snd (decide g))"
  by (cases rule: decide_cases [of g]) (simp_all add: keeps_decide_on)

lemma evaluate_all_invariant: "(\<And>i h. I h \<Longrightarrow> I (snd (evaluate i h))) \<Longrightarrow> I g \<Longrightarrow> I (snd (evaluate_all g))"
  unfolding evaluate_all_def by (rule evaluate_loop_invariant)

text \<open>
  So a predicate on the evidence holds after an operation when the five operations that touch the
  evidence preserve it.
\<close>

lemma perform_invariant:
  assumes "I g" and keeps: "\<And>g h. keeps_evidence g h \<Longrightarrow> I g \<Longrightarrow> I h"
    and "\<And>ev g. I g \<Longrightarrow> op = Ingest ev \<Longrightarrow> I (snd (ingest ev g))" and eval: "\<And>i g. I g \<Longrightarrow> I (snd (evaluate i g))"
    and "\<And>g. I g \<Longrightarrow> op = AdvanceEpoch \<Longrightarrow> I (advance_epoch g)"
  shows "I (perform op g)"
proof (cases op)
  case Decide
  have "I (if g_shutting_down g then g else snd (evaluate_all g))"
    using assms(1) evaluate_all_invariant [of I, OF eval] by simp
  then show ?thesis using keeps keeps_decide [of g] Decide by simp
next
  case EvaluateAll
  then show ?thesis using assms(1) evaluate_all_invariant [of I, OF eval] by simp
qed (use assms(1,3-5) keeps [OF keeps_operations(1)] keeps [OF keeps_operations(2)] keeps [OF keeps_operations(3)]
    keeps [OF keeps_operations(4)] keeps [OF keeps_operations(5)] keeps [OF keeps_operations(6)]
    keeps [OF keeps_operations(7)] keeps [OF keeps_operations(8)] in
    \<open>auto intro!: keeps [of g] simp: keeps_evidence_def flagged_def register_worker_def unregister_worker_def
       set_policy_def set_resource_generation_def set_queue_generation_def set_batch_generation_def
       set_recovery_generation_def set_topology_generation_def set_engine_incarnation_def set_resource_facts_def
       begin_shutdown_def\<close>)

text \<open>All retained samples are of the current epoch and have a latency that is not negative.\<close>

definition evidence_inv :: "Impl \<Rightarrow> bool" where
  "evidence_inv g \<longleftrightarrow> windows_good (\<lambda>s. ts_epoch s = gc_epoch (g_cfg g) \<and> 0 \<le> nanos (ts_latency s)) g \<and> streak_inv g"

lemma streak_inv_keeps: "keeps_evidence g h \<Longrightarrow> streak_inv g \<Longrightarrow> streak_inv h"
  by (simp add: keeps_evidence_def streak_inv_def prev_state_def streak_of_def)

lemma evidence_inv_perform:
  assumes "evidence_inv g"
  shows "evidence_inv (perform op g)"
  using assms
proof (rule perform_invariant)
  show "evidence_inv h" if "keeps_evidence g h" and "evidence_inv g" for g h
    using that streak_inv_keeps [OF that(1)] by (simp add: evidence_inv_def windows_good_def keeps_evidence_def)
  show "evidence_inv (snd (evaluate i g))" if "evidence_inv g" for i g
    using that evaluate_good evaluate_streak_inv by (simp add: evidence_inv_def frame)
  show "evidence_inv (advance_epoch g)" if "evidence_inv g" for g
    using that by (simp add: evidence_inv_def advance_epoch_def Let_def windows_good_def streak_inv_def
        prev_state_def streak_of_def)
  show "evidence_inv (snd (ingest ev g))" if g: "evidence_inv g" for ev g
  proof -
    have e: "gc_epoch (g_cfg (snd (ingest ev g))) = gc_epoch (g_cfg g)"
      and s: "g_last_state (snd (ingest ev g)) = g_last_state g" "g_recover_streak (snd (ingest ev g)) = g_recover_streak g"
    proof -
      have "g_cfg (foldl (ingest_objective cls x) g objs) = g_cfg g \<and>
          g_last_state (foldl (ingest_objective cls x) g objs) = g_last_state g \<and>
          g_recover_streak (foldl (ingest_objective cls x) g objs) = g_recover_streak g" for cls x objs
        using ingest_objectives_eq [of cls x g objs] by auto
      then show "gc_epoch (g_cfg (snd (ingest ev g))) = gc_epoch (g_cfg g)"
        "g_last_state (snd (ingest ev g)) = g_last_state g" "g_recover_streak (snd (ingest ev g)) = g_recover_streak g"
        by (cases rule: ingest_cases [of ev g]; simp)+
    qed
    have "windows_good (\<lambda>s. ts_epoch s = gc_epoch (g_cfg g) \<and> 0 \<le> nanos (ts_latency s)) (snd (ingest ev g))"
      using g by (intro ingest_good) (auto simp: evidence_inv_def make_sample_def acceptable_def total_of_nonneg)
    then show ?thesis
      using g by (simp add: evidence_inv_def e s streak_inv_def prev_state_def streak_of_def)
  qed
qed

interpretation evidence: governor_invariant evidence_inv
proof
  show "evidence_inv (governor_new cfg)" for cfg
    by (simp add: evidence_inv_def windows_good_def streak_inv_def governor_new_def prev_state_def)
qed (rule evidence_inv_perform)

subsection \<open>What happens to the interventions\<close>

text \<open>One operation other than a load leaves the interventions alone, moves one of them by one step of its
  lifecycle, or adds one that is authorised, under the next identity or, where
  \<open>names\<close> allows it, the one the proposal names.\<close>

inductive intervention_change :: "bool \<Rightarrow> Impl \<Rightarrow> Impl \<Rightarrow> bool" for names where
  unchanged: "g_interventions h = g_interventions g \<Longrightarrow> g_next_int_id h = g_next_int_id g \<Longrightarrow> intervention_change names g h"
| moved: "om_find (g_interventions g) i = Some v \<Longrightarrow> same_intervention v v' \<Longrightarrow>
    status_step (inv_status v) (inv_status v') \<Longrightarrow> g_interventions h = om_put i v' (g_interventions g) \<Longrightarrow>
    g_next_int_id h = g_next_int_id g \<Longrightarrow> intervention_change names g h"
| added: "inv_status v = AUTHORIZED \<Longrightarrow> inv_id v = Id (g_next_int_id g) \<Longrightarrow>
    g_interventions h = om_put (inv_id v) v (g_interventions g) \<Longrightarrow>
    g_next_int_id h = g_next_int_id g + 1 \<Longrightarrow> intervention_change names g h"
| named: "names \<Longrightarrow> inv_status v = AUTHORIZED \<Longrightarrow> inv_id v \<noteq> Id 0 \<Longrightarrow>
    g_interventions h = om_put (inv_id v) v (g_interventions g) \<Longrightarrow>
    g_next_int_id h = g_next_int_id g \<Longrightarrow> intervention_change names g h"

lemma change_set_status:
  assumes "om_find (g_interventions g) i = Some v" and "status_step (inv_status v) s"
  shows "intervention_change names g (set_status i s g)"
  using assms by (intro moved [where v' = "v\<lparr>inv_status := s\<rparr>"]) (simp_all add: set_status_def)

lemma change_dispatch: "intervention_change names g (snd (dispatch i g))"
proof (cases "om_find (g_interventions g) i")
  case (Some v)
  then show ?thesis
    by (auto simp: dispatch_def terminal_status_def intro!: unchanged change_set_status intro: status_step.intros split: option.split)
qed (simp add: dispatch_def unchanged)

lemma change_acknowledge: "intervention_change names g (snd (acknowledge i g))"
  by (auto simp: acknowledge_def intro!: unchanged change_set_status intro: status_step.intros split: option.split)

lemma change_cancel: "intervention_change names g (snd (cancel i g))"
  by (auto simp: cancel_def intro!: unchanged change_set_status intro: status_step.intros split: option.split)

lemma change_supersede: "intervention_change names g (snd (supersede i reason g))"
proof (cases "om_find (g_interventions g) i")
  case (Some v)
  show ?thesis
  proof (cases "is_terminal v")
    case False
    let ?v' = "v\<lparr>inv_status := SUPERSEDED, inv_reason := (if reason \<noteq> [] then inv_reason v @ '' (superseded: '' @ reason @ '')''
        else inv_reason v)\<rparr>"
    show ?thesis
      using Some False
      by (intro moved [where v = v and v' = ?v']) (auto simp: supersede_def is_terminal_def intro: status_step.superseded)
  qed (simp add: supersede_def Some unchanged)
qed (simp add: supersede_def unchanged)

lemma change_outcome: "intervention_change names g (snd (record_outcome i outcome g))"
proof (cases "om_find (g_interventions g) i")
  case (Some v)
  have frame: "intervention_change names g (h\<lparr>g_outcomes := x\<rparr>)" if "intervention_change names g h" for h x
    using that by cases (auto intro: intervention_change.intros)
  show ?thesis
    using Some outcome_status_step [of outcome _ "inv_status v"]
    by (auto simp: record_outcome_def is_terminal_def Let_def intro!: unchanged frame change_set_status split: option.split)
qed (simp add: record_outcome_def unchanged)

lemma change_authorize:
  assumes "inv_id p = Id 0 \<or> names"
  shows "intervention_change names g (snd (authorize p g))"
proof (cases rule: authorize_cases [of p g])
  case (authorized out)
  obtain gen t where out: "out = p\<lparr>inv_status := AUTHORIZED, inv_id := fresh_id p g, inv_generation := gen, inv_proposed_at_ns := t\<rparr>"
    using authorized(3) by blast
  obtain n t' where h: "snd (authorize p g) = g\<lparr>g_next_int_id := (if inv_id p = Id 0 then g_next_int_id g + 1 else g_next_int_id g),
      g_reads := n, g_interventions := om_put (fresh_id p g) out (g_interventions g),
      g_last_intervention_ns := om_put (inv_objective p) t' (g_last_intervention_ns g)\<rparr>"
    using authorized(4) by blast
  show ?thesis
  proof (cases "inv_id p = Id 0")
    case True
    then show ?thesis by (intro added [where v = out]) (simp_all add: h out fresh_id_def)
  next
    case False
    then show ?thesis using assms by (intro named [where v = out]) (simp_all add: h out fresh_id_def)
  qed
next
  case (refused s)
  then show ?thesis by (auto intro: unchanged)
qed

lemma change_same:
  assumes "intervention_change names h k" and "g_interventions h = g_interventions g" and "g_next_int_id h = g_next_int_id g"
  shows "intervention_change names g k"
  using assms(1) by cases (use assms(2,3) in \<open>auto intro: intervention_change.intros\<close>)

lemma change_decide: "intervention_change names g (snd (decide g))"
proof (cases rule: decide_cases [of g])
  case shutdown
  then show ?thesis by (simp add: unchanged)
next
  case (quiet d)
  then show ?thesis using same_frame_evaluate_all [of g] by (simp add: unchanged same_frame_def)
next
  case (binding b)
  have "intervention_change names (snd (evaluate_all g)) (snd (decide_on b (snd (evaluate_all g))))"
  proof (cases rule: decide_on_cases [of b "snd (evaluate_all g)"])
    case (acts p h v)
    obtain n where "h = (snd (evaluate_all g))\<lparr>g_reads := n\<rparr>" and "inv_id p = Id 0"
      using proposal_value [of b "snd (evaluate_all g)"] acts(4,5) by metis
    then show ?thesis using change_same [OF change_authorize [of p names h]] acts(8) by simp
  qed (simp add: unchanged)
  then show ?thesis
    using change_same [of names "snd (evaluate_all g)" _ g] same_frame_evaluate_all [of g] binding(4)
    by (simp add: same_frame_def)
qed

text \<open>A load replaces the interventions; \<open>orderly\<close> operations are the others, with proposals that leave the
  choice of the identity to the governor.\<close>

definition orderly :: "GovOp \<Rightarrow> bool" where
  "orderly op \<longleftrightarrow> (case op of Load _ \<Rightarrow> False | Authorize p \<Rightarrow> inv_id p = Id 0 | _ \<Rightarrow> True)"

lemma change_perform:
  assumes "orderly op \<or> names" and "\<And>bytes. op \<noteq> Load bytes"
  shows "intervention_change names g (perform op g)"
proof (cases op)
  case (Ingest ev)
  have "g_interventions (foldl (ingest_objective cls x) g objs) = g_interventions g \<and>
      g_next_int_id (foldl (ingest_objective cls x) g objs) = g_next_int_id g" for cls x objs
    using ingest_objectives_eq [of cls x g objs] by auto
  then show ?thesis by (cases rule: ingest_cases [of ev g]) (simp_all add: Ingest unchanged)
next
  case EvaluateAll
  then show ?thesis using same_frame_evaluate_all [of g] by (simp add: unchanged same_frame_def)
next
  case (InspectWindow i c)
  then show ?thesis by (simp add: unchanged inspect_window_def read_now_def Let_def split: option.split)
next
  case (Authorize p)
  then show ?thesis using assms(1) change_authorize [of p names] by (auto simp: orderly_def)
next
  case (Load bytes)
  then show ?thesis using assms(2) by blast
qed (simp_all add: change_decide change_dispatch change_acknowledge change_cancel change_supersede change_outcome,
  simp_all add: unchanged frame register_worker_def unregister_worker_def set_policy_def advance_epoch_def Let_def
    set_resource_generation_def set_queue_generation_def set_batch_generation_def set_recovery_generation_def
    set_topology_generation_def set_engine_incarnation_def set_resource_facts_def begin_shutdown_def)

lemma orderly_change: "orderly op \<Longrightarrow> intervention_change False g (perform op g)"
  by (rule change_perform) (auto simp: orderly_def)

subsection \<open>Interventions are stored under their own identity\<close>

definition keyed :: "(InterventionId, Intervention) omap \<Rightarrow> bool" where
  "keyed m \<longleftrightarrow> om_inv m \<and> (\<forall>i v. om_find m i = Some v \<longrightarrow> inv_id v = i)"

lemma keyed_empty [simp]: "keyed om_empty"
  by (simp add: keyed_def)

lemma keyed_put: "keyed m \<Longrightarrow> keyed (om_put (inv_id v) v m)"
  by (auto simp: keyed_def)

lemma keyed_change: "intervention_change names g h \<Longrightarrow> keyed (g_interventions g) \<Longrightarrow> keyed (g_interventions h)"
proof (induction rule: intervention_change.induct)
  case (moved g i v v' h)
  then have "inv_id v' = i" using same_intervention_fields(1) [OF moved.hyps(2)] by (simp add: keyed_def)
  then show ?case using keyed_put [OF moved.prems, of v'] moved.hyps(4) by simp
next
  case (added v g h)
  then show ?case using keyed_put [OF added.prems, of v] by simp
qed (simp_all add: keyed_put)

lemma keyed_load: "keyed (g_interventions g) \<Longrightarrow> keyed (g_interventions (snd (load_file bytes g)))"
proof -
  assume g: "keyed (g_interventions g)"
  have all: "keyed (foldl (\<lambda>m v. om_put (inv_id v) v m) m vs)" if "keyed m" for m vs
    using that by (induction vs arbitrary: m) (simp_all add: keyed_put)
  have f: "g_interventions (snd (load_flags r h)) = g_interventions h" for r h
    by (simp add: load_flags_def split_beta Let_def flag_all_def)
  then have "g_interventions (snd (load_outcomes r h)) = g_interventions h" for r h
    by (simp add: load_outcomes_def split_beta Let_def)
  then have "keyed (g_interventions h) \<Longrightarrow> keyed (g_interventions (snd (load_interventions r h)))" for r h
    by (simp add: load_interventions_def split_beta Let_def all)
  then have "keyed (g_interventions (snd (load_body body g)))" for body
    using g by (simp add: load_body_def split_beta Let_def)
  then show ?thesis using g by (cases rule: load_file_cases [of bytes g]) simp_all
qed

interpretation keyed: governor_invariant "\<lambda>g. keyed (g_interventions g)"
proof
  show "keyed (g_interventions (governor_new cfg))" for cfg by (simp add: governor_new_def)
  show "keyed (g_interventions (perform op g))" if "keyed (g_interventions g)" for g op
  proof (cases "\<exists>bytes. op = Load bytes")
    case True
    then show ?thesis using keyed_load that by auto
  next
    case False
    then show ?thesis using keyed_change [OF change_perform [of op True]] that by blast
  qed
qed

subsection \<open>The abstract lifecycle\<close>

text \<open>
  What the interventions promise their users: a map from identities to statuses in which a new identity
  starts as \<open>AUTHORIZED\<close> and a known one moves along \<open>status_step\<close>.
\<close>

type_synonym Lifecycle = "InterventionId \<Rightarrow> InterventionStatus option"

inductive lifecycle_step :: "Lifecycle \<Rightarrow> Lifecycle \<Rightarrow> bool" where
  idle: "lifecycle_step m m"
| move: "m i = Some s \<Longrightarrow> status_step s t \<Longrightarrow> lifecycle_step m (m(i \<mapsto> t))"
| start: "m i = None \<Longrightarrow> lifecycle_step m (m(i \<mapsto> AUTHORIZED))"

inductive_simps lifecycle_step_iff: "lifecycle_step m m'"

definition lifecycle_of :: "Impl \<Rightarrow> Lifecycle" where
  "lifecycle_of g i = map_option inv_status (om_find (g_interventions g) i)"

lemma lifecycle_of_put:
  "g_interventions h = om_put i v (g_interventions g) \<Longrightarrow> lifecycle_of h = (lifecycle_of g)(i \<mapsto> inv_status v)"
  by (simp add: lifecycle_of_def fun_eq_iff)

text \<open>Identities are handed out in order, so the next one is new as long as the counter has not wrapped.\<close>

definition numbered :: "nat \<Rightarrow> Impl \<Rightarrow> bool" where
  "numbered n g \<longleftrightarrow> unat (g_next_int_id g) \<le> n \<and>
     (\<forall>i v. om_find (g_interventions g) i = Some v \<longrightarrow> unat (id_value i) < unat (g_next_int_id g))"

lemma change_refines:
  assumes "intervention_change False g h" and "numbered n g" and "n + 1 < 2 ^ 64"
  shows "numbered (n + 1) h \<and> lifecycle_step (lifecycle_of g) (lifecycle_of h)"
  using assms(1)
proof cases
  case unchanged
  then have "lifecycle_of h = lifecycle_of g" by (simp add: lifecycle_of_def fun_eq_iff)
  then show ?thesis using assms(2) unchanged by (simp add: numbered_def idle)
next
  case (moved i v v')
  then show ?thesis
    using assms(2) lifecycle_of_put [OF moved(4)] move [of "lifecycle_of g" i "inv_status v" "inv_status v'"]
    by (auto simp: numbered_def lifecycle_of_def)
next
  case (added v)
  have "unat (g_next_int_id g + 1) = unat (g_next_int_id g) + 1"
    using assms(2,3) by (simp add: numbered_def unat_word_ariths(1))
  moreover have "lifecycle_of g (inv_id v) = None"
  proof (cases "om_find (g_interventions g) (inv_id v)")
    case (Some w)
    then have "unat (id_value (inv_id v)) < unat (g_next_int_id g)" using assms(2) by (auto simp: numbered_def)
    then show ?thesis using added(2) by simp
  qed (simp add: lifecycle_of_def)
  ultimately show ?thesis
    using assms(2) lifecycle_of_put [OF added(3)] added start [of "lifecycle_of g" "inv_id v"]
    by (fastforce simp: numbered_def)
qed simp

lemma run_snoc: "k < length ops \<Longrightarrow> run (take (Suc k) ops) g = perform (ops ! k) (run (take k ops) g)"
  by (simp add: run_def take_Suc_conv_app_nth)

lemma run_numbered:
  assumes "\<forall>op \<in> set ops. orderly op" and "length ops + 2 < 2 ^ 64" and "k \<le> length ops"
  shows "numbered (k + 1) (run (take k ops) (governor_new cfg))"
  using assms(3)
proof (induction k)
  case 0
  show ?case by (simp add: numbered_def governor_new_def)
next
  case (Suc k)
  then have k: "k < length ops" and "orderly (ops ! k)" using assms(1) by simp_all
  have "intervention_change False (run (take k ops) (governor_new cfg)) (run (take (Suc k) ops) (governor_new cfg))"
    unfolding run_snoc [OF k] by (rule orderly_change) fact
  from change_refines [OF this, of "k + 1"] show ?case using Suc k assms(2) by simp
qed

subsection \<open>Properties\<close>

text \<open>C4: The lifecycle of the interventions is implemented: in every run of operations other than loads, whose
  proposals leave the identity to the governor, each operation does to the statuses of the stored
  interventions what the abstract lifecycle allows, namely nothing, one step of one of them, or starting a
  new one as authorised. The run starts with none.\<close>

theorem runs_refine_the_lifecycle:
  assumes "\<forall>op \<in> set ops. orderly op" and "length ops + 2 < 2 ^ 64" and "k < length ops"
  shows "lifecycle_of (run [] (governor_new cfg)) = Map.empty \<and>
    lifecycle_step (lifecycle_of (run (take k ops) (governor_new cfg))) (lifecycle_of (run (take (Suc k) ops) (governor_new cfg)))"
proof -
  have "orderly (ops ! k)" using assms(1,3) by simp
  then have "intervention_change False (run (take k ops) (governor_new cfg)) (run (take (Suc k) ops) (governor_new cfg))"
    unfolding run_snoc [OF assms(3)] by (rule orderly_change)
  moreover have "numbered (k + 1) (run (take k ops) (governor_new cfg))" using run_numbered assms by simp
  ultimately show ?thesis
    using change_refines [of _ _ "k + 1"] assms(2,3)
    by (simp add: lifecycle_of_def governor_new_def fun_eq_iff)
qed

definition demo_run :: "GovOp list" where
  "demo_run = [RegisterWorker (Id 1) (Id 9), SetPolicy (tail_policy_default\<lparr>po_id := Id 3, po_objectives := [demo_objective]\<rparr>),
     Authorize demo_proposal, Dispatch (Id 1)]"

lemma demo_run_orderly: "\<forall>op \<in> set demo_run. orderly op" "length demo_run = 4"
  by (simp_all add: demo_run_def orderly_def demo_proposal_def intervention_default_def)

lemma demo_run_authorized: "run (take 3 demo_run) (governor_new demo_config) = demo_authorized"
  by (simp add: demo_run_def eval_nat_numeral demo_authorized_def demo_governor_def)

lemma runs_refine_the_lifecycle_witness:
  "lifecycle_of demo_authorized (Id 1) = Some AUTHORIZED \<and>
   lifecycle_step (lifecycle_of demo_authorized) (lifecycle_of (snd (dispatch (Id 1) demo_authorized)))"
proof -
  have "run (take (Suc 3) demo_run) (governor_new demo_config) = snd (dispatch (Id 1) demo_authorized)"
    using run_snoc [of 3 demo_run "governor_new demo_config"] demo_run_authorized
    by (simp add: demo_run_orderly(2)) (simp add: demo_run_def eval_nat_numeral)
  moreover have "lifecycle_of demo_authorized (Id 1) = Some AUTHORIZED" by (simp add: lifecycle_of_def demo_stored)
  ultimately show ?thesis
    using runs_refine_the_lifecycle [OF demo_run_orderly(1), of 3 demo_config]
    by (simp add: demo_run_orderly(2) demo_run_authorized)
qed

text \<open>C15: Every state that can be reached by any operations, loads of arbitrary files included, is well formed:
  the window and intervention maps are ordered, every intervention is stored under its own identity, and
  every window's cache agrees with its samples and its size is within its bound.\<close>

theorem reachable_states_are_well_formed:
  assumes "reachable cfg g"
  shows "om_inv (g_windows g) \<and> om_inv (g_interventions g) \<and>
     (\<forall>i v. om_find (g_interventions g) i = Some v \<longrightarrow> inv_id v = i) \<and>
     (\<forall>k w. om_find (g_windows g) k = Some w \<longrightarrow> win_inv w \<and> win_bounded w)"
  using evidence.everywhere [OF assms] keyed.everywhere [OF assms]
  by (auto simp: evidence_inv_def windows_good_def window_good_def keyed_def)

lemma reachable_demo: "reachable demo_config (run (demo_run @ [Ingest (demo_request 1 300)]) (governor_new demo_config))"
  by (rule reachable_run) (rule constructed)

lemma reachable_states_are_well_formed_witness:
  "om_inv (g_windows (run (demo_run @ [Ingest (demo_request 1 300)]) (governor_new demo_config)))"
  using reachable_states_are_well_formed [OF reachable_demo] by blast

text \<open>C8: No evidence survives its epoch: in every reachable state every retained sample is of the current epoch,
  and its latency is not negative. And no objective goes straight from a tail at risk, violating or severe
  to healthy: an evaluation that reports \<open>HEALTHY\<close> found one of the other states recorded.\<close>

theorem reachable_evidence_is_current:
  assumes "reachable cfg g"
  shows "(\<forall>k w s. om_find (g_windows g) k = Some w \<and> s \<in> set (w_samples w) \<longrightarrow>
      ts_epoch s = gc_epoch (g_cfg g) \<and> 0 \<le> nanos (ts_latency s)) \<and>
    (\<forall>i ev. fst (evaluate i g) = Inr ev \<and> ev_state ev = HEALTHY \<longrightarrow> prev_state g i \<notin> {VIOLATING, SEVERE, AT_RISK})"
  using evidence.everywhere [OF assms] no_direct_recovery [of g]
  by (auto simp: evidence_inv_def windows_good_def window_good_def)

lemma demo_loaded_reachable: "reachable demo_config demo_loaded"
proof -
  let ?ops = "[RegisterWorker (Id 1) (Id 9), SetPolicy (tail_policy_default\<lparr>po_id := Id 3, po_objectives := [demo_objective]\<rparr>),
     Ingest (demo_request 1 300), Ingest (demo_request 2 320)]"
  have "demo_loaded = run ?ops (governor_new demo_config)" by (simp add: demo_loaded_def demo_governor_def)
  then show ?thesis using reachable_run [OF constructed, of demo_config ?ops] by metis
qed

lemma reachable_evidence_is_current_witness:
  "\<exists>w. om_find (g_windows demo_loaded) (GovernorWindowKey (Id 1) (Id 0)) = Some w \<and> w_samples w \<noteq> [] \<and>
     ts_epoch (hd (w_samples w)) = Id 7"
proof -
  note all = reachable_evidence_is_current [OF demo_loaded_reachable]
  have "case om_find (g_windows demo_loaded) (GovernorWindowKey (Id 1) (Id 0)) of Some w \<Rightarrow> w_samples w \<noteq> [] | None \<Rightarrow> False"
    by code_simp
  then obtain w where w: "om_find (g_windows demo_loaded) (GovernorWindowKey (Id 1) (Id 0)) = Some w" "w_samples w \<noteq> []"
    by (auto split: option.splits)
  moreover have "gc_epoch (g_cfg demo_loaded) = Id 7" by code_simp
  ultimately show ?thesis using all hd_in_set [OF w(2)] by fastforce
qed

text \<open>C3: An evaluation reports the evidence. In every reachable state it counts exactly the samples that the
  window retains at the time of the evaluation; it is sufficient exactly when no restart is pending, the
  evidence is fresh and there are as many samples as the objective requires. The observed value is then what
  \<open>exact_quantile\<close> gives for precisely those samples' latencies, and for p50, p95 and p99 (up to \<open>2 ^ 40\<close>
  samples) this is their nearest-rank quantile: at least that share of them do not exceed it, and fewer than
  that share are below it. For p99.9 the rank can be one higher.\<close>

theorem evaluation_reports_the_evidence:
  assumes "reachable cfg g" and "find_objective i g = Some obj" and "fst (evaluate i g) = Inr ev"
    and "ds = sort (map ts_latency (evidence obj g))"
  shows "ev_sample_count ev = length (evidence obj g) \<and>
     (ev_sufficiency ev = SUFFICIENT \<longleftrightarrow> \<not> flagged g i \<and>
        \<not> evidence_stale obj (now_of g) (latest_of_evidence obj g) \<and>
        evidence obj g \<noteq> [] \<and> effective_min_samples obj \<le> length (evidence obj g)) \<and>
     (ev_sufficiency ev = SUFFICIENT \<longrightarrow> exact_quantile ds (o_percentile obj) = Inr (ev_observed ev) \<and>
        (\<forall>a b. (o_percentile obj, a, b) \<in> {(p50, 1, 2), (p95, 19, 20), (p99, 99, 100)} \<and> length ds \<le> 1099511627776 \<longrightarrow>
           a * length ds \<le> b * length (filter (\<lambda>x. x \<le> ev_observed ev) ds) \<and>
           b * length (filter (\<lambda>x. x < ev_observed ev) ds) < a * length ds))"
proof -
  obtain P where good: "windows_good P g" using evidence.everywhere [OF assms(1)] by (auto simp: evidence_inv_def)
  have ev: "ev = evaluation_of obj g" and i: "o_id obj = i"
    using assms(2,3) find_objective_id [OF assms(2)] by (cases rule: evaluate_cases [of g i]; simp)+
  have ne: "ds = [] \<longleftrightarrow> evidence obj g = []" and len: "length ds = length (evidence obj g)"
    by (simp_all add: assms(4)) (metis length_0_conv length_map length_sort)
  have suff: "ev_sufficiency ev = SUFFICIENT \<longleftrightarrow> \<not> flagged g i \<and>
        \<not> evidence_stale obj (now_of g) (latest_of_evidence obj g) \<and> evidence obj g \<noteq> [] \<and> fst (observe obj ds)"
    by (auto simp: ev i base_values [OF good] sufficiency_of_def assms(4))
  have q: "exact_quantile ds (o_percentile obj) = Inr (ev_observed ev)" if "ev_sufficiency ev = SUFFICIENT"
    using that suff observe_iff(2) [of obj ds] by (simp add: ev base_values [OF good] assms(4))
  have near: "a * length ds \<le> b * length (filter (\<lambda>x. x \<le> ev_observed ev) ds) \<and>
      b * length (filter (\<lambda>x. x < ev_observed ev) ds) < a * length ds"
    if "ev_sufficiency ev = SUFFICIENT" "(o_percentile obj, a, b) \<in> {(p50, 1, 2), (p95, 19, 20), (p99, 99, 100)}"
      "length ds \<le> 1099511627776" for a b
    using nearest_rank_quantile [OF q [OF that(1)] _ that(3,2)] by (simp add: assms(4))
  show ?thesis
    using suff observe_iff(1) [of obj ds] q near ne len by (simp add: ev base_values [OF good]) blast
qed

lemma evaluation_reports_the_evidence_witness:
  "ev_sample_count (evaluation_of demo_objective demo_loaded) = 2 \<and>
   ev_sufficiency (evaluation_of demo_objective demo_loaded) = SUFFICIENT"
proof -
  have l: "length (evidence demo_objective demo_loaded) = 2"
    by (metis demo_evidence length_map length_Cons list.size(3) One_nat_def Suc_1)
  have "\<not> flagged demo_loaded (Id 1)" and "effective_min_samples demo_objective = 2"
    and "\<not> evidence_stale demo_objective (now_of demo_loaded) (latest_of_evidence demo_objective demo_loaded)"
    by code_simp+
  then show ?thesis
    using evaluation_reports_the_evidence [OF demo_loaded_reachable demo_found demo_evaluated refl] l by auto
qed

text \<open>C7: A restart is not forgotten: after the epoch advanced, every evaluation of an objective of the policy
  reports \<open>REVALIDATION_REQUIRED\<close> and suggests nothing, whatever else is done, until evidence is ingested.\<close>

theorem revalidation_lasts_until_evidence:
  assumes "obj \<in> set (po_objectives (g_pol g))" and "\<forall>ev. Ingest ev \<notin> set ops"
    and "fst (evaluate (o_id obj) (run ops (advance_epoch g))) = Inr ev"
  shows "ev_state ev = REVALIDATION_REQUIRED \<and> ev_selected_intervention ev = NO_ACTION"
proof -
  let ?i = "o_id obj" and ?h = "run ops (advance_epoch g)"
  have "om_find (flag_revalidation objs m) i = Some True \<longleftrightarrow> i \<in> o_id ` set objs \<or> om_find m i = Some True" for objs m i
    unfolding flag_revalidation_def by (induction objs arbitrary: m) auto
  then have flag: "flagged (advance_epoch h) i \<longleftrightarrow> i \<in> o_id ` set (po_objectives (g_pol h)) \<or> flagged h i" for h i
    by (simp add: flagged_def advance_epoch_def Let_def)
  have step: "flagged (perform op h) ?i" if "flagged h ?i" and "\<forall>ev. Ingest ev \<noteq> op" for op h
    using that(1) by (rule perform_invariant) (use that(2) in \<open>auto simp: keeps_evidence_def flagged_evaluate flag\<close>)
  have "flagged (run ops h) ?i" if "flagged h ?i" and "\<forall>ev. Ingest ev \<notin> set ops" for h
    using that by (induction ops arbitrary: h) (auto simp: step)
  then have fl: "flagged ?h ?i" using assms(1,2) by (simp add: flag)
  show ?thesis
  proof (cases rule: evaluate_cases [of ?h ?i])
    case (evaluated obj')
    have "ev = evaluation_of obj' ?h" using evaluated(4) assms(3) by simp
    then have "ev_state ev = REVALIDATION_REQUIRED"
      using fl find_objective_id [OF evaluated(2)] by (simp add: new_state_value)
    then show ?thesis using selected_for_a_tail [OF assms(3)] by auto
  qed (use assms(3) in auto)
qed

lemma revalidation_lasts_until_evidence_witness:
  "\<exists>ev. fst (evaluate (Id 1) (run [SetQueueGeneration (Id 4), Acknowledge (Id 1)] (advance_epoch demo_loaded))) = Inr ev \<and>
     ev_state ev = REVALIDATION_REQUIRED"
proof -
  let ?ops = "[SetQueueGeneration (Id 4), Acknowledge (Id 1)]" and ?h = "advance_epoch demo_loaded"
  have p: "po_objectives (g_pol demo_loaded) = [demo_objective]" and "\<not> g_shutting_down demo_loaded"
    and i: "o_id demo_objective = Id 1" "o_enabled demo_objective" by code_simp+
  then have "\<not> g_shutting_down (run ?ops ?h)" "find_objective (Id 1) (run ?ops ?h) = Some demo_objective"
    by (simp_all add: acknowledge_def set_status_def set_queue_generation_def advance_epoch_def Let_def find_objective_def
        split: option.split)
  then obtain ev where ev: "fst (evaluate (o_id demo_objective) (run ?ops ?h)) = Inr ev"
    using i by (cases rule: evaluate_cases [of "run ?ops ?h" "Id 1"]) simp_all
  then show ?thesis using revalidation_lasts_until_evidence [OF _ _ ev] p i by simp
qed

end
