(* ===== verification/Wire.thy ===== *)
theory Wire
  imports Crc32
begin

text \<open>
  The framing of the wire protocol (tailgov_d.cpp): \<open>send_all\<close> and \<open>recv_exact\<close> over a stream socket,
  which accepts and delivers any number of bytes at a time, and the frames with magic number,
  version, length and checksum on top of them. The main lemmas say that the cutting of the stream
  into segments does not matter, and that a frame is accepted only when it arrived intact.
\<close>

subsection \<open>Sockets\<close>

text \<open>
  A socket holds the segments the network will deliver, an empty one standing for a close or an
  error, the bytes sent so far, and how many bytes successive calls of \<open>send\<close> take, a number that
  is not positive, or the end of the list, standing for an error.
\<close>

record Sock =
  s_in :: "byte list list"
  s_out :: "byte list"
  s_takes :: "int list"

definition recv :: "nat \<Rightarrow> Sock \<Rightarrow> byte list \<times> Sock" where
  "recv n s = (case s_in s of
     [] \<Rightarrow> ([], s)
   | seg # segs \<Rightarrow> (take n seg, s\<lparr>s_in := (if drop n seg = [] then segs else drop n seg # segs)\<rparr>))"

definition send :: "byte list \<Rightarrow> Sock \<Rightarrow> int \<times> Sock" where
  "send bs s = (case s_takes s of
     [] \<Rightarrow> (- 1, s)
   | k # ks \<Rightarrow>
       if k \<le> 0 then (k, s\<lparr>s_takes := ks\<rparr>)
       else let n = min (nat k) (length bs)
            in (int n, s\<lparr>s_out := s_out s @ take n bs, s_takes := ks\<rparr>))"

lemma length_recv: "0 < n \<Longrightarrow> fst (recv n s) \<noteq> [] \<Longrightarrow> n - length (fst (recv n s)) < n"
  by auto

function recv_exact :: "byte list \<Rightarrow> nat \<Rightarrow> Sock \<Rightarrow> byte list option \<times> Sock" where
  "recv_exact got n s =
     (if n = 0 then (Some got, s)
      else if fst (recv n s) = [] then (None, snd (recv n s))
      else recv_exact (got @ fst (recv n s)) (n - length (fst (recv n s))) (snd (recv n s)))"
  by pat_completeness auto
termination by (relation "measure (\<lambda>(got, n, s). n)") (simp_all add: length_recv)

declare recv_exact.simps [simp del]

lemma recv_exact_0 [simp]: "recv_exact got 0 s = (Some got, s)"
  by (subst recv_exact.simps) simp

function send_all :: "byte list \<Rightarrow> Sock \<Rightarrow> bool \<times> Sock" where
  "send_all bs s =
     (if bs = [] then (True, s)
      else if fst (send bs s) \<le> 0 then (False, snd (send bs s))
      else send_all (drop (nat (fst (send bs s))) bs) (snd (send bs s)))"
  by pat_completeness auto
termination by (relation "measure (\<lambda>(bs, s). length bs)") auto

declare send_all.simps [simp del]

lemma send_all_Nil [simp]: "send_all [] s = (True, s)"
  by (subst send_all.simps) simp

subsection \<open>Frames\<close>

definition kFrameMagic :: u32 where "kFrameMagic = 0x5447564E"
definition kFrameVersion :: "16 word" where "kFrameVersion = 1"
definition kMaxFrame :: int where "kMaxFrame = 512 * 1024"
definition kHeaderSize :: nat where "kHeaderSize = 4 + 2 + 4 + 4"

definition put_u16 :: "16 word \<Rightarrow> byte list" where "put_u16 v = le_bytes 2 v"

text \<open>The protocol has its own copy of the checksum.\<close>

definition frame_crc32 :: "byte list \<Rightarrow> u32" where
  "frame_crc32 d = foldl crc_byte 0xFFFFFFFF d XOR 0xFFFFFFFF"

definition frame_header :: "byte list \<Rightarrow> byte list" where
  "frame_header payload = put_u32 kFrameMagic @ put_u16 kFrameVersion @
     put_u32 (of_nat (length payload)) @ put_u32 (frame_crc32 payload)"

definition send_frame :: "byte list \<Rightarrow> u32 \<Rightarrow> Sock \<Rightarrow> bool \<times> u32 \<times> Sock" where
  "send_frame payload send_err s =
     (if int (length payload) > kMaxFrame then (False, 1, s)
      else case send_all (frame_header payload) s of
        (False, s) \<Rightarrow> (False, 2, s)
      | (True, s) \<Rightarrow>
          if payload = [] then (True, send_err, s)
          else case send_all payload s of
            (False, s) \<Rightarrow> (False, 3, s)
          | (True, s) \<Rightarrow> (True, send_err, s))"

definition recv_frame :: "Sock \<Rightarrow> byte list option \<times> Sock" where
  "recv_frame s =
     (case recv_exact [] kHeaderSize s of
        (None, s) \<Rightarrow> (None, s)
      | (Some hdr, s) \<Rightarrow>
          if le_word (take 4 hdr) \<noteq> kFrameMagic then (None, s)
          else if le_word (take 2 (drop 4 hdr)) \<noteq> kFrameVersion then (None, s)
          else let len = (le_word (take 4 (drop 6 hdr)) :: u32) in
            if uint len > kMaxFrame then (None, s)
            else let crc = le_word (take 4 (drop 10 hdr)) in
              case (if len > 0 then recv_exact [] (unat len) s else (Some [], s)) of
                (None, s) \<Rightarrow> (None, s)
              | (Some payload, s) \<Rightarrow>
                  if frame_crc32 payload \<noteq> crc then (None, s) else (Some payload, s))"

definition send_msg :: "byte list \<Rightarrow> Sock \<Rightarrow> bool \<times> Sock" where
  "send_msg b s = (case send_frame b 0 s of (ok, e, s) \<Rightarrow> (ok, s))"

definition recv_msg :: "Sock \<Rightarrow> byte list option \<times> Sock" where
  "recv_msg s = recv_frame s"

subsection \<open>The stream behind the segments\<close>

definition incoming :: "Sock \<Rightarrow> byte list" where "incoming s = concat (s_in s)"
definition healthy :: "Sock \<Rightarrow> bool" where "healthy s \<longleftrightarrow> [] \<notin> set (s_in s)"

definition frame :: "byte list \<Rightarrow> byte list" where "frame payload = frame_header payload @ payload"

lemma recv_stream:
  "incoming s = fst (recv n s) @ incoming (snd (recv n s))" "length (fst (recv n s)) \<le> n"
  "healthy s \<Longrightarrow> healthy (snd (recv n s))"
  "healthy s \<Longrightarrow> 0 < n \<Longrightarrow> fst (recv n s) = [] \<longleftrightarrow> incoming s = []"
  by (auto simp: recv_def incoming_def healthy_def split: list.splits)

lemma recv_fields [simp]: "s_out (snd (recv n s)) = s_out s" "s_takes (snd (recv n s)) = s_takes s"
  by (simp_all add: recv_def split: list.split)

text \<open>What was received came off the front of the stream, however it was cut.\<close>

lemma recv_exact_Some:
  "recv_exact got n s = (Some bs, s') \<Longrightarrow>
     \<exists>x. bs = got @ x \<and> length x = n \<and> incoming s = x @ incoming s' \<and> s_out s' = s_out s \<and> s_takes s' = s_takes s"
proof (induction got n s arbitrary: bs s' rule: recv_exact.induct)
  case (1 got n s)
  let ?r = "fst (recv n s)" and ?s = "snd (recv n s)"
  show ?case
  proof (cases "n = 0")
    case True
    then show ?thesis using "1.prems" by simp
  next
    case False
    then have r: "?r \<noteq> []" "recv_exact (got @ ?r) (n - length ?r) ?s = (Some bs, s')"
      using "1.prems" by (auto simp: recv_exact.simps [of got n s] split: if_splits)
    obtain x where "bs = (got @ ?r) @ x" "length x = n - length ?r" "incoming ?s = x @ incoming s'"
      "s_out s' = s_out ?s" "s_takes s' = s_takes ?s"
      using "1.IH" [OF False r] by blast
    then show ?thesis using recv_stream(1,2) [where s = s and n = n] by (intro exI [of _ "?r @ x"]) simp
  qed
qed

text \<open>When no error occurs, it succeeds exactly when enough bytes arrive.\<close>

lemma recv_exact_healthy:
  "healthy s \<Longrightarrow> n \<le> length (incoming s) \<Longrightarrow>
     \<exists>s'. recv_exact got n s = (Some (got @ take n (incoming s)), s') \<and> healthy s' \<and>
       incoming s' = drop n (incoming s) \<and> s_out s' = s_out s \<and> s_takes s' = s_takes s"
proof (induction got n s rule: recv_exact.induct)
  case (1 got n s)
  let ?r = "fst (recv n s)" and ?s = "snd (recv n s)"
  show ?case
  proof (cases "n = 0")
    case True
    then show ?thesis using "1.prems" by simp
  next
    case False
    then have r: "?r \<noteq> []" using recv_stream(4) [where s = s and n = n] "1.prems" by auto
    have inc: "incoming s = ?r @ incoming ?s" and le: "length ?r \<le> n" by (rule recv_stream)+
    then have "n - length ?r \<le> length (incoming ?s)" using "1.prems"(2) arg_cong [OF inc, of length] by simp
    then obtain s' where "recv_exact (got @ ?r) (n - length ?r) ?s =
        (Some ((got @ ?r) @ take (n - length ?r) (incoming ?s)), s')" "healthy s'"
      "incoming s' = drop (n - length ?r) (incoming ?s)" "s_out s' = s_out s" "s_takes s' = s_takes s"
      using "1.IH" [OF False r recv_stream(3) [OF "1.prems"(1)]] by auto
    then show ?thesis
      using False r le by (subst recv_exact.simps, subst inc, subst inc) simp
  qed
qed

lemma send_all_out:
  "send_all bs s = (True, s') \<Longrightarrow> s_out s' = s_out s @ bs \<and> s_in s' = s_in s"
proof (induction bs s arbitrary: s' rule: send_all.induct)
  case (1 bs s)
  let ?k = "fst (send bs s)" and ?s = "snd (send bs s)"
  show ?case
  proof (cases "bs = []")
    case True
    then show ?thesis using "1.prems" by simp
  next
    case False
    then have k: "\<not> ?k \<le> 0" and r: "send_all (drop (nat ?k) bs) ?s = (True, s')"
      using "1.prems" by (auto simp: send_all.simps [of bs s] split: if_splits)
    have "s_out ?s = s_out s @ take (nat ?k) bs" "s_in ?s = s_in s"
      using k by (auto simp: send_def Let_def split: list.splits if_splits)
    then show ?thesis using "1.IH" [OF False k r] by simp
  qed
qed


subsection \<open>Frames over the stream\<close>

lemma length_frame_header [simp]: "length (frame_header p) = 14"
  by (simp add: frame_header_def put_u16_def codec_length)

lemma header_fields:
  "take 4 (frame_header p) = put_u32 kFrameMagic" "take 2 (drop 4 (frame_header p)) = put_u16 kFrameVersion"
  "take 4 (drop 6 (frame_header p)) = put_u32 (of_nat (length p))"
  "take 4 (drop 10 (frame_header p)) = put_u32 (frame_crc32 p)"
  by (simp_all add: frame_header_def put_u16_def codec_length)

lemma send_frame_out:
  assumes "send_frame p e s = (True, e', s')"
  shows "s_out s' = s_out s @ frame p \<and> s_in s' = s_in s \<and> int (length p) \<le> kMaxFrame"
proof -
  have n: "\<not> int (length p) > kMaxFrame" using assms by (cases "int (length p) > kMaxFrame") (simp_all add: send_frame_def)
  obtain ok h where h: "send_all (frame_header p) s = (ok, h)" by fastforce
  obtain ok2 k where k: "send_all p h = (ok2, k)" by fastforce
  have "ok" and "if p = [] then s' = h else ok2 \<and> s' = k"
    using assms n by (auto simp: send_frame_def h k split: if_splits bool.splits)
  then show ?thesis
    using send_all_out [of "frame_header p" s h] send_all_out [of p h k] h k n
    by (auto simp: frame_def split: if_splits)
qed

lemma frame_length_word:
  "int (length p) \<le> kMaxFrame \<Longrightarrow> uint (of_nat (length p) :: u32) = int (length p) \<and>
     unat (of_nat (length p) :: u32) = length p"
  by (simp add: kMaxFrame_def unat_of_nat uint_nat)

lemma recv_frame_frame:
  assumes "healthy r" and "incoming r = frame p @ rest" and "int (length p) \<le> kMaxFrame"
  obtains r' where "recv_frame r = (Some p, r')" and "incoming r' = rest" and "healthy r'"
    and "s_out r' = s_out r" and "s_takes r' = s_takes r"
proof -
  have "kHeaderSize \<le> length (incoming r)" by (simp add: kHeaderSize_def assms(2) frame_def)
  then obtain h where h: "recv_exact [] kHeaderSize r = (Some (frame_header p), h)" "healthy h"
    "incoming h = p @ rest" "s_out h = s_out r" "s_takes h = s_takes r"
    using recv_exact_healthy [OF assms(1), of kHeaderSize "[]"] by (auto simp: kHeaderSize_def assms(2) frame_def)
  have "length p \<le> length (incoming h)" by (simp add: h)
  then obtain r' where r': "recv_exact [] (length p) h = (Some p, r')" "healthy r'" "incoming r' = rest"
    "s_out r' = s_out h" "s_takes r' = s_takes h"
    using recv_exact_healthy [OF h(2), of "length p" "[]"] by (auto simp: h)
  have len: "uint (of_nat (length p) :: u32) = int (length p)" "unat (of_nat (length p) :: u32) = length p"
    using frame_length_word [OF assms(3)] by auto
  have "recv_frame r = (Some p, r')"
  proof (cases "p = []")
    case True
    then show ?thesis
      using assms(3) r'(1)
      by (simp add: recv_frame_def h(1) header_fields put_u32_def put_u16_def le_word_le_bytes)
  next
    case False
    then have "(of_nat (length p) :: u32) > 0" using len(2) by (simp add: word_less_nat_alt)
    then show ?thesis
      using assms(3) len r'(1)
      by (simp add: recv_frame_def h(1) header_fields put_u32_def put_u16_def le_word_le_bytes)
  qed
  then show thesis using that r' h by simp
qed

text \<open>The header of an accepted frame is the one its sender would have built.\<close>

lemma recv_frame_Some:
  assumes "recv_frame s = (Some p, s')"
  shows "incoming s = frame p @ incoming s' \<and> int (length p) \<le> kMaxFrame \<and>
    s_out s' = s_out s \<and> s_takes s' = s_takes s"
proof -
  obtain hdr h where h: "recv_exact [] kHeaderSize s = (Some hdr, h)"
    using assms by (auto simp: recv_frame_def split: prod.splits option.splits)
  have len: "length hdr = 14" and inc: "incoming s = hdr @ incoming h" and f: "s_out h = s_out s" "s_takes h = s_takes s"
    using recv_exact_Some [OF h] by (auto simp: kHeaderSize_def)
  let ?len = "le_word (take 4 (drop 6 hdr)) :: u32"
  have hd: "le_word (take 4 hdr) = kFrameMagic" "le_word (take 2 (drop 4 hdr)) = kFrameVersion"
    "uint ?len \<le> kMaxFrame"
    and p: "(if ?len > 0 then recv_exact [] (unat ?len) h else (Some [], h)) = (Some p, s')"
    and crc: "frame_crc32 p = le_word (take 4 (drop 10 hdr))"
    using assms by (auto simp: recv_frame_def h Let_def split: if_splits prod.splits option.splits)
  have "recv_exact [] (unat ?len) h = (Some p, s')"
    using p by (cases "?len > 0") (simp_all add: word_neq_0_conv [symmetric])
  then have pl: "length p = unat ?len" "incoming h = p @ incoming s'" "s_out s' = s_out h" "s_takes s' = s_takes h"
    using recv_exact_Some [of "[]" "unat ?len" h p s'] by auto
  have "put_u32 kFrameMagic = take 4 hdr" "put_u16 kFrameVersion = take 2 (drop 4 hdr)"
    "put_u32 (of_nat (length p)) = take 4 (drop 6 hdr)" "put_u32 (frame_crc32 p) = take 4 (drop 10 hdr)"
    unfolding hd(1,2) [symmetric] crc pl(1) put_u32_def put_u16_def
    using len by (simp_all add: le_bytes_le_word)
  then have "frame_header p = take 4 hdr @ take 2 (drop 4 hdr) @ take 4 (drop 6 hdr) @ take 4 (drop 10 hdr)"
    by (simp add: frame_header_def)
  also have "\<dots> = hdr"
    using len append_take_drop_id [of 4 hdr] append_take_drop_id [of 2 "drop 4 hdr"]
      append_take_drop_id [of 4 "drop 6 hdr"] by simp
  finally have "frame_header p = hdr" .
  moreover have "int (length p) \<le> kMaxFrame" using hd(3) by (simp add: pl(1))
  ultimately show ?thesis by (simp add: inc pl f frame_def)
qed

lemma frame_crc32_eq: "frame_crc32 d = crc32 d"
  by (simp add: frame_crc32_def crc32_def crc32_from_def)

subsection \<open>Properties\<close>

text \<open>C32: Receiving is independent of how the network cuts the stream: as long as no error occurs,
  \<open>recv_exact\<close> terminates with exactly the next \<open>n\<close> bytes of the stream when that many arrive, and
  fails when they do not; it never consumes a byte beyond them.\<close>

theorem recv_exact_takes_the_stream:
  assumes "healthy s"
  shows "(n \<le> length (incoming s) \<longrightarrow> (\<exists>s'. recv_exact [] n s = (Some (take n (incoming s)), s') \<and>
        incoming s' = drop n (incoming s))) \<and>
     (length (incoming s) < n \<longrightarrow> fst (recv_exact [] n s) = None)"
proof -
  have "fst (recv_exact [] n s) = None" if "length (incoming s) < n"
  proof (cases "fst (recv_exact [] n s)")
    case (Some bs)
    then have "recv_exact [] n s = (Some bs, snd (recv_exact [] n s))" by (cases "recv_exact [] n s") simp
    from recv_exact_Some [OF this] that show ?thesis by auto
  qed
  moreover have "\<exists>s'. recv_exact [] n s = (Some (take n (incoming s)), s') \<and> incoming s' = drop n (incoming s)"
    if "n \<le> length (incoming s)"
    using recv_exact_healthy [OF assms that, of "[]"] by auto
  ultimately show ?thesis by blast
qed

lemma recv_exact_takes_the_stream_witness:
  "\<exists>s'. recv_exact [] 3 \<lparr>s_in = [[1], [2, 3, 4]], s_out = [], s_takes = []\<rparr> = (Some [1, 2, 3], s') \<and> incoming s' = [4]"
  using recv_exact_takes_the_stream [of "\<lparr>s_in = [[1], [2, 3, 4]], s_out = [], s_takes = []\<rparr>" 3]
  by (simp add: healthy_def incoming_def eval_nat_numeral)

text \<open>C25: A payload that \<open>send_frame\<close> reports as sent is what \<open>recv_frame\<close> on the other side returns,
  however the calls of \<open>send\<close> cut it and however the network cuts the stream, and the bytes behind
  the frame are left for the next call.\<close>

theorem frame_roundtrip:
  assumes "send_frame payload 0 a = (True, e, a')" and "s_out a = []"
    and "healthy b" and "incoming b = s_out a' @ later"
  shows "\<exists>b'. recv_frame b = (Some payload, b') \<and> incoming b' = later \<and> healthy b'"
proof -
  have "incoming b = frame payload @ later" and "int (length payload) \<le> kMaxFrame"
    using send_frame_out [OF assms(1)] assms(2,4) by auto
  then obtain b' where "recv_frame b = (Some payload, b')" "incoming b' = later" "healthy b'"
    using recv_frame_frame [OF assms(3)] by metis
  then show ?thesis by blast
qed

lemma frame_roundtrip_witness:
  "let a = \<lparr>s_in = [], s_out = [], s_takes = [5, 3, 100, 1, 100]\<rparr>; a' = snd (snd (send_frame [7, 8] 0 a));
       b = \<lparr>s_in = [take 3 (s_out a'), drop 3 (s_out a') @ [9]], s_out = [], s_takes = []\<rparr>
   in fst (send_frame [7, 8] 0 a) \<and> fst (recv_frame b) = Some [7, 8] \<and> incoming (snd (recv_frame b)) = [9]"
proof -
  let ?a = "\<lparr>s_in = [], s_out = [], s_takes = [5, 3, 100, 1, 100]\<rparr>"
  obtain e a' where a: "send_frame [7, 8] 0 ?a = (True, e, a')"
    by (simp add: send_frame_def kMaxFrame_def send_all.simps send_def frame_header_def put_u16_def put_u32_def
        le_bytes_def)
  then have "s_out a' = frame [7, 8]" using send_frame_out [OF a] by simp
  then have "healthy \<lparr>s_in = [take 3 (s_out a'), drop 3 (s_out a') @ [9]], s_out = [], s_takes = []\<rparr>"
    and "incoming \<lparr>s_in = [take 3 (s_out a'), drop 3 (s_out a') @ [9]], s_out = [], s_takes = []\<rparr> = s_out a' @ [9]"
    by (auto simp: healthy_def incoming_def frame_def frame_header_def put_u32_def le_bytes_def)
  from frame_roundtrip [OF a _ this] show ?thesis by (auto simp: a Let_def)
qed

text \<open>C26: A frame is accepted only when it arrived intact: the bytes consumed are then exactly the frame
  that its sender builds for the payload returned, which is at most 512 KiB. So a payload in which up
  to four consecutive bytes were changed on the way is refused.\<close>

theorem only_intact_frames_are_accepted:
  "(\<forall>payload s'. recv_frame s = (Some payload, s') \<longrightarrow>
      incoming s = frame payload @ incoming s' \<and> int (length payload) \<le> 524288) \<and>
   (\<forall>pre xs ys post later. incoming s = frame_header (pre @ xs @ post) @ (pre @ ys @ post) @ later \<and>
      length xs = length ys \<and> length xs \<le> 4 \<and> xs \<noteq> ys \<and> int (length (pre @ xs @ post)) \<le> 524288 \<longrightarrow>
      fst (recv_frame s) = None)"
proof (intro conjI allI impI)
  fix payload s'
  assume "recv_frame s = (Some payload, s')"
  from recv_frame_Some [OF this]
  show "incoming s = frame payload @ incoming s'" "int (length payload) \<le> 524288" by (simp_all add: kMaxFrame_def)
next
  fix pre xs ys post later
  assume a: "incoming s = frame_header (pre @ xs @ post) @ (pre @ ys @ post) @ later \<and>
      length xs = length ys \<and> length xs \<le> 4 \<and> xs \<noteq> ys \<and> int (length (pre @ xs @ post)) \<le> 524288"
  show "fst (recv_frame s) = None"
  proof (cases "fst (recv_frame s)")
    case (Some p)
    then have r: "recv_frame s = (Some p, snd (recv_frame s))" by (cases "recv_frame s") simp
    from recv_frame_Some [OF r] a
    have e: "frame_header (pre @ xs @ post) @ (pre @ ys @ post) @ later = frame_header p @ p @ incoming (snd (recv_frame s))"
      and pl: "int (length p) \<le> kMaxFrame"
      by (simp_all add: frame_def)
    then have hd: "frame_header (pre @ xs @ post) = frame_header p"
      and tl: "(pre @ ys @ post) @ later = p @ incoming (snd (recv_frame s))"
      using append_eq_append_conv [of "frame_header (pre @ xs @ post)" "frame_header p"] by simp_all
    have "put_u32 (of_nat (length (pre @ xs @ post))) = put_u32 (of_nat (length p))"
      and "put_u32 (frame_crc32 (pre @ xs @ post)) = put_u32 (frame_crc32 p)"
      by (simp_all only: hd flip: header_fields)
    then have n: "(of_nat (length (pre @ xs @ post)) :: u32) = of_nat (length p)"
      and c: "crc32 (pre @ xs @ post) = crc32 p"
      using u32.enc_inj by (auto simp: frame_crc32_eq)
    have "length (pre @ xs @ post) = length p"
      using frame_length_word [OF pl] frame_length_word [of "pre @ xs @ post"] a n by (simp add: kMaxFrame_def)
    then have "p = pre @ ys @ post" using tl a append_eq_append_conv [of "pre @ ys @ post" p] by simp
    then show ?thesis using c crc32_burst_distinct [of xs ys pre post] a by simp
  qed
qed

lemma only_intact_frames_are_accepted_witness:
  "fst (recv_frame \<lparr>s_in = [frame_header [1, 2] @ [1, 3]], s_out = [], s_takes = []\<rparr>) = None"
proof -
  let ?s = "\<lparr>s_in = [frame_header ([1] @ [2] @ []) @ ([1] @ [3] @ []) @ []], s_out = [], s_takes = []\<rparr>"
  have "incoming ?s = frame_header ([1] @ [2] @ []) @ ([1] @ [3] @ []) @ [] \<and> length [2 :: byte] = length [3 :: byte] \<and>
      length [2 :: byte] \<le> 4 \<and> [2 :: byte] \<noteq> [3] \<and> int (length ([1 :: byte] @ [2] @ [])) \<le> 524288"
    by (simp add: incoming_def)
  with only_intact_frames_are_accepted [of ?s] have "fst (recv_frame ?s) = None" by blast
  then show ?thesis by simp
qed

end
