(* ===== verification/Messages.thy ===== *)
theory Messages
  imports Wire Codecs GovernorState
begin

text \<open>
  The messages of the wire protocol (tailgov_d.cpp): the greeting of a worker, the evidence it
  reports, and the coordinator's side of both. The lemmas say that evidence that travelled over the
  wire is treated as it would have been at its source.
\<close>

subsection \<open>Message types and strings\<close>

datatype Msg = HELLO | LATENCY | INTERVENTION | INTERVENTION_ACK | REPORT | OUTCOME | SHUTDOWN | RESTART | SET_EPOCH

fun Msg_code :: "Msg \<Rightarrow> byte" where
  "Msg_code HELLO = 1"
| "Msg_code LATENCY = 2"
| "Msg_code INTERVENTION = 3"
| "Msg_code INTERVENTION_ACK = 4"
| "Msg_code REPORT = 5"
| "Msg_code OUTCOME = 6"
| "Msg_code SHUTDOWN = 7"
| "Msg_code RESTART = 8"
| "Msg_code SET_EPOCH = 9"

definition msg_type :: "byte list \<Rightarrow> byte" where
  "msg_type body = (case body of [] \<Rightarrow> 0 | t # _ \<Rightarrow> t)"

text \<open>A \<open>std::string\<close> is its bytes.\<close>

definition put_str :: "byte list \<Rightarrow> byte list" where "put_str s = put_u32 (of_nat (length s)) @ s"

definition get_str :: "(Reader, byte list) state" where
  "get_str = do { len \<leftarrow> get_u32;
     State (\<lambda>r. if \<not> rd_ok r \<or> len > 65536 then ([], r\<lparr>rd_ok := False\<rparr>) else rd_take (unat len) r) }"

subsection \<open>The greeting\<close>

record HelloInfo =
  h_name :: "byte list"
  h_wk :: WorkerId
  h_boot :: WorkerBootId
  h_epoch :: u64

definition serialize_hello :: "byte list \<Rightarrow> WorkerId \<Rightarrow> WorkerBootId \<Rightarrow> u64 \<Rightarrow> byte list" where
  "serialize_hello name wk boot ep = put_u8 (Msg_code HELLO) @ put_str name @ put_id wk @ put_id boot @ put_u64 ep"

definition get_hello :: "(Reader, HelloInfo) state" where
  "get_hello = do { name \<leftarrow> get_str; wk \<leftarrow> get_id; boot \<leftarrow> get_id; ep \<leftarrow> get_u64;
     State_Monad.return \<lparr>h_name = name, h_wk = wk, h_boot = boot, h_epoch = ep\<rparr> }"

text \<open>The flag of the reader is not looked at afterwards.\<close>

definition deserialize_hello :: "byte list \<Rightarrow> HelloInfo" where
  "deserialize_hello bytes = fst (run_state get_hello (reading bytes True))"

definition read_hello :: "Sock \<Rightarrow> HelloInfo option \<times> Sock" where
  "read_hello s =
     (case recv_frame s of
        (None, s) \<Rightarrow> (None, s)
      | (Some body, s) \<Rightarrow>
          if msg_type body \<noteq> Msg_code HELLO then (None, s) else (Some (deserialize_hello (drop 1 body)), s))"

subsection \<open>Evidence\<close>

definition put_phase :: "PhaseLatency \<Rightarrow> byte list" where
  "put_phase p = put_enum Phase_code (pl_phase p) @ put_duration (pl_duration p)"

definition get_phase :: "(Reader, PhaseLatency) state" where
  "get_phase = do { p \<leftarrow> get_enum Phase_of_code; d \<leftarrow> get_duration;
     State_Monad.return \<lparr>pl_phase = p, pl_duration = d\<rparr> }"

definition put_latency_head :: "RequestLatency \<Rightarrow> byte list" where
  "put_latency_head r = put_id (rl_request_id r) @ put_id (rl_request_class r) @
     put_id (rl_worker r) @ put_id (rl_worker_boot r) @ put_id (rl_epoch r) @
     put_id (rl_service_generation r) @ put_id (rl_workload_generation r) @
     put_i64 (rl_arrival_ns r) @ put_i64 (rl_completion_ns r) @ put_i64 (rl_publication_ns r) @
     put_i64 (rl_captured_ns r) @ put_duration (rl_total_latency r) @
     put_enum RequestStatus_code (rl_status r) @ put_u32 (rl_retry_count r)"

definition serialize_latency :: "RequestLatency \<Rightarrow> byte list" where
  "serialize_latency r = put_u8 (Msg_code LATENCY) @ put_latency_head r @
     put_u32 (of_nat (length (rl_phases r))) @ concat (map put_phase (rl_phases r))"

definition get_latency_head :: "(Reader, RequestLatency) state" where
  "get_latency_head = do {
     request \<leftarrow> get_id; cls \<leftarrow> get_id; worker \<leftarrow> get_id; boot \<leftarrow> get_id; ep \<leftarrow> get_id;
     service_gen \<leftarrow> get_id; workload_gen \<leftarrow> get_id; arrival \<leftarrow> get_i64; completion \<leftarrow> get_i64;
     publication \<leftarrow> get_i64; captured \<leftarrow> get_i64; latency \<leftarrow> get_duration;
     st \<leftarrow> get_enum RequestStatus_of_code; retries \<leftarrow> get_u32;
     State_Monad.return (request_latency_default\<lparr>rl_request_id := request, rl_request_class := cls,
       rl_worker := worker, rl_worker_boot := boot, rl_epoch := ep, rl_service_generation := service_gen,
       rl_workload_generation := workload_gen, rl_arrival_ns := arrival, rl_completion_ns := completion,
       rl_publication_ns := publication, rl_captured_ns := captured, rl_total_latency := latency,
       rl_status := st, rl_retry_count := retries\<rparr>) }"

text \<open>Reading starts behind the byte of the message type, which the caller has looked at.\<close>

definition deserialize_latency :: "byte list \<Rightarrow> RequestLatency option" where
  "deserialize_latency body =
     (let (r, rd) = run_state get_latency_head (reading (drop 1 body) True); (n, rd) = run_state get_u32 rd in
      if n > 64 then None
      else let (phases, rd) = run_state (get_many (unat n) get_phase) rd
           in if rd_ok rd then Some (r\<lparr>rl_phases := phases\<rparr>) else None)"

subsection \<open>The coordinator asks for reports\<close>

fun receive_reports :: "nat \<Rightarrow> u64 \<Rightarrow> Sock \<Rightarrow> Impl \<Rightarrow> u64 \<times> Sock \<times> Impl" where
  "receive_reports 0 received s g = (received, s, g)"
| "receive_reports (Suc n) received s g =
     (case recv_msg s of
        (None, s) \<Rightarrow> (received, s, g)
      | (Some body, s) \<Rightarrow>
          if msg_type body \<noteq> Msg_code LATENCY then (received, s, g)
          else case deserialize_latency body of
            None \<Rightarrow> (received, s, g)
          | Some lr \<Rightarrow> receive_reports n (received + 1) s (snd (ingest lr g)))"

definition report_request :: "u64 \<Rightarrow> int \<Rightarrow> int \<Rightarrow> int \<Rightarrow> byte list" where
  "report_request n base_ns qn exn = put_u8 (Msg_code REPORT) @ put_u32 (ucast n) @
     put_i64 base_ns @ put_i64 qn @ put_i64 exn"

definition req_report :: "u64 \<Rightarrow> int \<Rightarrow> int \<Rightarrow> int \<Rightarrow> Sock \<Rightarrow> Impl \<Rightarrow> u64 \<times> Sock \<times> Impl" where
  "req_report n base_ns qn exn s g =
     (case send_msg (report_request n base_ns qn exn) s of
        (False, s) \<Rightarrow> (0, s, g)
      | (True, s) \<Rightarrow> receive_reports (unat n) 0 s g)"

definition send_intervention :: "InterventionType \<Rightarrow> Sock \<Rightarrow> bool \<times> Sock" where
  "send_intervention t s =
     (case send_msg (put_u8 (Msg_code INTERVENTION) @ put_enum InterventionType_code t) s of
        (False, s) \<Rightarrow> (False, s)
      | (True, s) \<Rightarrow>
          (case recv_msg s of
             (None, s) \<Rightarrow> (False, s)
           | (Some ack, s) \<Rightarrow> (msg_type ack = Msg_code INTERVENTION_ACK, s)))"

subsection \<open>Codecs\<close>

text \<open>A string is read back when nothing went wrong before it; otherwise reading it gives nothing.\<close>

lemma get_put_str:
  assumes "length s \<le> 65536"
  shows "run_state get_str (reading (put_str s @ rest) True) = (s, reading rest True)"
proof -
  have "unat (of_nat (length s) :: u32) = length s" using assms by (simp add: unat_of_nat)
  moreover from this have "\<not> (of_nat (length s) :: u32) > 65536" using assms by (simp add: word_less_nat_alt)
  ultimately show ?thesis by (simp add: put_str_def get_str_def u32.decode rd_take_def)
qed

interpretation phase_codec: codec put_phase get_phase
    "\<lambda>p. is_u32 (Phase_code (pl_phase p)) \<and> in_i64 (nanos (pl_duration p))"
  by unfold_locales (simp add: put_phase_def get_phase_def field_decode phase_enum.enum_codec.decode)

text \<open>The fields that travel, and what they must fit in.\<close>

definition latency_fits :: "RequestLatency \<Rightarrow> bool" where
  "latency_fits r \<longleftrightarrow> in_i64 (rl_arrival_ns r) \<and> in_i64 (rl_completion_ns r) \<and> in_i64 (rl_publication_ns r) \<and>
     in_i64 (rl_captured_ns r) \<and> in_i64 (nanos (rl_total_latency r)) \<and> is_u32 (RequestStatus_code (rl_status r)) \<and>
     length (rl_phases r) \<le> 64 \<and>
     list_all (\<lambda>p. is_u32 (Phase_code (pl_phase p)) \<and> in_i64 (nanos (pl_duration p))) (rl_phases r)"

definition on_wire :: "RequestLatency \<Rightarrow> RequestLatency" where
  "on_wire r = request_latency_default\<lparr>rl_request_id := rl_request_id r, rl_request_class := rl_request_class r,
     rl_worker := rl_worker r, rl_worker_boot := rl_worker_boot r, rl_epoch := rl_epoch r,
     rl_service_generation := rl_service_generation r, rl_workload_generation := rl_workload_generation r,
     rl_arrival_ns := rl_arrival_ns r, rl_completion_ns := rl_completion_ns r,
     rl_publication_ns := rl_publication_ns r, rl_captured_ns := rl_captured_ns r,
     rl_total_latency := rl_total_latency r, rl_status := rl_status r, rl_retry_count := rl_retry_count r,
     rl_phases := rl_phases r\<rparr>"

lemma get_put_latency_head:
  "latency_fits r \<Longrightarrow> run_state get_latency_head (reading (put_latency_head r @ rest) ok) =
     ((on_wire r)\<lparr>rl_phases := []\<rparr>, reading rest ok)"
  by (simp add: put_latency_head_def get_latency_head_def latency_fits_def field_decode
      request_status_enum.enum_codec.decode on_wire_def request_latency_default_def)

lemma deserialize_serialize:
  assumes "latency_fits r"
  shows "deserialize_latency (serialize_latency r) = Some (on_wire r)"
proof -
  let ?n = "length (rl_phases r)"
  have n: "?n \<le> 64" "unat (of_nat ?n :: u32) = ?n" using assms by (simp_all add: latency_fits_def unat_of_nat)
  then have "\<not> (of_nat ?n :: u32) > 64" by (simp add: word_less_nat_alt)
  moreover have "run_state (get_many ?n get_phase) (reading (concat (map put_phase (rl_phases r))) True) =
      (rl_phases r, reading [] True)"
    using phase_codec.decode_many [of "rl_phases r" "[]" True] assms by (simp add: latency_fits_def)
  moreover have "drop 1 (serialize_latency r) = put_latency_head r @
      put_u32 (of_nat ?n) @ concat (map put_phase (rl_phases r))"
    by (simp add: serialize_latency_def put_u8_def)
  ultimately show ?thesis
    using n(2) by (simp add: deserialize_latency_def get_put_latency_head [OF assms] field_decode on_wire_def)
qed

lemma read_hello_hello:
  assumes "length name \<le> 65536" and "healthy s" and "incoming s = frame (serialize_hello name wk boot ep) @ later"
  obtains s' where "read_hello s = (Some \<lparr>h_name = name, h_wk = wk, h_boot = boot, h_epoch = ep\<rparr>, s')"
    and "incoming s' = later" and "healthy s'"
proof -
  have "length (serialize_hello name wk boot ep) \<le> 65565"
    using assms(1) by (simp add: serialize_hello_def put_str_def field_length)
  then have "int (length (serialize_hello name wk boot ep)) \<le> kMaxFrame" by (simp add: kMaxFrame_def)
  from recv_frame_frame [OF assms(2,3) this] obtain s' where
    s': "recv_frame s = (Some (serialize_hello name wk boot ep), s')" "incoming s' = later" "healthy s'" by metis
  have "drop 1 (serialize_hello name wk boot ep) = put_str name @ put_id wk @ put_id boot @ put_u64 ep"
    and "msg_type (serialize_hello name wk boot ep) = Msg_code HELLO"
    by (simp_all add: serialize_hello_def put_u8_def msg_type_def)
  then have "read_hello s = (Some \<lparr>h_name = name, h_wk = wk, h_boot = boot, h_epoch = ep\<rparr>, s')"
    using u64.decode_end [of ep True]
    by (simp add: read_hello_def s'(1) deserialize_hello_def get_hello_def get_put_str [OF assms(1)] field_decode)
  then show thesis using that s' by blast
qed

text \<open>
  A greeting is accepted whatever follows its type byte: the reader's flag is not checked, so missing
  fields read as zero.
\<close>

lemma truncated_hello_is_accepted:
  "deserialize_hello [] = \<lparr>h_name = [], h_wk = Id 0, h_boot = Id 0, h_epoch = 0\<rparr>"
  by (simp add: deserialize_hello_def get_hello_def get_str_def get_u32_def get_id_def get_u64_def rd_take_def le_word_def)

subsection \<open>Properties\<close>

lemma demo_request_fits: "latency_fits (demo_request 1 300)"
  by (simp add: latency_fits_def demo_request_def request_latency_default_def in_i64_def i64_min_def i64_max_def is_u32_def)

lemma on_wire_fields [simp]:
  "total_of (on_wire r) = total_of r" "make_sample (on_wire r) = make_sample r"
  "rl_phases (on_wire r) = rl_phases r" "rl_request_class (on_wire r) = rl_request_class r"
  "rl_request_id (on_wire r) = rl_request_id r" "acceptable (on_wire r) g = acceptable r g"
  by (simp_all add: on_wire_def request_latency_default_def total_of_def resolved_total_def has_publication_def
      make_sample_def acceptable_def fun_eq_iff)

lemma ingest_status_on_wire: "fst (ingest (on_wire r) g) = fst (ingest r g)"
proof -
  have same: "rl_epoch (on_wire r) = rl_epoch r" "rl_service_generation (on_wire r) = rl_service_generation r"
    "rl_workload_generation (on_wire r) = rl_workload_generation r" "rl_worker (on_wire r) = rl_worker r"
    "rl_worker_boot (on_wire r) = rl_worker_boot r"
    "is_authoritative_completion (on_wire r) = is_authoritative_completion r"
    by (simp_all add: on_wire_def request_latency_default_def is_authoritative_completion_def has_publication_def)
  show ?thesis unfolding ingest_split same on_wire_fields by (auto split: sum.split option.split)
qed

lemma ingest_on_wire:
  "\<exists>m. snd (ingest (on_wire r) g) = (snd (ingest r g))\<lparr>g_seen := m\<rparr> \<and>
     dom (om_find m) = dom (om_find (g_seen (snd (ingest r g))))"
proof (cases rule: ingest_cases [of r g])
  case r: (accepted tot)
  show ?thesis
  proof (cases rule: ingest_cases [of "on_wire r" g])
    case w: (accepted tot')
    have "tot' = tot" using r(2) w(2) by simp
    then show ?thesis
      unfolding r(4) w(4)
      by (intro exI [of _ "om_emplace (rl_request_id r) (rl_evidence_generation (on_wire r)) (g_seen g)"])
        (auto simp: om_find_emplace split: option.split)
  qed (use r(1) in simp)
next
  case r: (rejected s)
  then have "snd (ingest (on_wire r) g) = g"
    by (cases rule: ingest_cases [of "on_wire r" g]) simp_all
  then show ?thesis by (intro exI [of _ "g_seen g"]) (simp add: r(2))
qed

text \<open>C24: Evidence that fits the wire format and travelled over it is treated by the coordinator as the
  original would have been: the same verdict, the same windows, flags and remembered request ids; only the
  evidence generation remembered with an id, which nothing reads, may differ.\<close>

theorem wire_ingest_is_ingest:
  assumes "latency_fits r"
  shows "\<exists>lr. deserialize_latency (serialize_latency r) = Some lr \<and> fst (ingest lr g) = fst (ingest r g) \<and>
     (\<exists>m. snd (ingest lr g) = (snd (ingest r g))\<lparr>g_seen := m\<rparr> \<and>
        dom (om_find m) = dom (om_find (g_seen (snd (ingest r g)))))"
  using deserialize_serialize [OF assms] ingest_status_on_wire ingest_on_wire by blast

lemma wire_ingest_is_ingest_witness:
  "\<exists>lr. deserialize_latency (serialize_latency (demo_request 1 300)) = Some lr \<and>
     is_ok (fst (ingest lr demo_governor))"
  using wire_ingest_is_ingest [OF demo_request_fits, of demo_governor] demo_ingest by metis

end
