(* ===== verification/Worker.thy ===== *)
theory Worker
  imports Messages
begin

text \<open>
  The worker process (\<open>run_worker\<close> of tailgov_d.cpp): it greets the coordinator, answers its requests
  and connects again when the connection is lost. The lemmas relate what a worker sends to what the
  coordinator's \<open>req_report\<close> ingests.
\<close>

subsection \<open>State and reports\<close>

record WorkerState =
  wk_name :: "byte list"
  wk_id :: WorkerId
  wk_boot :: WorkerBootId
  wk_epoch :: u64
  wk_counter :: int

definition name_A :: "byte list" where "name_A = [65]"
definition name_B :: "byte list" where "name_B = [66]"

definition worker_new :: "byte list \<Rightarrow> u64 \<Rightarrow> WorkerState" where
  "worker_new name boot = \<lparr>wk_name = name, wk_id = (if name = name_A then Id 100 else Id 200), wk_boot = Id boot,
     wk_epoch = 1, wk_counter = 0\<rparr>"

definition worker_request :: "int \<Rightarrow> int \<Rightarrow> int \<Rightarrow> nat \<Rightarrow> WorkerState \<Rightarrow> RequestLatency" where
  "worker_request base qn ex i w =
     (let arrival = i64 (base + int i * 10); completion = i64 (i64 (arrival + qn) + ex) in
      request_latency_default\<lparr>
        rl_request_id := Id (id_value (wk_id w) * 1000000 + u64_of_i64 (wk_counter w)), rl_request_class := Id 0,
        rl_worker := wk_id w, rl_worker_boot := wk_boot w, rl_epoch := Id (wk_epoch w),
        rl_service_generation := Id 1, rl_workload_generation := Id 1, rl_arrival_ns := arrival,
        rl_completion_ns := completion, rl_publication_ns := completion, rl_captured_ns := completion,
        rl_total_latency := Duration (i64 (qn + ex)), rl_status := SUCCESS, rl_retry_count := 0,
        rl_phases :=
          (if qn > 0 then [\<lparr>pl_phase = Phase.QUEUE_WAIT, pl_duration = Duration qn\<rparr>] else []) @
          (if ex > 0 then [\<lparr>pl_phase = Phase.EXECUTION, pl_duration = Duration ex\<rparr>] else [])\<rparr>)"

definition next_request :: "WorkerState \<Rightarrow> WorkerState" where
  "next_request w = w\<lparr>wk_counter := i64 (wk_counter w + 1)\<rparr>"

text \<open>\<open>report_loop base qn ex i n\<close> sends the \<open>n\<close> reports from index \<open>i\<close> on.\<close>

fun report_loop :: "int \<Rightarrow> int \<Rightarrow> int \<Rightarrow> nat \<Rightarrow> nat \<Rightarrow> WorkerState \<Rightarrow> Sock \<Rightarrow> bool \<times> WorkerState \<times> Sock" where
  "report_loop base qn ex i 0 w s = (True, w, s)"
| "report_loop base qn ex i (Suc n) w s =
     (case send_msg (serialize_latency (worker_request base qn ex i w)) s of
        (False, s) \<Rightarrow> (False, next_request w, s)
      | (True, s) \<Rightarrow> report_loop base qn ex (Suc i) n (next_request w) s)"

subsection \<open>The session\<close>

datatype Session = Connected | Disconnected | Stopped

definition get_report :: "(Reader, u32 \<times> int \<times> int \<times> int) state" where
  "get_report = do { n \<leftarrow> get_u32; base \<leftarrow> get_i64; qn \<leftarrow> get_i64; ex \<leftarrow> get_i64;
     State_Monad.return (n, base, qn, ex) }"

text \<open>One message of the coordinator. The readers' flags are not looked at.\<close>

definition worker_handle :: "byte list \<Rightarrow> WorkerState \<Rightarrow> Sock \<Rightarrow> Session \<times> WorkerState \<times> Sock" where
  "worker_handle body w s =
     (let t = msg_type body; r = reading (drop 1 body) True in
      if t = Msg_code SHUTDOWN then (Stopped, w, s)
      else if t = Msg_code SET_EPOCH then (Connected, w\<lparr>wk_epoch := fst (run_state get_u64 r)\<rparr>, s)
      else if t = Msg_code REPORT then
        (case fst (run_state get_report r) of
          (n, base, qn, ex) \<Rightarrow>
            if n > 100000 then (Disconnected, w, s)
            else case report_loop base qn ex 0 (unat n) w s of
              (ok, w, s) \<Rightarrow> (if ok then Connected else Disconnected, w, s))
      else if t = Msg_code INTERVENTION then
        (case send_msg (put_u8 (Msg_code INTERVENTION_ACK)) s of
          (ok, s) \<Rightarrow> (if ok then Connected else Disconnected, w, s))
      else (Disconnected, w, s))"

lemma send_in: "s_in (snd (send bs s)) = s_in s"
  by (simp add: send_def Let_def split: list.split)

lemma send_all_in: "s_in (snd (send_all bs s)) = s_in s"
proof (induction bs s rule: send_all.induct)
  case (1 bs s)
  then show ?case by (subst send_all.simps) (auto simp: send_in)
qed

lemma send_msg_in: "s_in (snd (send_msg p s)) = s_in s"
proof -
  obtain ok h where h: "send_all (frame_header p) s = (ok, h)" by fastforce
  obtain ok2 k where k: "send_all p h = (ok2, k)" by fastforce
  have "s_in h = s_in s" "s_in k = s_in h" using send_all_in [of "frame_header p" s] send_all_in [of p h] h k by simp_all
  then show ?thesis by (simp add: send_msg_def send_frame_def h k split: bool.split)
qed

lemma report_loop_in: "s_in (snd (snd (report_loop base qn ex i n w s))) = s_in s"
proof (induction base qn ex i n w s rule: report_loop.induct)
  case (2 base qn ex i n w s)
  obtain ok s' where s': "send_msg (serialize_latency (worker_request base qn ex i w)) s = (ok, s')" by fastforce
  then have "s_in s' = s_in s" using send_msg_in by (metis snd_conv)
  with 2 s' show ?case by (cases ok) simp_all
qed simp

lemma worker_handle_in: "s_in (snd (snd (worker_handle body w s))) = s_in s"
  using report_loop_in send_msg_in [of "put_u8 (Msg_code INTERVENTION_ACK)" s]
  by (auto simp: worker_handle_def Let_def split_beta)

text \<open>Every message takes bytes off the stream, and answering one puts none on it.\<close>

lemma handled_message_shortens:
  assumes "recv_msg s = (Some body, s1)" and "worker_handle body w s1 = (e, w', s2)"
  shows "length (incoming s2) < length (incoming s)"
proof -
  have "incoming s = frame body @ incoming s1" using recv_frame_Some assms(1) by (simp add: recv_msg_def)
  moreover have "incoming s2 = incoming s1"
    using worker_handle_in [of body w s1] assms(2) by (simp add: incoming_def)
  ultimately show ?thesis by (simp add: frame_def)
qed

function worker_session :: "WorkerState \<Rightarrow> Sock \<Rightarrow> Session \<times> WorkerState \<times> Sock" where
  "worker_session w s =
     (case recv_msg s of
        (None, s) \<Rightarrow> (Disconnected, w, s)
      | (Some body, s) \<Rightarrow>
          (case worker_handle body w s of
             (Connected, w, s) \<Rightarrow> worker_session w s
           | (Disconnected, w, s) \<Rightarrow> (Disconnected, w, s)
           | (Stopped, w, s) \<Rightarrow> (Stopped, w, s)))"
  by pat_completeness auto

termination
proof (relation "measure (\<lambda>(w, s). length (incoming s))")
  show "((xb, yb), (w, s)) \<in> measure (\<lambda>(w, s). length (incoming s))"
    if "(x, y) = recv_msg s" and "x = Some x2" and "(xa, ya) = worker_handle x2 w y" and "xa = Connected"
      and "(xb, yb) = ya"
    for w s x y x2 xa ya xb yb
    using handled_message_shortens [of s x2 y w xa xb yb] that by (cases ya) simp
qed simp

text \<open>
  The attempts to connect that are still to come, \<open>None\<close> where connecting fails: the worker exits
  when it is told to stop, and is still trying when the attempts are used up.
\<close>

fun run_worker :: "Sock option list \<Rightarrow> WorkerState \<Rightarrow> int option \<times> WorkerState \<times> Sock list" where
  "run_worker [] w = (None, w, [])"
| "run_worker (None # attempts) w = run_worker attempts w"
| "run_worker (Some s # attempts) w =
     (case send_msg (serialize_hello (wk_name w) (wk_id w) (wk_boot w) (wk_epoch w)) s of
        (False, s) \<Rightarrow> (case run_worker attempts w of (exit, w, ss) \<Rightarrow> (exit, w, s # ss))
      | (True, s) \<Rightarrow>
          (case worker_session w s of
             (Stopped, w, s) \<Rightarrow> (Some 0, w, [s])
           | (_, w, s) \<Rightarrow> (case run_worker attempts w of (exit, w, ss) \<Rightarrow> (exit, w, s # ss))))"

subsection \<open>What a worker sends\<close>

fun reports :: "int \<Rightarrow> int \<Rightarrow> int \<Rightarrow> nat \<Rightarrow> nat \<Rightarrow> WorkerState \<Rightarrow> RequestLatency list" where
  "reports base qn ex i 0 w = []"
| "reports base qn ex i (Suc n) w = worker_request base qn ex i w # reports base qn ex (Suc i) n (next_request w)"

definition report_stream :: "RequestLatency list \<Rightarrow> byte list" where
  "report_stream rs = concat (map (\<lambda>r. frame (serialize_latency r)) rs)"

lemma report_stream_simps [simp]:
  "report_stream [] = []" "report_stream (r # rs) = frame (serialize_latency r) @ report_stream rs"
  by (simp_all add: report_stream_def)

lemma report_stream_append: "report_stream (rs @ rs') = report_stream rs @ report_stream rs'"
  by (simp add: report_stream_def)

lemma length_reports [simp]: "length (reports base qn ex i n w) = n"
  by (induction n arbitrary: i w) simp_all

text \<open>Reports always fit the wire format, and nothing of them is lost on it.\<close>

lemma worker_request_fits:
  assumes "in_i64 qn" and "in_i64 ex"
  shows "latency_fits (worker_request base qn ex i w)" and "on_wire (worker_request base qn ex i w) = worker_request base qn ex i w"
  using assms by (simp_all add: worker_request_def latency_fits_def on_wire_def Let_def request_latency_default_def is_u32_def)

lemma length_serialize_latency:
  "length (rl_phases r) \<le> 64 \<Longrightarrow> int (length (serialize_latency r)) \<le> kMaxFrame"
proof -
  have "length (put_phase p) = 12" for p by (simp add: put_phase_def field_length put_enum_def)
  then have "length (concat (map put_phase ps)) = 12 * length ps" for ps by (induction ps) simp_all
  then show "length (rl_phases r) \<le> 64 \<Longrightarrow> ?thesis"
    by (simp add: serialize_latency_def put_latency_head_def field_length put_enum_def kMaxFrame_def)
qed

lemma send_msg_True:
  assumes "send_msg p s = (True, s')"
  shows "s_out s' = s_out s @ frame p \<and> s_in s' = s_in s"
  using assms send_frame_out by (auto simp: send_msg_def split: prod.splits)

lemma send_msg_generous:
  assumes "s_takes s = a # b # ks" and "600000 \<le> a" and "600000 \<le> b" and "p \<noteq> []" and "int (length p) \<le> kMaxFrame"
  shows "send_msg p s = (True, s\<lparr>s_out := s_out s @ frame p, s_takes := ks\<rparr>)"
proof -
  have gulp: "send_all bs t = (True, t\<lparr>s_out := s_out t @ bs, s_takes := cs\<rparr>)"
    if "s_takes t = d # cs" and "600000 \<le> d" and "bs \<noteq> []" and "int (length bs) \<le> 600000" for bs t d cs
  proof -
    have "send bs t = (int (length bs), t\<lparr>s_out := s_out t @ bs, s_takes := cs\<rparr>)"
      using that by (simp add: send_def Let_def min_absorb2 nat_le_iff [symmetric] le_nat_iff)
    then show ?thesis using that(3) by (subst send_all.simps) simp
  qed
  have "frame_header p \<noteq> []" using length_frame_header [of p] by (metis list.size(3) zero_neq_numeral)
  then have "send_all (frame_header p) s = (True, s\<lparr>s_out := s_out s @ frame_header p, s_takes := b # ks\<rparr>)"
    using assms(1,2) by (intro gulp) simp_all
  moreover have "send_all p (s\<lparr>s_out := s_out s @ frame_header p, s_takes := b # ks\<rparr>) =
      (True, s\<lparr>s_out := s_out s @ frame p, s_takes := ks\<rparr>)"
    using gulp [of "s\<lparr>s_out := s_out s @ frame_header p, s_takes := b # ks\<rparr>" b ks p] assms(3-5)
    by (simp add: frame_def kMaxFrame_def)
  ultimately show ?thesis using assms(4,5) by (simp add: send_msg_def send_frame_def)
qed

text \<open>Whether or not a report gets through completely, what was sent is the beginning of its frames.\<close>

lemma send_prefix: "\<exists>m. s_out (snd (send bs s)) = s_out s @ take m bs"
  by (auto simp: send_def Let_def split: list.split intro: exI [of _ 0])

lemma send_all_prefix: "\<exists>m. s_out (snd (send_all bs s)) = s_out s @ take m bs"
proof (induction bs s rule: send_all.induct)
  case (1 bs s)
  let ?k = "fst (send bs s)" and ?s = "snd (send bs s)"
  consider "bs = []" | "bs \<noteq> []" "?k \<le> 0" | "bs \<noteq> []" "0 < ?k" by linarith
  then show ?case
  proof cases
    case 2
    then show ?thesis using send_prefix [of bs s] by (subst send_all.simps) simp
  next
    case 3
    then have "s_out ?s = s_out s @ take (nat ?k) bs"
      by (auto simp: send_def Let_def split: list.splits if_splits)
    moreover obtain m where "s_out (snd (send_all (drop (nat ?k) bs) ?s)) = s_out ?s @ take m (drop (nat ?k) bs)"
      using 1 3 by auto
    ultimately have "s_out (snd (send_all bs s)) = s_out s @ take (nat ?k + m) bs"
      using 3 by (subst send_all.simps) (simp add: take_add)
    then show ?thesis ..
  qed (auto simp: intro: exI [of _ 0])
qed

lemma take_min_append: "take (min m (length xs)) (xs @ ys) = take m xs"
  by (cases "m \<le> length xs") simp_all

lemma send_msg_prefix: "\<exists>m. s_out (snd (send_msg p s)) = s_out s @ take m (frame p)"
proof -
  obtain ok h where h: "send_all (frame_header p) s = (ok, h)" by fastforce
  obtain ok2 k where k: "send_all p h = (ok2, k)" by fastforce
  obtain m where m: "s_out h = s_out s @ take m (frame_header p)" using send_all_prefix [of "frame_header p" s] h by auto
  obtain m' where m': "s_out k = s_out h @ take m' p" using send_all_prefix [of p h] k by auto
  consider "int (length p) > kMaxFrame" | "int (length p) \<le> kMaxFrame" "\<not> ok \<or> p = []"
    | "int (length p) \<le> kMaxFrame" "ok" "p \<noteq> []" by linarith
  then show ?thesis
  proof cases
    case 1
    then show ?thesis by (intro exI [of _ 0]) (simp add: send_msg_def send_frame_def)
  next
    case 2
    then have "snd (send_msg p s) = h" by (auto simp: send_msg_def send_frame_def h split: bool.split)
    then show ?thesis using m by (intro exI [of _ "min m (length (frame_header p))"]) (simp only: frame_def take_min_append)
  next
    case 3
    then have "snd (send_msg p s) = k" by (auto simp: send_msg_def send_frame_def h k split: bool.split)
    moreover have "s_out h = s_out s @ frame_header p" using send_all_out 3(2) h by simp
    ultimately show ?thesis using m' by (intro exI [of _ "14 + m'"]) (simp add: frame_def)
  qed
qed

lemma report_loop_out:
  assumes "report_loop base qn ex i n w s = (ok, w', s')"
  shows "(ok \<longrightarrow> s_out s' = s_out s @ report_stream (reports base qn ex i n w)) \<and>
    (\<exists>m. s_out s' = s_out s @ take m (report_stream (reports base qn ex i n w)))"
  using assms
proof (induction base qn ex i n w s rule: report_loop.induct)
  case (2 base qn ex i n w s)
  let ?f = "frame (serialize_latency (worker_request base qn ex i w))"
  obtain sent s1 where s1: "send_msg (serialize_latency (worker_request base qn ex i w)) s = (sent, s1)" by fastforce
  show ?case
  proof (cases sent)
    case True
    then have "s_out s1 = s_out s @ ?f" using send_msg_True s1 by simp
    moreover have "report_loop base qn ex (Suc i) n (next_request w) s1 = (ok, w', s')"
      using "2.prems" True s1 by simp
    from "2.IH" [OF s1 [symmetric] _ this] True
    obtain m where "s_out s' = s_out s1 @ take m (report_stream (reports base qn ex (Suc i) n (next_request w)))"
      and "ok \<longrightarrow> s_out s' = s_out s1 @ report_stream (reports base qn ex (Suc i) n (next_request w))"
      by blast
    ultimately show ?thesis by (auto intro: exI [of _ "length ?f + m"])
  next
    case False
    then have "\<not> ok" and "s' = s1" using "2.prems" s1 by auto
    moreover obtain m where "s_out s1 = s_out s @ take m ?f" using send_msg_prefix s1 by (metis snd_conv)
    moreover have "take m ?f = take (min m (length ?f)) (report_stream (reports base qn ex i (Suc n) w))"
      by (simp only: reports.simps report_stream_simps take_min_append)
    ultimately have "\<exists>m. s_out s' = s_out s @ take m (report_stream (reports base qn ex i (Suc n) w))" by metis
    with \<open>\<not> ok\<close> show ?thesis by blast
  qed
qed (auto intro: exI [of _ 0])

subsection \<open>What the coordinator makes of it\<close>

definition ingest_all :: "RequestLatency list \<Rightarrow> Impl \<Rightarrow> Impl" where
  "ingest_all rs g = fold (\<lambda>r g. snd (ingest r g)) rs g"

lemma ingest_all_simps [simp]: "ingest_all [] g = g" "ingest_all (r # rs) g = ingest_all rs (snd (ingest r g))"
  by (simp_all add: ingest_all_def)

text \<open>A frame that has not arrived completely is not taken for another one.\<close>

lemma recv_frame_truncated:
  assumes "incoming c = take j (frame p)" and "j < length (frame p)" and "int (length p) \<le> kMaxFrame"
  shows "fst (recv_frame c) = None"
proof (rule ccontr)
  assume "fst (recv_frame c) \<noteq> None"
  then obtain q c' where q: "recv_frame c = (Some q, c')" by (metis not_None_eq prod.collapse)
  have "take j (frame p) = frame q @ incoming c'" and q_max: "int (length q) \<le> kMaxFrame"
    using recv_frame_Some [OF q] assms(1) by simp_all
  then have eq: "frame p = frame q @ incoming c' @ drop j (frame p)" by (metis append.assoc append_take_drop_id)
  then have "take 14 (frame p) = take 14 (frame q)" by (simp add: frame_def)
  then have "frame_header p = frame_header q" by (simp add: frame_def)
  then have "put_u32 (of_nat (length p)) = put_u32 (of_nat (length q))" by (metis header_fields(3))
  then have "(of_nat (length p) :: u32) = of_nat (length q)" using u32.enc_inj by blast
  then have "length p = length q" using frame_length_word assms(3) q_max by metis
  then have "incoming c' @ drop j (frame p) = []" using arg_cong [OF eq, of length] by (simp add: frame_def)
  then show False using assms(2) by simp
qed

lemma receive_reports_stream:
  assumes "healthy c" and "incoming c = take m (report_stream rs) @ later"
    and "later = [] \<or> length (report_stream rs) \<le> m" and "list_all (\<lambda>r. latency_fits r \<and> on_wire r = r) rs"
  shows "\<exists>k c'. receive_reports (length rs) x c g = (x + of_nat k, c', ingest_all (take k rs) g) \<and> k \<le> length rs \<and>
     length (report_stream (take k rs)) \<le> m \<and> (k < length rs \<longrightarrow> m < length (report_stream (take (Suc k) rs)))"
  using assms
proof (induction rs arbitrary: c m x g)
  case (Cons r rs)
  let ?p = "serialize_latency r" and ?f = "frame (serialize_latency r)"
  have r: "latency_fits r" "on_wire r = r" using Cons.prems(4) by simp_all
  then have len: "int (length ?p) \<le> kMaxFrame" using length_serialize_latency by (simp add: latency_fits_def)
  show ?case
  proof (cases "length ?f \<le> m")
    case True
    then have "incoming c = ?f @ take (m - length ?f) (report_stream rs) @ later" using Cons.prems(2) by simp
    from recv_frame_frame [OF Cons.prems(1) this len] obtain c1 where
      c1: "recv_frame c = (Some ?p, c1)" "incoming c1 = take (m - length ?f) (report_stream rs) @ later" "healthy c1"
      by metis
    have "later = [] \<or> length (report_stream rs) \<le> m - length ?f" using Cons.prems(3) by auto
    from Cons.IH [OF c1(3,2) this, of "x + 1" "snd (ingest r g)"] Cons.prems(4)
    obtain k c' where k: "receive_reports (length rs) (x + 1) c1 (snd (ingest r g)) =
        (x + 1 + of_nat k, c', ingest_all (take k rs) (snd (ingest r g)))" "k \<le> length rs"
      "length (report_stream (take k rs)) \<le> m - length ?f"
      "k < length rs \<longrightarrow> m - length ?f < length (report_stream (take (Suc k) rs))" by auto
    have "msg_type ?p = Msg_code LATENCY" by (simp add: serialize_latency_def put_u8_def msg_type_def)
    then have "receive_reports (length (r # rs)) x c g = (x + of_nat (Suc k), c', ingest_all (take (Suc k) (r # rs)) g)"
      using k(1) by (simp add: recv_msg_def c1(1) deserialize_serialize [OF r(1)] r(2) ac_simps)
    moreover have "length (report_stream (take (Suc k) (r # rs))) \<le> m" using k(3) True by simp
    moreover have "Suc k < length (r # rs) \<longrightarrow> m < length (report_stream (take (Suc (Suc k)) (r # rs)))"
      using k(4) True by auto
    ultimately show ?thesis using k(2) by (intro exI [of _ "Suc k"] exI [of _ c']) simp
  next
    case False
    then have "incoming c = take m ?f" using Cons.prems(2,3) by auto
    then have "fst (recv_frame c) = None" using recv_frame_truncated len False by simp
    then obtain c1 where "recv_msg c = (None, c1)" by (metis prod.collapse recv_msg_def)
    then show ?thesis using False by (intro exI [of _ 0] exI [of _ c1]) simp
  qed
qed simp

text \<open>What ingestion leaves alone.\<close>

lemma ingest_keeps:
  "g_cfg (snd (ingest r g)) = g_cfg g" "g_worker_boots (snd (ingest r g)) = g_worker_boots g"
  "g_shutting_down (snd (ingest r g)) = g_shutting_down g"
  "om_find (g_seen (snd (ingest r g))) i = (if acceptable r g \<and> i = rl_request_id r
     then Some (rl_evidence_generation r) else om_find (g_seen g) i)"
proof -
  have same: "g_cfg (foldl (ingest_objective cls s) g objs) = g_cfg g \<and>
      g_worker_boots (foldl (ingest_objective cls s) g objs) = g_worker_boots g \<and>
      g_shutting_down (foldl (ingest_objective cls s) g objs) = g_shutting_down g" for cls s objs
    using ingest_objectives_eq [of cls s g objs] by auto
  show "g_cfg (snd (ingest r g)) = g_cfg g" "g_worker_boots (snd (ingest r g)) = g_worker_boots g"
    "g_shutting_down (snd (ingest r g)) = g_shutting_down g"
    by (cases rule: ingest_cases [of r g]; simp add: same)+
  show "om_find (g_seen (snd (ingest r g))) i = (if acceptable r g \<and> i = rl_request_id r
     then Some (rl_evidence_generation r) else om_find (g_seen g) i)"
    by (cases rule: ingest_cases [of r g]) (auto simp: om_find_emplace acceptable_def split: option.split)
qed

text \<open>A coordinator that stands where a worker believes it to stand.\<close>

definition serves :: "Impl \<Rightarrow> WorkerState \<Rightarrow> bool" where
  "serves g w \<longleftrightarrow> \<not> g_shutting_down g \<and> gc_epoch (g_cfg g) = Id (wk_epoch w) \<and>
     gc_service_generation (g_cfg g) = Id 1 \<and> gc_workload_generation (g_cfg g) = Id 1 \<and>
     om_find (g_worker_boots g) (wk_id w) = Some (wk_boot w)"

definition request_id_of :: "WorkerState \<Rightarrow> int \<Rightarrow> RequestId" where
  "request_id_of w c = Id (id_value (wk_id w) * 1000000 + u64_of_i64 c)"

lemma request_id_of_inj:
  assumes "request_id_of w c = request_id_of w d" and "in_i64 c" and "in_i64 d"
  shows "c = d"
proof -
  have "u64_of_i64 c = u64_of_i64 d" using assms(1) by (simp add: request_id_of_def)
  then show ?thesis using assms(2,3) by (metis i64_of_u64_of_i64)
qed

lemma worker_request_acceptable:
  assumes "serves g w" and "0 \<le> qn" and "0 \<le> ex" and "0 < qn + ex" and "0 < base"
    and "base + int i * 10 + qn + ex \<le> i64_max" and "om_find (g_seen g) (request_id_of w (wk_counter w)) = None"
  shows "acceptable (worker_request base qn ex i w) g"
proof -
  have "in_i64 (base + int i * 10)" "in_i64 (base + int i * 10 + qn)" "in_i64 (base + int i * 10 + qn + ex)"
    "in_i64 (qn + ex)" "in_i64 qn" "in_i64 ex"
    using assms by (simp_all add: in_i64_def i64_min_def)
  then show ?thesis
    using assms by (simp add: acceptable_def serves_def worker_request_def Let_def request_id_of_def
        request_latency_default_def total_of_def)
qed

lemma reports_accepted:
  assumes "serves g w" and "0 \<le> qn" and "0 \<le> ex" and "0 < qn + ex" and "0 < base"
    and "base + int (i + n) * 10 + qn + ex \<le> i64_max" and "0 \<le> wk_counter w" and "wk_counter w + int n \<le> i64_max"
    and "\<And>k. k < n \<Longrightarrow> om_find (g_seen g) (request_id_of w (wk_counter w + int k)) = None"
  shows "k < n \<Longrightarrow> is_ok (fst (ingest (reports base qn ex i n w ! k) (ingest_all (take k (reports base qn ex i n w)) g)))"
  using assms
proof (induction n arbitrary: i w g k)
  case (Suc n)
  let ?r = "worker_request base qn ex i w"
  have "om_find (g_seen g) (request_id_of w (wk_counter w)) = None" using Suc.prems(10) [of 0] by simp
  then have acc: "acceptable ?r g" using Suc.prems by (intro worker_request_acceptable) auto
  show ?case
  proof (cases k)
    case 0
    then show ?thesis using acc by (cases rule: ingest_cases [of ?r g]) simp_all
  next
    case k: (Suc k')
    let ?w = "next_request w" and ?g = "snd (ingest ?r g)"
    have c: "wk_counter ?w = wk_counter w + 1" using Suc.prems(8,9) by (simp add: next_request_def in_i64_def i64_min_def)
    have id: "request_id_of ?w = request_id_of w" by (simp add: request_id_of_def next_request_def fun_eq_iff)
    have rid: "rl_request_id ?r = request_id_of w (wk_counter w)"
      by (simp add: worker_request_def Let_def request_id_of_def)
    have "serves ?g ?w" using Suc.prems(2) by (simp add: serves_def next_request_def ingest_keeps)
    moreover have "om_find (g_seen ?g) (request_id_of ?w (wk_counter ?w + int j)) = None" if "j < n" for j
    proof -
      have "request_id_of w (wk_counter w + 1 + int j) \<noteq> request_id_of w (wk_counter w)"
        using Suc.prems(8,9) that by (auto dest!: request_id_of_inj simp: in_i64_def i64_min_def)
      then show ?thesis
        using Suc.prems(10) [of "Suc j"] that by (simp add: ingest_keeps(4) rid id c algebra_simps)
    qed
    ultimately show ?thesis
      using Suc.IH [of k' ?g ?w "Suc i"] Suc.prems k by (simp add: c)
  qed
qed simp

subsection \<open>Properties\<close>

text \<open>C11: A report travels from worker to coordinator without loss of order: when the coordinator asks for
  reports and the network delivers some beginning of what the worker sent before one of them failed,
  then \<open>req_report\<close> has ingested the worker's first \<open>k\<close> reports, in order and unchanged, and returns
  \<open>k\<close>; it is all of them when the worker finished and everything was delivered.\<close>

theorem reports_arrive_in_order:
  assumes "worker_handle (report_request n base qn ex) w sw = (e, w', sw')" and "s_out sw = []"
    and "n \<le> 100000" and "in_i64 base" and "in_i64 qn" and "in_i64 ex"
    and "healthy c" and "incoming c = take m (s_out sw')" and "fst (send_msg (report_request n base qn ex) c)"
  shows "\<exists>k c'. req_report n base qn ex c g = (of_nat k, c', ingest_all (take k (reports base qn ex 0 (unat n) w)) g) \<and>
     k \<le> unat n \<and> (e = Connected \<and> length (s_out sw') \<le> m \<longrightarrow> k = unat n)"
proof -
  let ?rs = "reports base qn ex 0 (unat n) w" and ?q = "report_request n base qn ex"
  have "unat n \<le> 100000" using assms(3) by (simp add: word_le_nat_alt)
  then have n: "unat (ucast n :: u32) = unat n"
    by (simp add: unsigned_ucast_eq unsigned_take_bit_eq take_bit_nat_eq_self)
  then have n': "\<not> (ucast n :: u32) > 100000" using \<open>unat n \<le> 100000\<close> by (simp add: word_less_nat_alt)
  have "drop 1 ?q = put_u32 (ucast n) @ put_i64 base @ put_i64 qn @ put_i64 ex" and "msg_type ?q = Msg_code REPORT"
    by (simp_all add: report_request_def put_u8_def msg_type_def)
  moreover have "fst (run_state get_report (reading (put_u32 (ucast n) @ put_i64 base @ put_i64 qn @ put_i64 ex) True)) =
      (ucast n, base, qn, ex)"
    using i64.decode_end [of ex True] assms(4-6) by (simp add: get_report_def field_decode)
  ultimately obtain ok where ok: "report_loop base qn ex 0 (unat n) w sw = (ok, w', sw')" "e = Connected \<longleftrightarrow> ok"
    using assms(1) n n' by (auto simp: worker_handle_def Let_def split: prod.splits if_splits)
  have full: "ok \<longrightarrow> s_out sw' = report_stream ?rs" using report_loop_out [OF ok(1)] assms(2) by simp
  have "\<exists>j. s_out sw' = take j (report_stream ?rs)" using report_loop_out [OF ok(1)] assms(2) by simp
  then obtain j where "s_out sw' = take j (report_stream ?rs)" by blast
  moreover obtain c1 where c1: "send_msg ?q c = (True, c1)" using assms(9) by (metis prod.collapse)
  moreover define l where "l = (if ok then min m (length (report_stream ?rs)) else min m j)"
  ultimately have "healthy c1" and "incoming c1 = take l (report_stream ?rs) @ []"
    using assms(7,8) full send_msg_True [OF c1]
    by (auto simp: healthy_def incoming_def min.commute min_def split: if_splits)
  moreover have "list_all (\<lambda>r. latency_fits r \<and> on_wire r = r) ?rs"
  proof -
    have "list_all (\<lambda>r. latency_fits r \<and> on_wire r = r) (reports base qn ex i k w)" for i k w
      by (induction k arbitrary: i w) (simp_all add: worker_request_fits assms(5,6))
    then show ?thesis .
  qed
  ultimately obtain k c' where k: "receive_reports (length ?rs) 0 c1 g = (0 + of_nat k, c', ingest_all (take k ?rs) g)"
      "k \<le> length ?rs" "k < length ?rs \<longrightarrow> l < length (report_stream (take (Suc k) ?rs))"
    using receive_reports_stream [of c1 l ?rs "[]" 0 g] by auto
  have "length (report_stream (take (Suc k) ?rs)) \<le> length (report_stream ?rs)"
    using report_stream_append [of "take (Suc k) ?rs" "drop (Suc k) ?rs"] by simp
  then have "k = unat n" if "e = Connected" and "length (s_out sw') \<le> m" using k(2,3) that full ok(2) by (auto simp: l_def)
  then show ?thesis using k by (intro exI [of _ k] exI [of _ c']) (simp add: req_report_def c1)
qed

lemma reports_arrive_in_order_witness:
  "let w = worker_new name_B 1; e = worker_handle (report_request 1 10 0 5) w \<lparr>s_in = [], s_out = [], s_takes = [700000, 700000]\<rparr>;
       c = \<lparr>s_in = [s_out (snd (snd e))], s_out = [], s_takes = [700000, 700000]\<rparr>
   in \<exists>c'. req_report 1 10 0 5 c demo_governor = (1, c', snd (ingest (worker_request 10 0 5 0 w) demo_governor))"
proof -
  let ?q = "report_request 1 10 0 5" and ?w = "worker_new name_B 1" and ?s = "\<lparr>s_in = [], s_out = [], s_takes = [700000, 700000]\<rparr>"
  let ?p = "serialize_latency (worker_request 10 0 5 0 ?w)"
  have i64: "in_i64 10" "in_i64 0" "in_i64 5" by (simp_all add: in_i64_def i64_min_def i64_max_def)
  have p: "?p \<noteq> []" "int (length ?p) \<le> kMaxFrame"
    using length_serialize_latency [of "worker_request 10 0 5 0 ?w"]
    by (simp_all add: serialize_latency_def put_u8_def worker_request_def Let_def request_latency_default_def)
  have q: "?q \<noteq> []" "int (length ?q) \<le> kMaxFrame"
    by (simp_all add: report_request_def put_u8_def field_length kMaxFrame_def)
  have "drop 1 ?q = put_u32 1 @ put_i64 10 @ put_i64 0 @ put_i64 5" and "msg_type ?q = Msg_code REPORT"
    by (simp_all add: report_request_def put_u8_def msg_type_def)
  then have e: "worker_handle ?q ?w ?s = (Connected, next_request ?w, ?s\<lparr>s_out := frame ?p, s_takes := []\<rparr>)"
    using send_msg_generous [OF _ _ _ p, of ?s] i64.decode_end [OF i64(3), of True] i64
    by (simp add: worker_handle_def Let_def get_report_def field_decode)
  let ?c = "\<lparr>s_in = [frame ?p], s_out = [], s_takes = [700000, 700000]\<rparr>"
  have "healthy ?c" by (simp add: healthy_def frame_def p)
  moreover have "incoming ?c = take (length (frame ?p)) (s_out (?s\<lparr>s_out := frame ?p, s_takes := []\<rparr>))"
    by (simp add: incoming_def)
  moreover have "fst (send_msg ?q ?c)" using send_msg_generous [OF _ _ _ q, of ?c] by simp
  ultimately obtain k c' where "req_report 1 10 0 5 ?c demo_governor =
      (of_nat k, c', ingest_all (take k (reports 10 0 5 0 (unat (1 :: u64)) ?w)) demo_governor)" and "k = 1"
    using reports_arrive_in_order [OF e _ _ i64, of ?c "length (frame ?p)" demo_governor] by auto
  then show ?thesis unfolding Let_def e by simp
qed

text \<open>Reports under the current epoch count: once a worker was told the coordinator's epoch, every one of
  the reports it sends for a request is accepted, one after the other, provided it is registered with
  its boot, the figures of the request do not overflow and none of its next identities was used.\<close>

theorem reports_under_the_current_epoch_count:
  assumes "worker_handle (put_u8 (Msg_code SET_EPOCH) @ put_u64 ep) w s = (e, w', s')"
    and "gc_epoch (g_cfg g) = Id ep" and "serves (g\<lparr>g_cfg := (g_cfg g)\<lparr>gc_epoch := Id (wk_epoch w)\<rparr>\<rparr>) w"
    and "0 \<le> qn" and "0 \<le> ex" and "0 < qn + ex" and "0 < base"
    and "base + int n * 10 + qn + ex \<le> i64_max" and "0 \<le> wk_counter w" and "wk_counter w + int n \<le> i64_max"
    and "\<And>k. k < n \<Longrightarrow> om_find (g_seen g) (request_id_of w (wk_counter w + int k)) = None" and "k < n"
  shows "is_ok (fst (ingest (reports base qn ex 0 n w' ! k) (ingest_all (take k (reports base qn ex 0 n w')) g)))"
proof -
  have "w' = w\<lparr>wk_epoch := ep\<rparr>"
    using assms(1) u64.decode_end [of ep True] by (simp add: worker_handle_def put_u8_def msg_type_def)
  moreover from this have "request_id_of w' = request_id_of w" by (simp add: request_id_of_def fun_eq_iff)
  ultimately show ?thesis
    using assms by (intro reports_accepted) (simp_all add: serves_def)
qed

definition demo_coordinator :: Impl where
  "demo_coordinator = snd (register_worker (Id 200) (Id 1) (governor_new (governor_config_default\<lparr>gc_epoch := Id 2,
     gc_service_generation := Id 1, gc_workload_generation := Id 1\<rparr>)))"

lemma reports_under_the_current_epoch_count_witness:
  "is_ok (fst (ingest (worker_request 10 2 3 0 ((worker_new name_B 1)\<lparr>wk_epoch := 2\<rparr>)) demo_coordinator))"
proof -
  let ?w = "worker_new name_B 1" and ?s = "\<lparr>s_in = [], s_out = [], s_takes = []\<rparr>"
  have "worker_handle (put_u8 (Msg_code SET_EPOCH) @ put_u64 2) ?w ?s = (Connected, ?w\<lparr>wk_epoch := 2\<rparr>, ?s)"
    using u64.decode_end [of 2 True] by (simp add: worker_handle_def put_u8_def msg_type_def)
  moreover have "gc_epoch (g_cfg demo_coordinator) = Id 2" "g_seen demo_coordinator = om_empty"
    "serves (demo_coordinator\<lparr>g_cfg := (g_cfg demo_coordinator)\<lparr>gc_epoch := Id (wk_epoch ?w)\<rparr>\<rparr>) ?w"
    by (simp_all add: demo_coordinator_def register_worker_def governor_new_def serves_def worker_new_def
        name_A_def name_B_def om_empty_def om_find_def)
  moreover have "wk_counter ?w = 0" by (simp add: worker_new_def)
  ultimately show ?thesis
    using reports_under_the_current_epoch_count [of 2 ?w ?s Connected "?w\<lparr>wk_epoch := 2\<rparr>" ?s demo_coordinator 2 3 10 1 0]
    by (simp add: i64_max_def om_empty_def om_find_def)
qed

lemma reports_ids:
  "0 \<le> wk_counter w \<Longrightarrow> wk_counter w + int n \<le> i64_max \<Longrightarrow> r \<in> set (reports base qn ex i n w) \<Longrightarrow>
     \<exists>k < n. rl_request_id r = request_id_of w (wk_counter w + int k)"
proof (induction n arbitrary: i w)
  case (Suc n)
  have c: "wk_counter (next_request w) = wk_counter w + 1"
    using Suc.prems by (simp add: next_request_def in_i64_def i64_min_def)
  have id: "request_id_of (next_request w) = request_id_of w" by (simp add: request_id_of_def next_request_def fun_eq_iff)
  consider "r = worker_request base qn ex i w" | "r \<in> set (reports base qn ex (Suc i) n (next_request w))"
    using Suc.prems(3) by auto
  then show ?case
  proof cases
    case 1
    then show ?thesis by (intro exI [of _ 0]) (simp add: worker_request_def Let_def request_id_of_def)
  next
    case 2
    then obtain k where "k < n" "rl_request_id r = request_id_of w (wk_counter w + 1 + int k)"
      using Suc.IH [OF _ _ 2] Suc.prems(1,2) by (auto simp: c id)
    then show ?thesis by (intro exI [of _ "Suc k"]) (simp add: algebra_simps)
  qed
qed simp

text \<open>C33: A worker that is started again numbers its reports from zero and so repeats the identities of its
  predecessor: a coordinator that has seen the predecessor's first \<open>n\<close> reports refuses the first \<open>n\<close>
  reports of the successor, whatever boot it runs under and was registered with.\<close>

theorem restarted_worker_repeats_identities:
  assumes "\<And>k. k < n \<Longrightarrow> om_find (g_seen g) (request_id_of (worker_new name boot) (int k)) \<noteq> None"
    and "int n \<le> i64_max"
  shows "ingest_all (reports base qn ex i n (worker_new name boot')) g = g"
proof -
  have "\<exists>k < n. rl_request_id r = request_id_of (worker_new name boot) (int k)"
    if "r \<in> set (reports base qn ex i n (worker_new name boot'))" for r
    using reports_ids [OF _ _ that] assms(2) by (simp add: worker_new_def request_id_of_def)
  then have "\<forall>r \<in> set (reports base qn ex i n (worker_new name boot')). om_find (g_seen g) (rl_request_id r) \<noteq> None"
    using assms(1) by metis
  moreover have "ingest_all rs g = g" if "\<forall>r \<in> set rs. om_find (g_seen g) (rl_request_id r) \<noteq> None" for rs
    using that
  proof (induction rs)
    case (Cons r rs)
    then have "\<not> acceptable r g" by (simp add: acceptable_def)
    then have "snd (ingest r g) = g" by (cases rule: ingest_cases [of r g]) simp_all
    then show ?case using Cons by simp
  qed simp
  ultimately show ?thesis by blast
qed

lemma restarted_worker_repeats_identities_witness:
  "let r = worker_request 10 2 3 0 ((worker_new name_B 1)\<lparr>wk_epoch := 2\<rparr>);
       g = snd (register_worker (Id 200) (Id 2) (snd (ingest r demo_coordinator)))
   in ingest_all (reports 10 2 3 0 1 (worker_new name_B 2)) g = g"
proof -
  let ?r = "worker_request 10 2 3 0 ((worker_new name_B 1)\<lparr>wk_epoch := 2\<rparr>)"
  let ?g = "snd (register_worker (Id 200) (Id 2) (snd (ingest ?r demo_coordinator)))"
  have "acceptable ?r demo_coordinator"
    by (simp add: acceptable_def worker_request_def Let_def worker_new_def name_A_def name_B_def
        request_latency_default_def total_of_def demo_coordinator_def register_worker_def governor_new_def
        om_empty_def om_find_def i64_max_def in_i64_def i64_min_def)
  moreover have "rl_request_id ?r = request_id_of (worker_new name_B 1) 0"
    by (simp add: worker_request_def Let_def worker_new_def request_id_of_def)
  ultimately have seen: "om_find (g_seen ?g) (request_id_of (worker_new name_B 1) (int k)) \<noteq> None" if "k < 1" for k
    using that by (simp add: register_worker_def ingest_keeps(4))
  show ?thesis unfolding Let_def
    by (rule restarted_worker_repeats_identities [where boot = 1]) (use seen in \<open>simp_all add: i64_max_def\<close>)
qed

end
