(* ===== verification/History.thy ===== *)
theory History
  imports Runs Worker
begin

text \<open>
  What a run leaves behind: the epoch counts the calls of \<open>advance_epoch\<close> and nothing else, and what was
  ingested is remembered until the next of them, through loads of files, changes of policy and generations.
\<close>

subsection \<open>The epoch counts its advances\<close>

definition advances :: "GovOp list \<Rightarrow> nat" where "advances ops = count_list ops AdvanceEpoch"

lemma advances_simps [simp]:
  "advances [] = 0" "advances (op # ops) = (if op = AdvanceEpoch then Suc (advances ops) else advances ops)"
  by (simp_all add: advances_def)

lemma perform_epoch: "op \<noteq> AdvanceEpoch \<Longrightarrow> gc_epoch (g_cfg (perform op g)) = gc_epoch (g_cfg g)"
  by (rule perform_invariant [where I = "\<lambda>h. gc_epoch (g_cfg h) = gc_epoch (g_cfg g)"])
    (simp_all add: keeps_evidence_def ingest_keeps frame)

lemma perform_advance: "id_value (gc_epoch (g_cfg (perform AdvanceEpoch g))) = id_value (gc_epoch (g_cfg g)) + 1"
  by (simp add: advance_epoch_def Let_def)

lemma run_epoch: "id_value (gc_epoch (g_cfg (run ops g))) = id_value (gc_epoch (g_cfg g)) + of_nat (advances ops)"
proof (induction ops arbitrary: g)
  case (Cons op ops)
  then show ?case
    using perform_epoch [of op g] by (cases "op = AdvanceEpoch") (simp_all add: perform_advance del: perform.simps)
qed simp

lemma epoch_left:
  assumes "0 < advances ops" and "advances ops < 2 ^ 64"
  shows "gc_epoch (g_cfg (run ops g)) \<noteq> gc_epoch (g_cfg g)"
proof -
  have "unat (of_nat (advances ops) :: u64) = advances ops" using assms(2) by (simp add: unat_of_nat)
  then have "(of_nat (advances ops) :: u64) \<noteq> 0" using assms(1) by auto
  then show ?thesis using run_epoch [of ops g] by auto
qed

subsection \<open>Evidence is remembered\<close>

lemma perform_remembers:
  assumes "op \<noteq> AdvanceEpoch" and "om_find (g_seen g) i \<noteq> None"
  shows "om_find (g_seen (perform op g)) i \<noteq> None"
  using assms(2)
  by (rule perform_invariant [where I = "\<lambda>h. om_find (g_seen h) i \<noteq> None"])
    (use assms(1) in \<open>simp_all add: keeps_evidence_def ingest_keeps frame\<close>)

lemma run_remembers: "advances ops = 0 \<Longrightarrow> om_find (g_seen g) i \<noteq> None \<Longrightarrow> om_find (g_seen (run ops g)) i \<noteq> None"
proof (induction ops arbitrary: g)
  case (Cons op ops)
  then show ?case using perform_remembers [of op g i] by (simp split: if_splits del: perform.simps)
qed simp

subsection \<open>Properties\<close>

text \<open>C9: A request counts once: once evidence of a request was accepted, any evidence with the identity of
  that request is refused and changes nothing, whatever operations come between (loads of arbitrary files,
  changes of policy or of workers included), as long as none of them advances the epoch.\<close>

theorem evidence_counts_once:
  assumes "code (fst (ingest ev g)) = OK" and "advances ops = 0" and "rl_request_id again = rl_request_id ev"
    and "h = run ops (snd (ingest ev g))"
  shows "code (fst (ingest again h)) \<noteq> OK \<and> snd (ingest again h) = h"
proof -
  have "acceptable ev g" using assms(1) by (cases rule: ingest_cases [of ev g]) simp_all
  then have "om_find (g_seen (snd (ingest ev g))) (rl_request_id ev) \<noteq> None" by (simp add: ingest_keeps)
  then have "\<not> acceptable again h" using run_remembers [OF assms(2)] assms(3,4) by (simp add: acceptable_def)
  then show ?thesis by (cases rule: ingest_cases [of again h]) simp_all
qed

lemma evidence_counts_once_witness:
  "code (fst (ingest (demo_request 1 500) (run [SetQueueGeneration (Id 4), Decide] (snd (ingest (demo_request 1 300) demo_governor))))) \<noteq> OK"
proof -
  have "code (fst (ingest (demo_request 1 300) demo_governor)) = OK" by code_simp
  from evidence_counts_once [OF this _ _ refl, of "[SetQueueGeneration (Id 4), Decide]" "demo_request 1 500"]
  show ?thesis by (simp add: demo_request_def del: run_simps)
qed

text \<open>C10: An epoch that was left does not come back: after a run with at least one and fewer than \<open>2 ^ 64\<close>
  advances of the epoch, whatever else it does, evidence of the epoch before the run is refused without
  effect, and no intervention that carries that epoch in its authority can be dispatched.\<close>

theorem epochs_fence_forever:
  assumes "0 < advances ops" and "advances ops < 2 ^ 64" and "h = run ops g"
  shows "(rl_epoch ev = gc_epoch (g_cfg g) \<longrightarrow> code (fst (ingest ev h)) \<in> {StatusCode.STALE_AUTHORITY, StatusCode.SHUTTING_DOWN} \<and>
       snd (ingest ev h) = h) \<and>
     (\<forall>v. om_find (g_interventions h) i = Some v \<and> a_epoch (inv_authority v) = gc_epoch (g_cfg g) \<longrightarrow>
       (\<exists>s. fst (dispatch i h) = Inl s))"
proof -
  have e: "gc_epoch (g_cfg h) \<noteq> gc_epoch (g_cfg g)" using epoch_left [OF assms(1,2)] by (simp add: assms(3))
  have "\<not> dispatchable v h" if "a_epoch (inv_authority v) = gc_epoch (g_cfg g)" for v
    using that e by (auto simp: dispatchable_def current_authority_def)
  then have "fst (dispatch i h) \<noteq> Inr w" if "om_find (g_interventions h) i = Some v" "a_epoch (inv_authority v) = gc_epoch (g_cfg g)" for v w
    using that by (auto simp: dispatch_iff)
  moreover have "code (fst (ingest ev h)) \<in> {StatusCode.STALE_AUTHORITY, StatusCode.SHUTTING_DOWN} \<and> snd (ingest ev h) = h"
    if "rl_epoch ev = gc_epoch (g_cfg g)"
    using that e by (auto simp: ingest_def)
  ultimately show ?thesis by (metis sum.exhaust)
qed

lemma epochs_fence_forever_witness:
  "\<exists>s. fst (dispatch (Id 1) (run [AdvanceEpoch, SetQueueGeneration (Id 4)] demo_authorized)) = Inl s"
proof -
  let ?h = "run [AdvanceEpoch, SetQueueGeneration (Id 4)] demo_authorized"
  have "(case om_find (g_interventions ?h) (Id 1) of Some v \<Rightarrow> a_epoch (inv_authority v) = gc_epoch (g_cfg demo_authorized) | None \<Rightarrow> False)"
    by code_simp
  then obtain v where "om_find (g_interventions ?h) (Id 1) = Some v" "a_epoch (inv_authority v) = gc_epoch (g_cfg demo_authorized)"
    by (auto split: option.splits)
  then show ?thesis using epochs_fence_forever [of "[AdvanceEpoch, SetQueueGeneration (Id 4)]" _ demo_authorized "demo_request 1 300" "Id 1"] by simp
qed

end
