(* ===== verification/Coordinator.thy ===== *)
theory Coordinator
  imports Worker Persistence
begin

text \<open>
  The coordinator's side of tailgov_d.cpp: the governor it sets up, its scenarios and its second
  incarnation, which loads the state file and makes the workers report again. What the operating system
  decides is a parameter: the clock, the readings of \<open>now_ns\<close> taken between the steps, the connections
  accepted and the disk. Listening, process creation and console output are left out.
\<close>

subsection \<open>The governor of the coordinator\<close>

definition coordinator_config :: "Clock \<Rightarrow> GovernorConfig" where
  "coordinator_config clock = governor_config_default\<lparr>gc_clock := Some clock, gc_epoch := Id 1, gc_service := Id 1,
     gc_service_generation := Id 1, gc_workload := Id 1, gc_workload_generation := Id 1\<rparr>"

definition coordinator_objective :: TailObjective where
  "coordinator_objective = tail_objective_default\<lparr>o_id := Id 1, o_generation := Id 1, o_percentile := percentile 99 1,
     o_target := Duration 10000000,
     o_window := window_config_default\<lparr>wc_mode := ROLLING_COUNT, wc_fixed_count := 200, wc_max_samples := 400\<rparr>,
     o_min_samples := 0, o_freshness := Duration 30000000000, o_hard := True, o_recovery_fraction := lit 90 100,
     o_cool_down := Duration 0, o_priority := 0, o_enabled := True\<rparr>"

definition make_gov :: "Clock \<Rightarrow> Impl" where
  "make_gov clock =
     (let g = governor_new (coordinator_config clock);
          pol = tail_policy_default\<lparr>po_id := Id 1, po_generation := Id 1, po_name := ''distributed policy'',
                  po_objectives := [coordinator_objective]\<rparr>;
          g = set_policy pol g;
          g = snd (register_worker (Id 100) (Id 1) g)
      in snd (register_worker (Id 200) (Id 1) g))"

definition mk_stale :: "WorkerId \<Rightarrow> WorkerBootId \<Rightarrow> RequestLatency" where
  "mk_stale wk boot = request_latency_default\<lparr>rl_request_id := Id (111000 + id_value wk), rl_request_class := Id 0,
     rl_worker := wk, rl_worker_boot := boot, rl_epoch := Id 1, rl_service_generation := Id 1,
     rl_workload_generation := Id 1, rl_arrival_ns := 5000000000, rl_completion_ns := 5000004000,
     rl_publication_ns := 5000004000, rl_captured_ns := 5000004000, rl_total_latency := Duration 4000,
     rl_status := SUCCESS, rl_retry_count := 0\<rparr>"

subsection \<open>Scenarios\<close>

text \<open>\<open>t1\<close>, \<open>t2\<close> and \<open>t3\<close> are the readings of \<open>now_ns\<close>.\<close>

definition scenario_a :: "int \<Rightarrow> int \<Rightarrow> int \<Rightarrow> Sock \<Rightarrow> Sock \<Rightarrow> Impl \<Rightarrow> bool \<times> Sock \<times> Sock \<times> Impl" where
  "scenario_a t1 t2 t3 a b g =
     (let (_, a, g) = req_report 200 t1 0 2000000 a g;
          (_, b, g) = req_report 200 t2 12000000 1000000 b g
      in case evaluate (Id 1) g of
        (Inl _, g) \<Rightarrow> (False, a, b, g)
      | (Inr ev, g) \<Rightarrow>
          if ev_state ev \<noteq> VIOLATING then (False, a, b, g)
          else if ev_causes ev = [] \<or> tc_category (hd (ev_causes ev)) \<noteq> QUEUEING then (False, a, b, g)
          else case send_intervention QUEUE_SHAPE b of
            (False, b) \<Rightarrow> (False, a, b, g)
          | (True, b) \<Rightarrow>
              (let (_, b, g) = req_report 200 t3 1000000 1000000 b g
               in case evaluate (Id 1) g of
                 (Inl _, g) \<Rightarrow> (False, a, b, g)
               | (Inr ev, g) \<Rightarrow> (nanos (ev_observed ev) \<le> 10000000 \<and> ev_state ev \<noteq> VIOLATING, a, b, g)))"

text \<open>The worker was killed; its successor runs under a new boot.\<close>

definition scenario_b :: "Impl \<Rightarrow> bool \<times> Impl" where
  "scenario_b g =
     (let (_, g) = register_worker (Id 100) (Id 2) g; (s, g) = ingest (mk_stale (Id 100) (Id 1)) g in
      if code s \<noteq> StatusCode.STALE_AUTHORITY then (False, g)
      else let (s, g) = ingest (mk_stale (Id 100) (Id 2)) g in (code s = OK, g))"

definition scenario_c :: "Clock \<Rightarrow> bool" where
  "scenario_c clock =
     (case evaluate (Id 1) (make_gov clock) of
        (Inl _, g) \<Rightarrow> False
      | (Inr ev, g) \<Rightarrow>
          (let prop = intervention_default\<lparr>inv_type := QUEUE_SHAPE, inv_objective := Id 1,
                 inv_objective_generation := Id 1, inv_authority := ev_authority ev, inv_status := PROPOSED\<rparr>
           in case authorize prop g of
             (Inl _, g) \<Rightarrow> False
           | (Inr a, g) \<Rightarrow>
               (let p2 = (policy g)\<lparr>po_generation := Id 2\<rparr>; g = set_policy p2 g
                in case fst (dispatch (inv_id a) g) of
                  Inr _ \<Rightarrow> False
                | Inl s \<Rightarrow> code s = StatusCode.STALE_AUTHORITY)))"

definition recovering_request :: "int \<Rightarrow> nat \<Rightarrow> RequestLatency" where
  "recovering_request base i =
     (let arrival = i64 (base + int i * 10); completion = i64 (arrival + 13000000) in
      (mk_stale (Id 200) (Id 1))\<lparr>rl_request_id := Id (of_nat (70000 + i)), rl_arrival_ns := arrival,
        rl_completion_ns := completion, rl_publication_ns := completion, rl_captured_ns := completion,
        rl_total_latency := Duration 13000000,
        rl_phases := [\<lparr>pl_phase = Phase.RECOVERY_WAIT, pl_duration = Duration 12000000\<rparr>,
                      \<lparr>pl_phase = Phase.EXECUTION, pl_duration = Duration 1000000\<rparr>]\<rparr>)"

definition scenario_e :: "Clock \<Rightarrow> int \<Rightarrow> bool" where
  "scenario_e clock base =
     (let g = set_resource_facts (resource_facts_default\<lparr>f_failover_candidate := False\<rparr>) (make_gov clock);
          g = fold (\<lambda>i g. snd (ingest (recovering_request base i) g)) [0..<200] g
      in case fst (evaluate (Id 1) g) of
        Inl _ \<Rightarrow> False
      | Inr ev \<Rightarrow> ev_selected_intervention ev = ACCELERATE_RECOVERY \<and> ev_binding_hard_constraint ev \<noteq> None)"

subsection \<open>The second incarnation\<close>

text \<open>What \<open>accept\<close> returned: a socket or nothing.\<close>

definition accept_one :: "Sock option \<Rightarrow> (HelloInfo \<times> Sock) option" where
  "accept_one conn = (case conn of None \<Rightarrow> None
     | Some s \<Rightarrow> (case read_hello s of (None, s) \<Rightarrow> None | (Some h, s) \<Rightarrow> Some (h, s)))"

text \<open>The later of the two connections that greeted with the name.\<close>

definition named :: "byte list \<Rightarrow> (HelloInfo \<times> Sock) option \<Rightarrow> (HelloInfo \<times> Sock) option \<Rightarrow> (HelloInfo \<times> Sock) option" where
  "named name got1 got2 =
     (let conn = (case got1 of Some (h, s) \<Rightarrow> if h_name h = name then Some (h, s) else None | None \<Rightarrow> None)
      in case got2 of Some (h, s) \<Rightarrow> if h_name h = name then Some (h, s) else conn | None \<Rightarrow> conn)"

definition register_hello :: "(HelloInfo \<times> Sock) option \<Rightarrow> Impl \<Rightarrow> Impl" where
  "register_hello conn g = (case conn of None \<Rightarrow> g | Some (h, s) \<Rightarrow> snd (register_worker (h_wk h) (h_boot h) g))"

definition send_to :: "byte list \<Rightarrow> Sock option \<Rightarrow> Sock option" where
  "send_to msg conn = map_option (\<lambda>s. snd (send_msg msg s)) conn"

definition report_from :: "int \<Rightarrow> Sock option \<Rightarrow> Impl \<Rightarrow> u64 \<times> Sock option \<times> Impl" where
  "report_from t conn g =
     (case conn of None \<Rightarrow> (0, None, g)
      | Some s \<Rightarrow> (case req_report 200 t 2000000 2000000 s g of (n, s, g) \<Rightarrow> (n, Some s, g)))"

record Resumption =
  re_revalidation :: bool
  re_stale_rejected :: bool
  re_have_b :: bool
  re_resumed :: bool
  re_reports :: u64
  re_gov :: Impl
  re_a :: "Sock option"
  re_b :: "Sock option"

definition d_pass :: "Resumption \<Rightarrow> bool" where
  "d_pass r \<longleftrightarrow> re_revalidation r \<and> re_stale_rejected r \<and> re_have_b r \<and> re_resumed r"

definition resume_load :: "Clock \<Rightarrow> bool \<Rightarrow> string \<Rightarrow> Disk \<Rightarrow> Impl option" where
  "resume_load clock readable path d =
     (case load readable path d (governor_new (coordinator_config clock)) of
        (s, g) \<Rightarrow> if \<not> is_ok s then None else Some (advance_epoch g))"

definition resume_with :: "Sock option \<Rightarrow> Sock option \<Rightarrow> int \<Rightarrow> int \<Rightarrow> Impl \<Rightarrow> Resumption" where
  "resume_with conn1 conn2 t1 t2 g =
     (let newEpoch = id_value (epoch g);
          got1 = accept_one conn1; got2 = accept_one conn2;
          a = named name_A got1 got2; b = named name_B got1 got2;
          g = register_hello a g; g = register_hello b g;
          (pre, g) = evaluate (Id 1) g;
          revalidation = (case pre of Inr ev \<Rightarrow> ev_state ev = REVALIDATION_REQUIRED | Inl _ \<Rightarrow> False);
          (s, g) = ingest ((mk_stale (Id 200) (Id 1))\<lparr>rl_epoch := Id 1\<rparr>) g;
          se = put_u8 (Msg_code SET_EPOCH) @ put_u64 newEpoch;
          aSock = send_to se (map_option snd a); bSock = send_to se (map_option snd b);
          (n1, aSock, g) = report_from t1 aSock g; (n2, bSock, g) = report_from t2 bSock g;
          n = n1 + n2;
          (post, g) = evaluate (Id 1) g;
          resumed = (case post of Inr ev \<Rightarrow> ev_state ev \<noteq> REVALIDATION_REQUIRED \<and> n \<ge> 200 | Inl _ \<Rightarrow> False);
          sh = put_u8 (Msg_code SHUTDOWN)
      in \<lparr>re_revalidation = revalidation, re_stale_rejected = (code s = StatusCode.STALE_AUTHORITY),
          re_have_b = (b \<noteq> None), re_resumed = resumed, re_reports = n, re_gov = g,
          re_a = send_to sh aSock, re_b = send_to sh bSock\<rparr>)"

text \<open>\<open>None\<close> is the exit with code 2 when the state file cannot be loaded.\<close>

definition coordinator_resume ::
    "Clock \<Rightarrow> bool \<Rightarrow> string \<Rightarrow> Disk \<Rightarrow> Sock option \<Rightarrow> Sock option \<Rightarrow> int \<Rightarrow> int \<Rightarrow> Resumption option" where
  "coordinator_resume clock readable path d conn1 conn2 t1 t2 =
     map_option (resume_with conn1 conn2 t1 t2) (resume_load clock readable path d)"

subsection \<open>What loading and reporting leave alone\<close>

lemma load_flags_frame:
  "g_cfg (snd (load_flags r g)) = g_cfg g" "g_shutting_down (snd (load_flags r g)) = g_shutting_down g"
  by (simp_all add: load_flags_def flag_all_def split_beta Let_def)

lemma load_outcomes_frame:
  "g_cfg (snd (load_outcomes r g)) = g_cfg g" "g_shutting_down (snd (load_outcomes r g)) = g_shutting_down g"
  by (simp_all add: load_outcomes_def split_beta Let_def load_flags_frame)

lemma load_interventions_frame:
  "g_cfg (snd (load_interventions r g)) = g_cfg g" "g_shutting_down (snd (load_interventions r g)) = g_shutting_down g"
  by (simp_all add: load_interventions_def split_beta Let_def load_outcomes_frame)

lemma load_body_frame:
  "g_cfg (snd (load_body body g)) = g_cfg g" "g_shutting_down (snd (load_body body g)) = g_shutting_down g"
  by (simp_all add: load_body_def flag_all_def split_beta Let_def load_interventions_frame)

lemma load_frame [frame]:
  "g_cfg (snd (load readable path d g)) = g_cfg g"
  "g_shutting_down (snd (load readable path d g)) = g_shutting_down g"
proof -
  have "g_cfg (snd (load_file bs g)) = g_cfg g \<and> g_shutting_down (snd (load_file bs g)) = g_shutting_down g" for bs
    by (cases rule: load_file_cases [of bs g]) (auto simp: load_body_frame)
  then show "g_cfg (snd (load readable path d g)) = g_cfg g"
    "g_shutting_down (snd (load readable path d g)) = g_shutting_down g"
    by (simp_all add: load_def split: option.split)
qed

lemma load_authority: "is_ok (fst (load readable path d g)) \<Longrightarrow> without_authority (snd (load readable path d g))"
  by (auto simp: load_def load_file_authority is_ok_def status_def split: option.splits if_splits)

definition same_frame_for_reports :: "Impl \<Rightarrow> Impl \<Rightarrow> bool" where
  "same_frame_for_reports g h \<longleftrightarrow> g_cfg h = g_cfg g \<and> g_pol h = g_pol g \<and> g_interventions h = g_interventions g \<and>
     g_shutting_down h = g_shutting_down g"

lemma reports_frame_trans [trans]:
  "same_frame_for_reports g h \<Longrightarrow> same_frame_for_reports h k \<Longrightarrow> same_frame_for_reports g k"
  by (simp add: same_frame_for_reports_def)

lemma ingest_same_frame: "same_frame_for_reports g (snd (ingest r g))"
proof -
  have "same_frame_for_reports g (foldl (ingest_objective cls s) g objs)" for cls s objs
    using ingest_objectives_eq [of cls s g objs] by (auto simp: same_frame_for_reports_def)
  then show ?thesis by (cases rule: ingest_cases [of r g]) (auto simp: same_frame_for_reports_def)
qed

lemma ingest_all_same_frame: "same_frame_for_reports g (ingest_all rs g)"
proof (induction rs arbitrary: g)
  case (Cons r rs)
  from reports_frame_trans [OF ingest_same_frame Cons.IH] show ?case by simp
qed (simp add: same_frame_for_reports_def)

text \<open>Asking for reports does nothing to the governor but ingest some evidence.\<close>

lemma receive_reports_ingests: "\<exists>rs. snd (snd (receive_reports n x s g)) = ingest_all rs g"
proof (induction n arbitrary: x s g)
  case (Suc n)
  obtain got s' where s': "recv_msg s = (got, s')" by fastforce
  show ?case
  proof (cases "\<exists>body lr. got = Some body \<and> msg_type body = Msg_code LATENCY \<and> deserialize_latency body = Some lr")
    case True
    then obtain body lr where b: "got = Some body" "msg_type body = Msg_code LATENCY" "deserialize_latency body = Some lr"
      by blast
    then have "receive_reports (Suc n) x s g = receive_reports n (x + 1) s' (snd (ingest lr g))" by (simp add: s')
    moreover obtain rs where "snd (snd (receive_reports n (x + 1) s' (snd (ingest lr g)))) = ingest_all rs (snd (ingest lr g))"
      using Suc by blast
    ultimately show ?thesis by (intro exI [of _ "lr # rs"]) simp
  next
    case False
    then have "snd (snd (receive_reports (Suc n) x s g)) = g" by (auto simp: s' split: option.split)
    then show ?thesis by (intro exI [of _ "[]"]) simp
  qed
qed (auto intro: exI [of _ "[]"])

lemma report_from_ingests: "\<exists>rs. snd (snd (report_from t conn g)) = ingest_all rs g"
proof (cases conn)
  case (Some s)
  obtain ok s' where "send_msg (report_request 200 t 2000000 2000000) s = (ok, s')" by fastforce
  then show ?thesis
    using receive_reports_ingests [of "unat (200 :: u64)" 0 s' g]
    by (cases ok) (auto simp: Some report_from_def req_report_def split_beta intro: exI [of _ "[]"])
qed (auto simp: report_from_def intro: exI [of _ "[]"])

lemma report_from_same_frame: "same_frame_for_reports g (snd (snd (report_from t conn g)))"
  using report_from_ingests [of t conn g] ingest_all_same_frame by force

lemma evaluate_same_frame: "same_frame_for_reports g (snd (evaluate i g))"
  by (simp add: same_frame_for_reports_def frame)

lemma register_hello_same_frame: "same_frame_for_reports g (register_hello conn g)"
  by (auto simp: register_hello_def register_worker_def same_frame_for_reports_def split: option.split)

lemma resume_load_state:
  assumes "resume_load clock readable path d = Some g"
  shows "gc_epoch (g_cfg g) = Id 2" and "\<not> g_shutting_down g" and "without_authority g"
proof -
  let ?r = "load readable path d (governor_new (coordinator_config clock))"
  have ok: "is_ok (fst ?r)" and g: "g = advance_epoch (snd ?r)"
    using assms by (auto simp: resume_load_def split: prod.splits if_splits)
  show "gc_epoch (g_cfg g) = Id 2"
    by (simp add: g advance_epoch_def Let_def frame governor_new_def coordinator_config_def)
  show "\<not> g_shutting_down g" by (simp add: g advance_epoch_def Let_def frame governor_new_def)
  have "om_find (flag_revalidation objs m) i = Some True \<longleftrightarrow> i \<in> o_id ` set objs \<or> om_find m i = Some True" for objs m i
    unfolding flag_revalidation_def by (induction objs arbitrary: m) auto
  then show "without_authority g"
    using load_authority [OF ok] by (auto simp: without_authority_def g advance_epoch_def Let_def flagged_def)
qed

lemma without_authority_revalidates:
  assumes "without_authority g" and "\<not> g_shutting_down g" and "find_objective i g = Some obj" and "o_enabled obj"
  shows "fst (evaluate i g) = Inr (evaluation_of obj g)" and "ev_state (evaluation_of obj g) = REVALIDATION_REQUIRED"
proof -
  show "fst (evaluate i g) = Inr (evaluation_of obj g)" using assms(2-4) by (cases rule: evaluate_cases [of g i]) simp_all
  have "obj \<in> set (po_objectives (g_pol g))" using assms(3) by (auto simp: find_objective_def find_Some_iff)
  then show "ev_state (evaluation_of obj g) = REVALIDATION_REQUIRED"
    using assms(1) by (simp add: without_authority_def new_state_value)
qed

lemma undispatchable_without_authority:
  assumes "\<And>i v. om_find (g_interventions g) i = Some v \<Longrightarrow> inv_authority v = authority_default"
  shows "fst (dispatch i g) \<noteq> Inr w"
  using assms by (auto simp: dispatch_iff dispatchable_def current_authority_def authority_default_def dest!: assms)

text \<open>What a second incarnation does to a governor without authority, whoever connects.\<close>

lemma resume_with_fences:
  assumes "without_authority g" and "\<not> g_shutting_down g" and "gc_epoch (g_cfg g) = Id 2"
    and r_def: "r = resume_with conn1 conn2 t1 t2 g"
  shows "re_stale_rejected r" and "re_revalidation r \<longleftrightarrow> active_objective (Id 1) g \<noteq> None"
    and "same_frame_for_reports g (re_gov r)"
proof -
  define a b where "a = named name_A (accept_one conn1) (accept_one conn2)" and "b = named name_B (accept_one conn1) (accept_one conn2)"
  define g1 where "g1 = register_hello b (register_hello a g)"
  have same1: "same_frame_for_reports g g1"
    using reports_frame_trans [OF register_hello_same_frame register_hello_same_frame] by (simp add: g1_def)
  have "g_revalidate_needed g1 = g_revalidate_needed g"
    by (simp add: g1_def register_hello_def register_worker_def split: option.split)
  then have g1: "without_authority g1" "\<not> g_shutting_down g1" "gc_epoch (g_cfg g1) = Id 2" "g_pol g1 = g_pol g"
    using assms(1-3) same1 by (simp_all add: without_authority_def same_frame_for_reports_def flagged_def)
  define g2 where "g2 = snd (evaluate (Id 1) g1)"
  define stale where "stale = (mk_stale (Id 200) (Id 1))\<lparr>rl_epoch := Id 1\<rparr>"
  have g2: "same_frame_for_reports g1 g2" by (simp add: g2_def evaluate_same_frame)
  then have "\<not> g_shutting_down g2" "gc_epoch (g_cfg g2) = Id 2" using g1 by (simp_all add: same_frame_for_reports_def)
  then have st: "ingest stale g2 = (status StatusCode.STALE_AUTHORITY ''evidence epoch is not current'', g2)"
    by (simp add: ingest_split stale_def)
  note unfolded = r_def resume_with_def Let_def split_beta a_def [symmetric] b_def [symmetric] g1_def [symmetric]
    g2_def [symmetric] stale_def [symmetric] st
  have final: "same_frame_for_reports g2 (re_gov r)"
    using reports_frame_trans [OF report_from_same_frame reports_frame_trans [OF report_from_same_frame evaluate_same_frame]]
    by (simp add: unfolded)
  then show "same_frame_for_reports g (re_gov r)" using same1 g2 reports_frame_trans by blast
  have rev: "re_revalidation r \<longleftrightarrow>
      (case fst (evaluate (Id 1) g1) of Inr ev \<Rightarrow> ev_state ev = REVALIDATION_REQUIRED | Inl _ \<Rightarrow> False)"
    and "re_stale_rejected r"
    by (simp_all add: unfolded status_def)
  then show "re_stale_rejected r" by simp
  have "re_revalidation r \<longleftrightarrow> active_objective (Id 1) g1 \<noteq> None"
    using without_authority_revalidates [OF g1(1,2), of "Id 1"] g1(2)
    by (cases rule: evaluate_cases [of g1 "Id 1"]) (simp_all add: rev active_objective_def err_def)
  then show "re_revalidation r \<longleftrightarrow> active_objective (Id 1) g \<noteq> None"
    using g1(2,4) assms(2) by (simp add: active_objective_def find_objective_def)
qed

subsection \<open>Properties\<close>

text \<open>C12: Whatever the state file holds and whoever connects, a coordinator that resumes runs in epoch 2,
  refuses the old-epoch evidence it is probed with, reports \<open>REVALIDATION_REQUIRED\<close> for objective 1 exactly
  when that objective exists and is enabled, and can dispatch no intervention from before the restart.\<close>

theorem resume_fences_the_past:
  assumes "coordinator_resume clock readable path d conn1 conn2 t1 t2 = Some r"
  shows "gc_epoch (g_cfg (re_gov r)) = Id 2 \<and> re_stale_rejected r \<and>
     (re_revalidation r \<longleftrightarrow> active_objective (Id 1) (re_gov r) \<noteq> None) \<and>
     fst (dispatch i (re_gov r)) \<noteq> Inr v"
proof -
  obtain g where g: "resume_load clock readable path d = Some g" and r: "r = resume_with conn1 conn2 t1 t2 g"
    using assms by (auto simp: coordinator_resume_def)
  note g0 = resume_load_state [OF g]
  note fenced = resume_with_fences [OF g0(3,2,1) r]
  have "fst (dispatch i (re_gov r)) \<noteq> Inr v"
    using fenced(3) g0(3) by (intro undispatchable_without_authority) (simp add: same_frame_for_reports_def without_authority_def)
  then show ?thesis
    using fenced g0(1) by (simp add: same_frame_for_reports_def active_objective_def find_objective_def)
qed

lemma resume_fences_the_past_witness:
  "\<exists>r. coordinator_resume demo_clock True ''state'' (demo_disk(''state'' \<mapsto> state_file (save_body demo_authorized)))
       None None 0 0 = Some r \<and> gc_epoch (g_cfg (re_gov r)) = Id 2 \<and> re_stale_rejected r"
proof -
  let ?d = "demo_disk(''state'' \<mapsto> state_file (save_body demo_authorized))" and ?h = "governor_new (coordinator_config demo_clock)"
  have len: "int (length (state_file (save_body demo_authorized))) \<le> kMaxPersistBytes"
    using length_save_body [OF demo_persistable] by (simp add: kMaxPersistBytes_def)
  have "load True ''state'' ?d ?h = (status_ok, restored demo_authorized ?h)"
    using load_file_state_file [OF len, of ?h] load_save_body [OF demo_persistable, of ?h] by (simp add: load_def)
  then obtain r where r: "coordinator_resume demo_clock True ''state'' ?d None None 0 0 = Some r"
    by (simp add: coordinator_resume_def resume_load_def is_ok_def status_ok_def)
  from resume_fences_the_past [OF r] r show ?thesis by blast
qed

lemma scenario_c_passes: "scenario_c clock"
proof -
  let ?g = "make_gov clock"
  have g0: "\<not> g_shutting_down ?g" "find_objective (Id 1) ?g = Some coordinator_objective" "o_enabled coordinator_objective"
    "g_last_intervention_ns ?g = om_empty" "g_facts ?g = resource_facts_default"
    "po_id (g_pol ?g) = Id 1" "po_generation (g_pol ?g) = Id 1" "po_objectives (g_pol ?g) = [coordinator_objective]"
    by (simp_all add: make_gov_def register_worker_def set_policy_def governor_new_def coordinator_objective_def
        find_objective_def Let_def)
  let ?ev = "evaluation_of coordinator_objective ?g"
  define g1 where "g1 = snd (evaluate (Id 1) ?g)"
  have ev: "evaluate (Id 1) ?g = (Inr ?ev, g1)"
    using g0 by (cases rule: evaluate_cases [of ?g "Id 1"]) (simp_all add: g1_def)
  have auth: "ev_authority (base_evaluation coordinator_objective ?g) = current_authority coordinator_objective g1"
    by (simp add: base_evaluation_def measured_def Let_def split_beta current_authority_def g1_def frame)
  define proposed where "proposed = intervention_default\<lparr>inv_type := QUEUE_SHAPE, inv_objective := Id 1,
      inv_objective_generation := Id 1, inv_authority := ev_authority ?ev, inv_status := PROPOSED\<rparr>"
  have obj1: "find_objective (Id 1) g1 = Some coordinator_objective" using g0(2) by (simp add: g1_def find_objective_def frame)
  have frames: "\<not> g_shutting_down g1" "g_last_intervention_ns g1 = om_empty" "g_pol g1 = g_pol ?g"
    using g0 by (simp_all add: g1_def frame)
  have can: "authorizable proposed g1"
    unfolding authorizable_def
    by (simp add: proposed_def obj1 auth frames g0(3) infeasibility_of_def cooling_def)
  show ?thesis
  proof (cases rule: authorize_cases [of proposed g1])
    case (authorized out)
    define g2 where "g2 = snd (authorize proposed g1)"
    obtain gen t n t' where out: "out = proposed\<lparr>inv_status := AUTHORIZED, inv_id := fresh_id proposed g1,
        inv_generation := gen, inv_proposed_at_ns := t\<rparr>" and
      g2: "g2 = g1\<lparr>g_next_int_id := (if inv_id proposed = Id 0 then g_next_int_id g1 + 1 else g_next_int_id g1),
         g_reads := n, g_interventions := om_put (fresh_id proposed g1) out (g_interventions g1),
         g_last_intervention_ns := om_put (inv_objective proposed) t' (g_last_intervention_ns g1)\<rparr>"
      using authorized(3,4) unfolding g2_def by blast
    have a: "authorize proposed g1 = (Inr out, g2)" using authorized(2) by (metis prod.collapse g2_def)
    have pol: "g_pol g2 = g_pol g1" by (subst g2) simp
    define g3 where "g3 = set_policy ((policy g2)\<lparr>po_generation := Id 2\<rparr>) g2"
    have "find_objective (Id 1) g3 = Some coordinator_objective"
      using obj1 by (simp add: g3_def set_policy_def policy_def find_objective_def pol)
    moreover have "om_find (g_interventions g3) (inv_id out) = Some out" "\<not> g_shutting_down g3"
      by (simp_all add: g3_def set_policy_def g2 out frames)
    moreover have "\<not> same (inv_authority out) (current_authority coordinator_objective g3)"
      using g0(7) by (simp add: g3_def same_iff_eq out proposed_def auth current_authority_def set_policy_def policy_def frames pol
          authority_default_def)
    moreover have "inv_status out = AUTHORIZED" "inv_objective out = Id 1" by (simp_all add: out proposed_def)
    ultimately have d: "fst (dispatch (inv_id out) g3) = err StatusCode.STALE_AUTHORITY ''intervention superseded by authority change''"
      using g0(3) by (simp add: dispatch_def)
    show ?thesis
      unfolding scenario_c_def ev prod.case sum.case Let_def proposed_def [symmetric] a g3_def [symmetric] d err_def
      by (simp add: status_def)
  qed (use can in simp)
qed

lemma scenario_b_passes:
  assumes "\<not> g_shutting_down g" and "gc_epoch (g_cfg g) = Id 1" and "gc_service_generation (g_cfg g) = Id 1"
    and "gc_workload_generation (g_cfg g) = Id 1" and "om_find (g_seen g) (Id 111100) = None"
  shows "fst (scenario_b g)"
proof -
  let ?h = "snd (register_worker (Id 100) (Id 2) g)"
  have h: "?h = g\<lparr>g_worker_boots := om_put (Id 100) (Id 2) (g_worker_boots g)\<rparr>"
    using assms(1) by (simp add: register_worker_def)
  have "ingest (mk_stale (Id 100) (Id 1)) ?h = (status StatusCode.STALE_AUTHORITY ''evidence source worker boot is stale'', ?h)"
    using assms by (simp add: ingest_split h mk_stale_def)
  moreover have "acceptable (mk_stale (Id 100) (Id 2)) ?h"
    using assms by (simp add: acceptable_def h mk_stale_def total_of_def request_latency_default_def)
  then have "code (fst (ingest (mk_stale (Id 100) (Id 2)) ?h)) = OK"
    by (cases rule: ingest_cases [of "mk_stale (Id 100) (Id 2)" ?h]) (simp_all add: status_ok_def)
  ultimately show ?thesis
    by (simp add: scenario_b_def Let_def split_beta status_def)
qed

text \<open>The scenarios in which authority changes hold by construction. Whatever the clock shows, an
  intervention authorised under the first generation of the policy is refused as stale under the second.
  And a coordinator still in its first epoch that has not yet seen the probing identity refuses the
  killed worker's boot, unchanged, and accepts its successor's.\<close>

theorem authority_scenarios_pass:
  assumes "\<not> g_shutting_down g" and "gc_epoch (g_cfg g) = Id 1" and "gc_service_generation (g_cfg g) = Id 1"
    and "gc_workload_generation (g_cfg g) = Id 1" and "om_find (g_seen g) (Id 111100) = None"
  shows "scenario_c clock \<and> fst (scenario_b g)"
  using scenario_c_passes scenario_b_passes [OF assms] by blast

lemma authority_scenarios_pass_witness:
  "scenario_c (\<lambda>n. 5) \<and> fst (scenario_b (make_gov (\<lambda>n. 5)))"
proof -
  let ?g = "make_gov (\<lambda>n. 5)"
  have g: "g_cfg ?g = coordinator_config (\<lambda>n. 5)" "g_seen ?g = om_empty" "\<not> g_shutting_down ?g"
    by (simp_all add: make_gov_def register_worker_def set_policy_def governor_new_def Let_def)
  show ?thesis
    by (rule authority_scenarios_pass) (simp_all add: g coordinator_config_def)
qed

end
