(* ===== verification/Restart.thy ===== *)
theory Restart
  imports Coordinator
begin

text \<open>
  The restart of the coordinator from end to end: the first incarnation (\<open>run_coordinator\<close> of
  tailgov_d.cpp) with the results it records and the state file it leaves, the second incarnation that
  reads it, and the exit code that the driver reports. Processes, sockets and clocks are parameters.
\<close>

subsection \<open>The first incarnation\<close>

text \<open>What the operating system gives it: clocks, whether the workers were created, the accepted
  connections, the readings of \<open>now_ns\<close>, the second worker A (process id and connection), and how the
  file operations of \<open>save\<close> end.\<close>

record FirstInputs =
  fi_clock :: Clock
  fi_clock_c :: Clock
  fi_clock_e :: Clock
  fi_spawned :: bool
  fi_a :: "Sock option"
  fi_b :: "Sock option"
  fi_t1 :: int
  fi_t2 :: int
  fi_t3 :: int
  fi_base_e :: int
  fi_again :: "(u64 \<times> Sock option) option"
  fi_opened :: bool
  fi_written :: "byte list option"

definition greets :: "byte list \<Rightarrow> Sock option \<Rightarrow> bool \<times> Sock option" where
  "greets name conn = (case conn of None \<Rightarrow> (False, None)
     | Some s \<Rightarrow> (case read_hello s of (None, s) \<Rightarrow> (False, Some s) | (Some h, s) \<Rightarrow> (h_name h = name, Some s)))"

definition register_if :: "bool \<Rightarrow> WorkerId \<Rightarrow> Impl \<Rightarrow> Impl" where
  "register_if ok i g = (if ok then snd (register_worker i (Id 1) g) else g)"

definition queue_tail :: "FirstInputs \<Rightarrow> Sock option \<Rightarrow> Sock option \<Rightarrow> Impl \<Rightarrow> bool \<times> Impl" where
  "queue_tail i a b g = (case (a, b) of
     (Some a, Some b) \<Rightarrow> (case scenario_a (fi_t1 i) (fi_t2 i) (fi_t3 i) a b g of (ok, _, _, g) \<Rightarrow> (ok, g))
   | _ \<Rightarrow> (False, g))"

definition fresh_boot :: "(u64 \<times> Sock option) option \<Rightarrow> Impl \<Rightarrow> bool \<times> Impl" where
  "fresh_boot again g =
     (case again of None \<Rightarrow> (False, g)
      | Some (pid, conn) \<Rightarrow>
          if fst (greets name_A conn)
          then let g = snd (register_worker (Id 100) (Id 2) g);
                   (s, g) = ingest ((mk_stale (Id 100) (Id 2))\<lparr>rl_request_id := Id (999999 + pid)\<rparr>) g
               in (is_ok s, g)
          else (False, g))"

text \<open>The recorded results, the disk and the governor at its end.\<close>

definition run_coordinator :: "FirstInputs \<Rightarrow> string \<Rightarrow> Disk \<Rightarrow> (string \<times> bool) list \<times> Disk \<times> Impl" where
  "run_coordinator i path d =
     (let g = make_gov (fi_clock i);
          (ha, a) = greets name_A (fi_a i); (hb, b) = greets name_B (fi_b i);
          g = register_if ha (Id 100) g; g = register_if hb (Id 200) g;
          (pass_a, g) = (if ha \<and> hb then queue_tail i a b g else (False, g));
          (pass_b, g) = (if ha then scenario_b g else (False, g));
          (fresh, g) = fresh_boot (fi_again i) g;
          (s, d) = save (fi_opened i) (fi_written i) path g d
      in ([(''SCENARIO_SPAWN_WORKERS'', fi_spawned i),
           (''SCENARIO_ACCEPT_WORKERS'', fi_a i \<noteq> None \<and> fi_b i \<noteq> None),
           (''SCENARIO_WORKER_HELLO'', ha \<and> hb),
           (''SCENARIO_A_QUEUE_TAIL'', pass_a),
           (''SCENARIO_B_WORKER_KILL'', pass_b),
           (''SCENARIO_B_FRESH_BOOT'', fresh),
           (''SCENARIO_C_STALE_INTERVENTION'', scenario_c (fi_clock_c i)),
           (''SCENARIO_E_CONFLICTING_ACTION'', scenario_e (fi_clock_e i) (fi_base_e i)),
           (''SCENARIO_D_PERSIST_STATE'', is_ok s)], d, g))"

subsection \<open>The result file and the driver\<close>

definition outcome_line :: "string \<times> bool \<Rightarrow> string" where
  "outcome_line res = fst res @ '': '' @ (if snd res then ''PASS'' else ''FAIL'')"

definition contains :: "string \<Rightarrow> string \<Rightarrow> bool" where
  "contains needle s \<longleftrightarrow> list_ex (\<lambda>n. take (length needle) (drop n s) = needle) [0..<Suc (length s)]"

text \<open>\<open>partial\<close>: the lines of the file of the first incarnation, when it can be read.\<close>

definition final_lines :: "string list option \<Rightarrow> Resumption \<Rightarrow> string list" where
  "final_lines partial r =
     (case partial of Some ls \<Rightarrow> ls | None \<Rightarrow> []) @ [outcome_line (''SCENARIO_D_COORDINATOR_RESTART'', d_pass r)]"

definition exit_code :: "string list \<Rightarrow> int" where
  "exit_code ls = (if list_ex (contains '': FAIL'') ls then 1 else 0)"

text \<open>The second incarnation: its clock, whether its socket could be set up, the accepted connections and
  the readings of \<open>now_ns\<close>.\<close>

record SecondInputs =
  si_clock :: Clock
  si_readable :: bool
  si_listening :: bool
  si_conn1 :: "Sock option"
  si_conn2 :: "Sock option"
  si_t1 :: int
  si_t2 :: int

definition resumption :: "SecondInputs \<Rightarrow> string \<Rightarrow> Disk \<Rightarrow> Resumption option" where
  "resumption j path d =
     coordinator_resume (si_clock j) (si_readable j) path d (si_conn1 j) (si_conn2 j) (si_t1 j) (si_t2 j)"

definition run_coordinator_resume :: "SecondInputs \<Rightarrow> string list option \<Rightarrow> string \<Rightarrow> Disk \<Rightarrow> int" where
  "run_coordinator_resume j partial path d =
     (case resumption j path d of
        None \<Rightarrow> 2
      | Some r \<Rightarrow> if \<not> si_listening j then 2 else exit_code (final_lines partial r))"

text \<open>\<open>first\<close> is \<open>None\<close> when the first incarnation stopped before it wrote anything. Its exit code is not
  looked at: the second incarnation then works with the files that an earlier run left behind.\<close>

definition run_driver ::
    "bool \<Rightarrow> bool \<Rightarrow> bool \<Rightarrow> FirstInputs option \<Rightarrow> SecondInputs \<Rightarrow> string list option \<Rightarrow> string \<Rightarrow> Disk \<Rightarrow> int" where
  "run_driver port_found spawned1 spawned2 first j earlier path d =
     (if \<not> port_found then 2 else if \<not> spawned1 then 2
      else let (partial, d) = (case first of None \<Rightarrow> (earlier, d)
                 | Some i \<Rightarrow> (case run_coordinator i path d of (rs, d, _) \<Rightarrow> (Some (map outcome_line rs), d)))
           in if \<not> spawned2 then 2 else run_coordinator_resume j partial path d)"

text \<open>The command line, without the program's name.\<close>

datatype Command =
    RunWorker string string string string
  | RunResume string string string string
  | RunCoordinator string string string
  | RunDriver string string
  | Usage

definition command_of :: "string list \<Rightarrow> Command" where
  "command_of args = (case args of
     [] \<Rightarrow> Usage
   | cmd # rest \<Rightarrow>
       if length rest \<ge> 4 \<and> cmd = ''worker'' then RunWorker (rest ! 0) (rest ! 1) (rest ! 2) (rest ! 3)
       else if length rest \<ge> 4 \<and> cmd = ''coordinator-resume'' then RunResume (rest ! 0) (rest ! 1) (rest ! 2) (rest ! 3)
       else if length rest \<ge> 3 \<and> cmd = ''coordinator'' then RunCoordinator (rest ! 0) (rest ! 1) (rest ! 2)
       else if length rest \<ge> 1 \<and> cmd = ''driver''
       then RunDriver (rest ! 0) (if length rest \<ge> 2 then rest ! 1 else ''dist_result.txt'')
       else Usage)"

subsection \<open>What the first incarnation leaves of its governor\<close>

text \<open>A property that evidence, evaluations of the coordinator's objective and registrations keep lasts
  through the scenarios.\<close>

locale kept_by_reports =
  fixes I :: "Impl \<Rightarrow> bool"
  assumes keeps_ingest: "I g \<Longrightarrow> I (snd (ingest r g))"
    and keeps_evaluate: "I g \<Longrightarrow> I (snd (evaluate (Id 1) g))"
    and keeps_register: "I g \<Longrightarrow> I (snd (register_worker i boot g))"
begin

lemma receive_keeps: "I g \<Longrightarrow> I (snd (snd (receive_reports n x s g)))"
  by (induction n arbitrary: x s g) (auto split: prod.split option.split simp: keeps_ingest)

lemma req_report_keeps: "I g \<Longrightarrow> I (snd (snd (req_report n t q e s g)))"
  by (simp add: req_report_def receive_keeps split: prod.split bool.split)

lemma scenario_a_keeps: "I g \<Longrightarrow> I (snd (snd (snd (scenario_a t1 t2 t3 a b g))))"
proof -
  assume "I g"
  obtain n1 a' g1 where r1: "req_report 200 t1 0 2000000 a g = (n1, a', g1)" by (cases "req_report 200 t1 0 2000000 a g")
  obtain n2 b' g2 where r2: "req_report 200 t2 12000000 1000000 b g1 = (n2, b', g2)"
    by (cases "req_report 200 t2 12000000 1000000 b g1")
  obtain e g3 where e: "evaluate (Id 1) g2 = (e, g3)" by fastforce
  obtain ok b'' where sent: "send_intervention QUEUE_SHAPE b' = (ok, b'')" by fastforce
  obtain n3 c g4 where r3: "req_report 200 t3 1000000 1000000 b'' g3 = (n3, c, g4)"
    by (cases "req_report 200 t3 1000000 1000000 b'' g3")
  obtain f g5 where f: "evaluate (Id 1) g4 = (f, g5)" by fastforce
  have "I g1" using req_report_keeps [OF \<open>I g\<close>] r1 by (metis snd_conv)
  then have "I g2" using req_report_keeps r2 by (metis snd_conv)
  then have g3: "I g3" using keeps_evaluate e by (metis snd_conv)
  then have "I g4" using req_report_keeps r3 by (metis snd_conv)
  then have g5: "I g5" using keeps_evaluate f by (metis snd_conv)
  show ?thesis
    unfolding scenario_a_def Let_def r1 r2 e sent prod.case r3 f
    by (simp add: g3 g5 split: sum.split bool.split)
qed

lemma scenario_b_keeps: "I g \<Longrightarrow> I (snd (scenario_b g))"
  by (simp add: scenario_b_def Let_def split_beta keeps_ingest keeps_register)

lemma queue_tail_keeps: "I g \<Longrightarrow> I (snd (queue_tail i a b g))"
  using scenario_a_keeps by (simp add: queue_tail_def split_beta split: option.split)

lemma fresh_boot_keeps: "I g \<Longrightarrow> I (snd (fresh_boot again g))"
  by (auto simp: fresh_boot_def Let_def split_beta keeps_ingest keeps_register split: option.split)

lemma run_coordinator_keeps:
  assumes "I (make_gov (fi_clock i))"
  shows "I (snd (snd (run_coordinator i path d)))"
  using assms
  by (simp add: run_coordinator_def Let_def split_beta fresh_boot_keeps queue_tail_keeps scenario_b_keeps
      register_if_def keeps_register)

end

definition coordinator_policy :: TailPolicy where
  "coordinator_policy = tail_policy_default\<lparr>po_id := Id 1, po_generation := Id 1,
     po_name := ''distributed policy'', po_objectives := [coordinator_objective]\<rparr>"

text \<open>Nothing was authorised yet, and the coordinator's objective is the only one that is tracked.\<close>

definition early :: "Impl \<Rightarrow> bool" where
  "early g \<longleftrightarrow> g_pol g = coordinator_policy \<and> g_interventions g = om_empty \<and> g_outcomes g = om_empty \<and>
     om_inv (g_revalidate_needed g) \<and> set (map fst (g_revalidate_needed g)) \<subseteq> {Id 1}"

lemma early_objective:
  assumes "early g"
  shows "po_objectives (g_pol g) = [coordinator_objective]" and "o_id coordinator_objective = Id 1"
  using assms by (simp_all add: early_def coordinator_policy_def coordinator_objective_def)

interpretation early: kept_by_reports early
proof unfold_locales
  fix g r i boot
  assume e: "early g"
  note objs = early_objective [OF e]
  show "early (snd (ingest r g))"
  proof (cases rule: ingest_cases [of r g])
    case (accepted tot)
    obtain W where "foldl (ingest_objective (rl_request_class r) (make_sample r tot)) g [coordinator_objective] =
        g\<lparr>g_windows := W, g_revalidate_needed := foldl (\<lambda>m obj. if o_enabled obj then om_put (o_id obj) False m else m)
          (g_revalidate_needed g) [coordinator_objective]\<rparr>"
      using ingest_objectives_eq by blast
    then show ?thesis
      using e objs accepted(4) set_om_put [of "Id 1" False "g_revalidate_needed g"] by (simp add: early_def)
  qed (simp add: e)
  show "early (snd (register_worker i boot g))" using e by (simp add: early_def register_worker_def)
  show "early (snd (evaluate (Id 1) g))"
  proof (cases rule: evaluate_cases [of g "Id 1"])
    case (evaluated obj)
    then have "obj = coordinator_objective" using objs by (auto simp: find_objective_def split: if_splits)
    then have "g_revalidate_needed (snd (evaluate (Id 1) g)) = snd (om_index False (g_revalidate_needed g) (Id 1))"
      using evaluate_enabled_value [of obj g] objs by (auto simp: evaluated(4))
    moreover have "set (map fst (snd (om_index False (g_revalidate_needed g) (Id 1)))) \<subseteq> {Id 1}"
      using e set_om_put [of "Id 1" False "g_revalidate_needed g"] by (auto simp: early_def om_index_def split: option.split)
    ultimately show ?thesis using e by (simp add: early_def frame)
  qed (simp_all add: e)
qed

lemma make_gov_early: "early (make_gov clock)"
  by (simp add: early_def make_gov_def register_worker_def set_policy_def governor_new_def coordinator_policy_def Let_def om_empty_def om_inv_def)

lemma early_persistable:
  assumes "early g"
  shows "persistable g"
proof -
  let ?ids = "map fst (g_revalidate_needed g)"
  have "distinct ?ids" using assms by (simp add: early_def om_inv_def strict_sorted_iff)
  then have "length ?ids = card (set ?ids)" by (simp only: distinct_card)
  also have "\<dots> \<le> card {Id 1 :: TailObjectiveId}" using assms by (intro card_mono) (simp_all add: early_def)
  finally have "length (g_revalidate_needed g) \<le> 1" by simp
  moreover have "objective_fits coordinator_objective"
    by (simp add: objective_fits_def coordinator_objective_def tail_objective_default_def window_config_default_def
        in_i64_def i64_min_def i64_max_def is_u32_def in_i32_def)
  ultimately show ?thesis
    using assms early_objective [OF assms] by (simp add: persistable_def early_def om_empty_def om_inv_def)
qed

text \<open>So a second incarnation always finds a state it can load.\<close>

lemma resume_after_save:
  assumes "early g"
  obtains h where "resume_load clock True path (snd (save True None path g d)) = Some h"
    and "active_objective (Id 1) h \<noteq> None"
proof
  let ?h = "restored g (governor_new (coordinator_config clock))"
  show "resume_load clock True path (snd (save True None path g d)) = Some (advance_epoch ?h)"
    by (simp add: resume_load_def load_saved [OF early_persistable [OF assms]] is_ok_def status_ok_def)
  have "g_pol (advance_epoch ?h) = (g_pol g)\<lparr>po_name := ''''\<rparr>" and "\<not> g_shutting_down (advance_epoch ?h)"
    by (simp_all add: advance_epoch_def Let_def restored_def flag_all_def governor_new_def)
  then show "active_objective (Id 1) (advance_epoch ?h) \<noteq> None"
    using early_objective [OF assms] by (simp add: active_objective_def find_objective_def coordinator_objective_def)
qed

subsection \<open>The result file\<close>

definition recorded_names :: "string list" where
  "recorded_names = [''SCENARIO_SPAWN_WORKERS'', ''SCENARIO_ACCEPT_WORKERS'', ''SCENARIO_WORKER_HELLO'',
     ''SCENARIO_A_QUEUE_TAIL'', ''SCENARIO_B_WORKER_KILL'', ''SCENARIO_B_FRESH_BOOT'',
     ''SCENARIO_C_STALE_INTERVENTION'', ''SCENARIO_E_CONFLICTING_ACTION'', ''SCENARIO_D_PERSIST_STATE'',
     ''SCENARIO_D_COORDINATOR_RESTART'']"

lemma failing_lines:
  "name \<in> set recorded_names \<Longrightarrow> contains '': FAIL'' (outcome_line (name, ok)) \<longleftrightarrow> \<not> ok"
proof -
  have "list_all (\<lambda>n. contains '': FAIL'' (outcome_line (n, False)) \<and> \<not> contains '': FAIL'' (outcome_line (n, True)))
      recorded_names" by code_simp
  then show "name \<in> set recorded_names \<Longrightarrow> ?thesis" by (cases ok) (simp_all add: list_all_iff)
qed

lemma recorded_by_first: "set (map fst (fst (run_coordinator i path d))) \<subseteq> set recorded_names"
  by (simp add: run_coordinator_def recorded_names_def Let_def split_beta)

lemma any_failing:
  "set (map fst rs) \<subseteq> set recorded_names \<Longrightarrow>
     list_ex (contains '': FAIL'') (map outcome_line rs) \<longleftrightarrow> \<not> list_all snd rs"
  by (induction rs) (auto simp: failing_lines)

lemma first_saves:
  assumes "fi_opened i" and "fi_written i = None"
  obtains rs g where "run_coordinator i path d = (rs, snd (save True None path g d), g)" and "early g"
proof -
  let ?r = "run_coordinator i path d"
  have "fst (snd ?r) = snd (save True None path (snd (snd ?r)) d)"
    using assms by (simp add: run_coordinator_def Let_def split_beta)
  moreover have "early (snd (snd ?r))" by (intro early.run_coordinator_keeps make_gov_early)
  ultimately show thesis by (metis that prod.collapse)
qed

subsection \<open>Fresh evidence lifts the revalidation\<close>

lemma flags_cleared:
  "om_find (foldl (\<lambda>m obj. if o_enabled obj then om_put (o_id obj) False m else m) m objs) i =
     (if \<exists>obj \<in> set objs. o_enabled obj \<and> o_id obj = i then Some False else om_find m i)"
  by (induction objs arbitrary: m) auto

lemma ingest_flags:
  "om_find (g_revalidate_needed (snd (ingest r g))) i =
     (if acceptable r g \<and> (\<exists>obj \<in> set (po_objectives (g_pol g)). o_enabled obj \<and> o_id obj = i) then Some False
      else om_find (g_revalidate_needed g) i)"
proof (cases rule: ingest_cases [of r g])
  case (accepted tot)
  then show ?thesis
    using ingest_objectives_eq [of "rl_request_class r" "make_sample r tot" g "po_objectives (g_pol g)"]
    by (auto simp: flags_cleared)
qed simp

lemma ingest_all_keeps_clear: "\<not> flagged g i \<Longrightarrow> \<not> flagged (ingest_all rs g) i"
  by (induction rs arbitrary: g) (simp_all add: flagged_def ingest_flags)

lemma find_enabled:
  "find_objective i g = Some obj \<Longrightarrow> o_enabled obj \<Longrightarrow> \<exists>obj \<in> set (po_objectives (g_pol g)). o_enabled obj \<and> o_id obj = i"
  using find_objective_id [of i g obj] by (auto simp: find_objective_def find_Some_iff)

lemma accepted_evidence_lifts:
  assumes "rs \<noteq> []" and "acceptable (hd rs) g" and "find_objective i g = Some obj" and "o_enabled obj"
  shows "\<not> flagged (ingest_all rs g) i"
proof (cases rs)
  case (Cons r rest)
  have "\<not> flagged (snd (ingest r g)) i" using assms find_enabled [OF assms(3,4)] by (simp add: Cons flagged_def ingest_flags)
  then show ?thesis using ingest_all_keeps_clear by (simp add: Cons)
qed (use assms(1) in simp)

lemma unflagged_evaluation:
  assumes "\<not> flagged g i" and "evaluate i g = (Inr ev, h)"
  shows "ev_state ev \<noteq> REVALIDATION_REQUIRED"
proof (cases rule: evaluate_cases [of g i])
  case (evaluated obj)
  then have "o_id obj = i" and ev: "ev = evaluation_of obj g" using assms(2) find_objective_id by auto
  moreover have "fst (classify prev streak target rec v) \<noteq> REVALIDATION_REQUIRED" for prev streak target rec v
    by (simp add: classify_def Let_def)
  ultimately show ?thesis
    using assms(1) by (simp add: new_state_value split_beta Let_def)
qed (use assms(2) in simp_all)

text \<open>A connection with room to send and a worker's greeting and reports to come.\<close>

definition returning :: "WorkerState \<Rightarrow> int \<Rightarrow> u64 \<Rightarrow> Sock \<Rightarrow> bool" where
  "returning w t e s \<longleftrightarrow> healthy s \<and> (\<exists>a b c d ks. s_takes s = a # b # c # d # ks \<and> 600000 \<le> min (min a b) (min c d)) \<and>
     incoming s = frame (serialize_hello (wk_name w) (wk_id w) (wk_boot w) e) @
       report_stream (reports t 2000000 2000000 0 200 w)"

text \<open>A worker B that knows the new epoch, and readings of the clock from which its reports do not overflow.\<close>

definition knows_epoch :: "u64 \<Rightarrow> WorkerState \<Rightarrow> int \<Rightarrow> bool" where
  "knows_epoch ep w t \<longleftrightarrow> wk_name w = name_B \<and> wk_id w = Id 200 \<and> wk_epoch w = ep \<and> 0 \<le> wk_counter w \<and>
     wk_counter w + 200 \<le> i64_max \<and> 0 < t \<and> t + 4002000 \<le> i64_max"

lemma returning_hello:
  assumes "returning w t e s" and "length (wk_name w) \<le> 65536"
  obtains s' a b c d ks where
    "read_hello s = (Some \<lparr>h_name = wk_name w, h_wk = wk_id w, h_boot = wk_boot w, h_epoch = e\<rparr>, s')"
    and "incoming s' = report_stream (reports t 2000000 2000000 0 200 w)" and "healthy s'"
    and "s_takes s' = a # b # c # d # ks" and "600000 \<le> a" "600000 \<le> b" "600000 \<le> c" "600000 \<le> d"
proof -
  obtain a b c d ks where takes: "s_takes s = a # b # c # d # ks" "600000 \<le> a" "600000 \<le> b" "600000 \<le> c" "600000 \<le> d"
    using assms(1) by (auto simp: returning_def)
  obtain s' where s': "read_hello s = (Some \<lparr>h_name = wk_name w, h_wk = wk_id w, h_boot = wk_boot w, h_epoch = e\<rparr>, s')"
    "incoming s' = report_stream (reports t 2000000 2000000 0 200 w)" "healthy s'"
    using read_hello_hello [OF assms(2)] assms(1) unfolding returning_def by metis
  have "s_takes s' = s_takes s"
    using s'(1) recv_frame_Some [of s] by (auto simp: read_hello_def split: prod.splits option.splits if_splits)
  then show thesis using that [OF s'] takes by simp
qed

lemma reports_received:
  assumes "incoming c = report_stream rs" and "healthy c" and "list_all (\<lambda>r. latency_fits r \<and> on_wire r = r) rs"
  obtains c' where "receive_reports (length rs) 0 c g = (of_nat (length rs), c', ingest_all rs g)"
proof -
  have "incoming c = take (length (report_stream rs)) (report_stream rs) @ []" using assms(1) by simp
  from receive_reports_stream [OF assms(2) this _ assms(3), of 0 g] obtain k c' where
    k: "receive_reports (length rs) 0 c g = (of_nat k, c', ingest_all (take k rs) g)" "k \<le> length rs"
    "k < length rs \<longrightarrow> length (report_stream rs) < length (report_stream (take (Suc k) rs))" by auto
  have "length (report_stream (take (Suc k) rs)) \<le> length (report_stream rs)"
    using report_stream_append [of "take (Suc k) rs" "drop (Suc k) rs"] by simp
  then have "k = length rs" using k(2,3) by linarith
  then show thesis using that k(1) by simp
qed

lemma reports_fit: "in_i64 qn \<Longrightarrow> in_i64 ex \<Longrightarrow> list_all (\<lambda>r. latency_fits r \<and> on_wire r = r) (reports base qn ex i k w)"
  by (induction k arbitrary: i w) (simp_all add: worker_request_fits)

lemma small_message: "p \<noteq> [] \<Longrightarrow> length p \<le> 100 \<Longrightarrow> int (length p) \<le> kMaxFrame"
  by (simp add: kMaxFrame_def)

text \<open>The reports that a connected worker was asked for are all ingested.\<close>

lemma report_from_worker:
  assumes "incoming s = report_stream (reports t 2000000 2000000 0 200 w)" and "healthy s"
    and "s_takes s = a # b # ks" and "600000 \<le> a" and "600000 \<le> b"
  obtains s' where "report_from t (Some s) g = (200, Some s', ingest_all (reports t 2000000 2000000 0 200 w) g)"
proof -
  let ?q = "report_request 200 t 2000000 2000000" and ?rs = "reports t 2000000 2000000 0 200 w"
  have i64: "in_i64 2000000" by (simp add: in_i64_def i64_min_def i64_max_def)
  have q: "?q \<noteq> []" "int (length ?q) \<le> kMaxFrame"
    by (simp_all add: report_request_def put_u8_def field_length kMaxFrame_def)
  let ?s = "s\<lparr>s_out := s_out s @ frame ?q, s_takes := ks\<rparr>"
  have "incoming ?s = report_stream ?rs" "healthy ?s" using assms(1,2) by (simp_all add: incoming_def healthy_def)
  from reports_received [OF this reports_fit [OF i64 i64]] obtain c' where
    "receive_reports 200 0 ?s g = (of_nat 200, c', ingest_all ?rs g)" by (metis length_reports)
  then show thesis
    using that send_msg_generous [OF assms(3-5) q] by (simp add: report_from_def req_report_def)
qed

lemma reports_lift_the_revalidation:
  assumes "serves g w" and "g_seen g = om_empty" and "find_objective i g = Some obj" and "o_enabled obj"
    and "knows_epoch ep w t"
  obtains ev h where "evaluate i (ingest_all (reports t 2000000 2000000 0 200 w) g) = (Inr ev, h)"
    and "ev_state ev \<noteq> REVALIDATION_REQUIRED"
proof -
  let ?rs = "reports t 2000000 2000000 0 200 w" and ?g = "ingest_all (reports t 2000000 2000000 0 200 w) g"
  have "acceptable (worker_request t 2000000 2000000 0 w) g"
    using assms(5) by (intro worker_request_acceptable [OF assms(1)]) (simp_all add: knows_epoch_def assms(2) om_find_def om_empty_def)
  moreover have "?rs \<noteq> [] \<and> hd ?rs = worker_request t 2000000 2000000 0 w" by (simp add: eval_nat_numeral)
  ultimately have "\<not> flagged ?g i" using accepted_evidence_lifts [OF _ _ assms(3,4)] by simp
  moreover have "same_frame_for_reports g ?g" by (rule ingest_all_same_frame)
  then have "\<not> g_shutting_down ?g" "find_objective i ?g = Some obj"
    using assms(1,3) by (simp_all add: same_frame_for_reports_def find_objective_def serves_def)
  then obtain ev h where "evaluate i ?g = (Inr ev, h)"
    using assms(4) by (cases rule: evaluate_cases [of ?g i]) auto
  ultimately show thesis using that unflagged_evaluation by blast
qed

lemma worker_B_suffices:
  assumes "\<not> g_shutting_down g" and "gc_epoch (g_cfg g) = Id 2" and "gc_service_generation (g_cfg g) = Id 1"
    and "gc_workload_generation (g_cfg g) = Id 1" and "g_seen g = om_empty" and "active_objective (Id 1) g \<noteq> None"
    and "returning w t2 e s" and "knows_epoch 2 w t2"
    and r_def: "r = resume_with None (Some s) t1 t2 g"
  shows "re_have_b r \<and> re_resumed r \<and> re_reports r = 200"
proof -
  let ?rs = "reports t2 2000000 2000000 0 200 w" and ?h = "\<lparr>h_name = name_B, h_wk = Id 200, h_boot = wk_boot w, h_epoch = e\<rparr>"
  have w: "wk_name w = name_B" "wk_id w = Id 200" "wk_epoch w = 2" using assms(8) by (simp_all add: knows_epoch_def)
  have "length name_B \<le> 65536" by (simp add: name_B_def)
  then obtain s1 a b c d ks where s1: "read_hello s = (Some ?h, s1)" "incoming s1 = report_stream ?rs" "healthy s1"
    "s_takes s1 = a # b # c # d # ks" "600000 \<le> a" "600000 \<le> b" "600000 \<le> c" "600000 \<le> d"
    by (rule returning_hello [OF assms(7), unfolded w(1,2)])
  have conns: "accept_one None = None" "accept_one (Some s) = Some (?h, s1)" by (simp_all add: accept_one_def s1(1))
  have names: "named name_A None (Some (?h, s1)) = None" "named name_B None (Some (?h, s1)) = Some (?h, s1)"
    by (simp_all add: named_def name_A_def name_B_def)
  define g1 where "g1 = register_hello (Some (?h, s1)) g"
  have g1: "g_shutting_down g1 = g_shutting_down g" "g_cfg g1 = g_cfg g" "g_seen g1 = g_seen g" "g_pol g1 = g_pol g"
    "om_find (g_worker_boots g1) (Id 200) = Some (wk_boot w)"
    using assms(1) by (simp_all add: g1_def register_hello_def register_worker_def)
  define g2 where "g2 = snd (evaluate (Id 1) g1)"
  have g2: "g_shutting_down g2 = g_shutting_down g" "g_cfg g2 = g_cfg g" "g_seen g2 = om_empty" "g_pol g2 = g_pol g"
    "om_find (g_worker_boots g2) (Id 200) = Some (wk_boot w)"
    by (simp_all add: g2_def frame g1 assms(5))
  define stale where "stale = (mk_stale (Id 200) (Id 1))\<lparr>rl_epoch := Id 1\<rparr>"
  have st: "ingest stale g2 = (status StatusCode.STALE_AUTHORITY ''evidence epoch is not current'', g2)"
    using assms(1,2) by (simp add: ingest_split stale_def g2)
  let ?se = "put_u8 (Msg_code SET_EPOCH) @ put_u64 (id_value (epoch g))"
  have se: "?se \<noteq> []" "int (length ?se) \<le> kMaxFrame" by (simp_all add: put_u8_def field_length kMaxFrame_def)
  define s2 where "s2 = s1\<lparr>s_out := s_out s1 @ frame ?se, s_takes := c # d # ks\<rparr>"
  have sent: "send_to ?se (Some s1) = Some s2"
    using send_msg_generous [OF s1(4-6) se] by (simp add: send_to_def s2_def)
  have s2: "incoming s2 = report_stream ?rs" "healthy s2" "s_takes s2 = c # d # ks"
    using s1 by (simp_all add: s2_def incoming_def healthy_def)
  obtain s3 where s3: "report_from t2 (Some s2) g2 = (200, Some s3, ingest_all ?rs g2)"
    using report_from_worker [OF s2 s1(7,8)] .
  define g3 where "g3 = ingest_all ?rs g2"
  obtain obj where obj: "find_objective (Id 1) g2 = Some obj" "o_enabled obj"
    using assms(6) g2(4) by (auto simp: active_objective_def find_objective_def split: option.splits if_splits)
  have "serves g2 w" using assms(1-4) by (simp add: serves_def g2 w)
  then obtain ev g4 where ev: "evaluate (Id 1) g3 = (Inr ev, g4)" "ev_state ev \<noteq> REVALIDATION_REQUIRED"
    unfolding g3_def by (rule reports_lift_the_revalidation [OF _ g2(3) obj assms(8)])
  have none: "send_to msg None = None" "report_from t1 None g2 = (0, None, g2)" for msg
    by (simp_all add: send_to_def report_from_def)
  show ?thesis
    unfolding r_def resume_with_def Let_def conns names register_hello_def [of None] option.case g1_def [symmetric]
      split_beta g2_def [symmetric] stale_def [symmetric] st fst_conv snd_conv option.map sent none s3 g3_def [symmetric] ev(1)
    by (simp add: ev(2))
qed

lemma resume_load_fresh:
  assumes "resume_load clock readable path d = Some g"
  shows "g_seen g = om_empty" and "gc_service_generation (g_cfg g) = Id 1" and "gc_workload_generation (g_cfg g) = Id 1"
proof -
  let ?g = "snd (load readable path d (governor_new (coordinator_config clock)))"
  have g: "g = advance_epoch ?g" using assms by (auto simp: resume_load_def split: prod.splits if_splits)
  have "g_cfg ?g = coordinator_config clock" by (simp add: frame governor_new_def)
  then show "g_seen g = om_empty" and "gc_service_generation (g_cfg g) = Id 1" and "gc_workload_generation (g_cfg g) = Id 1"
    by (simp_all add: g advance_epoch_def Let_def coordinator_config_def del: load_frame)
qed

subsection \<open>Properties\<close>

text \<open>C13: From end to end, whatever the clocks, the workers and the sockets do: once the first incarnation
  could write its file, the second one loads it, runs in epoch 2, demands revalidation and refuses the old
  epoch's evidence. So the driver reports success exactly when every recorded scenario of the first
  incarnation passed, worker B came back and the fresh evidence of the workers lifted the revalidation.\<close>

theorem driver_reports_the_restart:
  assumes "fi_opened i" and "fi_written i = None" and "si_readable j" and "si_listening j"
  shows "\<exists>r. resumption j path (fst (snd (run_coordinator i path d))) = Some r \<and>
     gc_epoch (g_cfg (re_gov r)) = Id 2 \<and> re_revalidation r \<and> re_stale_rejected r \<and>
     (run_driver True True True (Some i) j earlier path d = 0 \<longleftrightarrow>
        list_all snd (fst (run_coordinator i path d)) \<and> re_have_b r \<and> re_resumed r)"
proof -
  obtain rs g where first: "run_coordinator i path d = (rs, snd (save True None path g d), g)" and "early g"
    using first_saves [OF assms(1,2)] by metis
  obtain h where h: "resume_load (si_clock j) True path (snd (save True None path g d)) = Some h"
    and active: "active_objective (Id 1) h \<noteq> None"
    using resume_after_save [OF \<open>early g\<close>] by metis
  define r where "r = resume_with (si_conn1 j) (si_conn2 j) (si_t1 j) (si_t2 j) h"
  have res: "resumption j path (snd (save True None path g d)) = Some r"
    using assms(3) by (simp add: resumption_def coordinator_resume_def h r_def)
  note h0 = resume_load_state [OF h]
  note fenced = resume_with_fences [OF h0(3,2,1) r_def]
  have "d_pass r \<longleftrightarrow> re_have_b r \<and> re_resumed r" using fenced active by (simp add: d_pass_def)
  moreover have "set (map fst rs) \<subseteq> set recorded_names" using recorded_by_first [of i path d] by (simp add: first)
  moreover have "''SCENARIO_D_COORDINATOR_RESTART'' \<in> set recorded_names" by (simp add: recorded_names_def)
  ultimately have "exit_code (final_lines (Some (map outcome_line rs)) r) = 0 \<longleftrightarrow>
      list_all snd rs \<and> re_have_b r \<and> re_resumed r"
    by (simp add: exit_code_def final_lines_def any_failing failing_lines)
  then show ?thesis
    using fenced active h0(1) assms(4)
    by (simp add: first res run_driver_def run_coordinator_resume_def same_frame_for_reports_def)
qed

definition no_workers :: FirstInputs where
  "no_workers = \<lparr>fi_clock = \<lambda>_. 5, fi_clock_c = \<lambda>_. 5, fi_clock_e = \<lambda>_. 5, fi_spawned = False, fi_a = None, fi_b = None,
     fi_t1 = 0, fi_t2 = 0, fi_t3 = 0, fi_base_e = 0, fi_again = None, fi_opened = True, fi_written = None\<rparr>"

definition nobody_reconnects :: SecondInputs where
  "nobody_reconnects = \<lparr>si_clock = \<lambda>_. 5, si_readable = True, si_listening = True, si_conn1 = None, si_conn2 = None,
     si_t1 = 0, si_t2 = 0\<rparr>"

lemma driver_reports_the_restart_witness:
  "run_driver True True True (Some no_workers) nobody_reconnects None ''state'' demo_disk \<noteq> 0"
proof -
  have "\<not> list_all snd (fst (run_coordinator no_workers ''state'' demo_disk))"
    by (simp add: run_coordinator_def no_workers_def Let_def split_beta)
  then show ?thesis
    using driver_reports_the_restart [of no_workers nobody_reconnects "''state''" demo_disk None]
    by (auto simp: no_workers_def nobody_reconnects_def)
qed

text \<open>C14: A restart is survived with one worker. When the first incarnation could write its file and worker B,
  alone, connects again and its 200 reports arrive, cut up in any way, then the second incarnation passes:
  it demanded revalidation, refused the old epoch, and the fresh reports lifted the revalidation.\<close>

theorem restart_passes_with_worker_B:
  assumes "fi_opened i" and "fi_written i = None" and "si_readable j" and "si_conn1 j = None" and "si_conn2 j = Some s"
    and "returning w (si_t2 j) e s" and "knows_epoch 2 w (si_t2 j)"
  shows "\<exists>r. resumption j path (fst (snd (run_coordinator i path d))) = Some r \<and> d_pass r \<and> re_reports r = 200"
proof -
  obtain rs g where first: "run_coordinator i path d = (rs, snd (save True None path g d), g)" and "early g"
    using first_saves [OF assms(1,2)] by metis
  obtain h where h: "resume_load (si_clock j) True path (snd (save True None path g d)) = Some h"
    and active: "active_objective (Id 1) h \<noteq> None"
    using resume_after_save [OF \<open>early g\<close>] by metis
  define r where "r = resume_with None (Some s) (si_t1 j) (si_t2 j) h"
  note h0 = resume_load_state [OF h]
  have "re_revalidation r" "re_stale_rejected r" using resume_with_fences [OF h0(3,2,1) r_def] active by simp_all
  moreover have "re_have_b r \<and> re_resumed r \<and> re_reports r = 200"
    using worker_B_suffices [OF h0(2,1) resume_load_fresh(2,3,1) [OF h] active assms(6,7) r_def] .
  moreover have "resumption j path (snd (save True None path g d)) = Some r"
    using assms(3-5) by (simp add: resumption_def coordinator_resume_def h r_def)
  ultimately show ?thesis by (simp add: first d_pass_def)
qed

definition worker_B_again :: WorkerState where "worker_B_again = (worker_new name_B 1)\<lparr>wk_epoch := 2\<rparr>"

definition worker_B_connection :: Sock where
  "worker_B_connection = \<lparr>s_in = [frame (serialize_hello name_B (Id 200) (Id 1) 1) @
      report_stream (reports 1000 2000000 2000000 0 200 worker_B_again)], s_out = [],
     s_takes = [600000, 600000, 600000, 600000]\<rparr>"

lemma restart_passes_with_worker_B_witness:
  "\<exists>r. resumption (nobody_reconnects\<lparr>si_conn2 := Some worker_B_connection, si_t2 := 1000\<rparr>) ''state''
      (fst (snd (run_coordinator no_workers ''state'' demo_disk))) = Some r \<and> d_pass r"
proof -
  let ?j = "nobody_reconnects\<lparr>si_conn2 := Some worker_B_connection, si_t2 := 1000\<rparr>"
  have "returning worker_B_again (si_t2 ?j) 1 worker_B_connection"
    by (simp add: returning_def worker_B_connection_def worker_B_again_def worker_new_def name_A_def name_B_def
        healthy_def incoming_def frame_def serialize_hello_def put_u8_def)
  moreover have "knows_epoch 2 worker_B_again (si_t2 ?j)"
    by (simp add: knows_epoch_def worker_B_again_def worker_new_def name_A_def name_B_def i64_max_def)
  ultimately show ?thesis
    using restart_passes_with_worker_B [of no_workers ?j worker_B_connection worker_B_again 1 "''state''" demo_disk]
    by (auto simp: no_workers_def nobody_reconnects_def)
qed

end
