(* ===== verification/Render.thy ===== *)
theory Render
  imports Evaluate
begin

text \<open>
  The text forms of an evaluation (\<open>render_markdown\<close> and \<open>render_json\<close> of governor.cpp) and the way
  \<open>std::ostream\<close> writes a double: six significant digits, correctly rounded, in fixed or scientific
  notation. A small reader of flat objects shows that the JSON form can be read back.
\<close>

subsection \<open>Doubles\<close>

text \<open>The decimal exponent of \<open>a / b\<close>. A double is above \<open>10 powi (- 324)\<close>, so the fuel suffices.\<close>

fun leading_zeros :: "nat \<Rightarrow> int \<Rightarrow> int \<Rightarrow> nat" where
  "leading_zeros 0 a b = 0"
| "leading_zeros (Suc n) a b = (if b \<le> a then 0 else Suc (leading_zeros n (10 * a) b))"

definition dec_exp :: "int \<Rightarrow> int \<Rightarrow> int" where
  "dec_exp a b = (if b \<le> a then int (length (int_to_string (a div b))) - 1 else - int (leading_zeros 400 a b))"

definition strip_zeros :: "string \<Rightarrow> string" where
  "strip_zeros s = rev (dropWhile (\<lambda>c. c = CHR ''0'') (rev s))"

definition with_fraction :: "string \<Rightarrow> string \<Rightarrow> string" where
  "with_fraction whole part = (case strip_zeros part of [] \<Rightarrow> whole | f \<Rightarrow> whole @ ''.'' @ f)"

definition exponent_text :: "int \<Rightarrow> string" where
  "exponent_text x = ''e'' @ (if x < 0 then ''-'' else ''+'') @ (if \<bar>x\<bar> < 10 then ''0'' else '''') @ int_to_string \<bar>x\<bar>"

definition positive_text :: "int \<Rightarrow> int \<Rightarrow> string" where
  "positive_text a b =
     (let x = dec_exp a b; d = rne (a * 10 ^ nat (5 - x)) (b * 10 ^ nat (x - 5));
          (d, x) = (if d = 1000000 then (100000, x + 1) else (d, x));
          digits = int_to_string d
      in if - 4 \<le> x \<and> x < 6
         then (if 0 \<le> x then with_fraction (take (nat x + 1) digits) (drop (nat x + 1) digits)
               else with_fraction ''0'' (replicate (nat (- x - 1)) (CHR ''0'') @ digits))
         else with_fraction (take 1 digits) (drop 1 digits) @ exponent_text x)"

definition double_text :: "double \<Rightarrow> string" where
  "double_text w = (case decode w of
     Nan \<Rightarrow> ''nan''
   | Inf s \<Rightarrow> (if s then ''-inf'' else ''inf'')
   | Fin s m e \<Rightarrow> (if s then ''-'' else '''') @
       (if m = 0 then ''0'' else positive_text (m * 2 ^ nat e) (2 ^ nat (- e))))"

text \<open>The fuel is enough: it reaches the first digit of every positive double.\<close>

lemma leading_zeros_reaches:
  "0 < a \<Longrightarrow> b \<le> a * 10 ^ k \<Longrightarrow> k \<le> n \<Longrightarrow> b \<le> a * 10 ^ leading_zeros n a b \<and> leading_zeros n a b \<le> k"
proof (induction n arbitrary: a k)
  case (Suc n)
  show ?case
  proof (cases "b \<le> a")
    case False
    with Suc.prems obtain k' where k': "k = Suc k'" by (cases k) auto
    then show ?thesis using Suc.IH [of "10 * a" k'] Suc.prems False by (simp add: mult.assoc mult.left_commute)
  qed simp
qed simp

lemma double_text_fuel:
  assumes "decode w = Fin s m e" and "m \<noteq> 0"
  shows "2 ^ nat (- e) \<le> m * 2 ^ nat e * 10 ^ leading_zeros 400 (m * 2 ^ nat e) (2 ^ nat (- e))"
proof -
  have m: "0 < m" and e: "- 1074 \<le> e" using canonical_decode [of w] assms by auto
  have "(2 :: int) ^ nat (- e) \<le> 2 ^ 1074" using e by (intro power_increasing) simp_all
  also have "\<dots> \<le> 1 * 10 ^ 324" by simp
  also have "\<dots> \<le> m * 2 ^ nat e * 10 ^ 324" using m by (intro mult_right_mono) (simp_all add: int_one_le_iff_zero_less)
  finally show ?thesis using leading_zeros_reaches [of "m * 2 ^ nat e" "2 ^ nat (- e)" 324 400] m by simp
qed

subsection \<open>Evaluations\<close>

definition nl :: string where "nl = [CHR 0x0A]"

definition render_markdown :: "TailEvaluation \<Rightarrow> string" where
  "render_markdown e =
     ''## Tail Evaluation'' @ nl @
     ''- objective: '' @ Id_to_string TailObjectiveId_prefix (ev_objective e) @ nl @
     ''- percentile: '' @ double_text (pvalue (ev_percentile e)) @ nl @
     ''- target: '' @ Duration_to_string (ev_target e) @ nl @
     ''- observed: '' @ Duration_to_string (ev_observed e) @ nl @
     ''- state: '' @ TailState_to_string (ev_state e) @ nl @
     ''- sufficiency: '' @ Sufficiency_to_string (ev_sufficiency e) @ nl @
     ''- samples: '' @ int_to_string (int (ev_sample_count e)) @ '' (min '' @
       int_to_string (int (ev_min_required e)) @ '')'' @ nl @
     ''- freshness age (ms): '' @ double_text (ev_freshness_age_ms e) @ nl @
     (case am_p99_over_p50 (ev_amplification e) of Some r \<Rightarrow> ''- p99/p50: '' @ double_text r @ nl | None \<Rightarrow> '''') @
     (case am_p999_over_p50 (ev_amplification e) of Some r \<Rightarrow> ''- p999/p50: '' @ double_text r @ nl | None \<Rightarrow> '''') @
     ''- selected intervention: '' @ InterventionType_to_string (ev_selected_intervention e) @ nl @
     (case ev_binding_hard_constraint e of
        Some why \<Rightarrow> ''- binding hard constraint: '' @ Infeasibility_to_string why @ nl | None \<Rightarrow> '''') @
     ''- expected tail reduction: '' @ Duration_to_string (ev_expected_tail_reduction e) @ nl @
     ''- uncertainty: '' @ double_text (ev_uncertainty e) @ nl @
     ''- what-would-change:'' @ nl @
     concat (map (\<lambda>w. ''  - '' @ WhatWouldChange_to_string (ww_trigger w) @ '': '' @ ww_note w @ nl)
       (ev_what_would_change e))"

definition quoted :: "string \<Rightarrow> string" where "quoted s = [CHR 0x22] @ s @ [CHR 0x22]"

definition render_json :: "TailEvaluation \<Rightarrow> string" where
  "render_json e =
     ''{'' @ quoted ''objective'' @ '':'' @ quoted (Id_to_string TailObjectiveId_prefix (ev_objective e)) @ '','' @
     quoted ''percentile'' @ '':'' @ double_text (pvalue (ev_percentile e)) @ '','' @
     quoted ''target_ns'' @ '':'' @ int_to_string (nanos (ev_target e)) @ '','' @
     quoted ''observed_ns'' @ '':'' @ int_to_string (nanos (ev_observed e)) @ '','' @
     quoted ''state'' @ '':'' @ quoted (TailState_to_string (ev_state e)) @ '','' @
     quoted ''sufficiency'' @ '':'' @ quoted (Sufficiency_to_string (ev_sufficiency e)) @ '','' @
     quoted ''samples'' @ '':'' @ int_to_string (int (ev_sample_count e)) @ '','' @
     quoted ''min_required'' @ '':'' @ int_to_string (int (ev_min_required e)) @ '','' @
     quoted ''selected_intervention'' @ '':'' @
       quoted (InterventionType_to_string (ev_selected_intervention e)) @ ''}''"

subsection \<open>Reading a flat object back\<close>

definition read_token :: "string \<Rightarrow> (string \<times> string) option" where
  "read_token s =
     (if take 1 s = [CHR 0x22]
      then (case dropWhile (\<lambda>c. c \<noteq> CHR 0x22) (drop 1 s) of [] \<Rightarrow> None
            | _ # rest \<Rightarrow> Some (takeWhile (\<lambda>c. c \<noteq> CHR 0x22) (drop 1 s), rest))
      else Some (takeWhile (\<lambda>c. c \<notin> set '',}'') s, dropWhile (\<lambda>c. c \<notin> set '',}'') s))"

fun read_members :: "nat \<Rightarrow> string \<Rightarrow> (string \<times> string) list option" where
  "read_members 0 s = None"
| "read_members (Suc n) s =
     (case read_token s of
        Some (k, c # r) \<Rightarrow>
          if c \<noteq> CHR '':'' then None
          else (case read_token r of
            Some (v, d # rest) \<Rightarrow>
              if d = CHR '','' then map_option (\<lambda>ms. (k, v) # ms) (read_members n rest)
              else if d = CHR ''}'' \<and> rest = [] then Some [(k, v)] else None
          | _ \<Rightarrow> None)
      | _ \<Rightarrow> None)"

definition read_json :: "string \<Rightarrow> (string \<times> string) list option" where
  "read_json s = (if take 1 s = ''{'' then read_members (length s) (drop 1 s) else None)"

text \<open>Text that may stand between quotes, and text that may stand without.\<close>

definition clean :: "string \<Rightarrow> bool" where "clean s \<longleftrightarrow> CHR 0x22 \<notin> set s"

definition plain_char :: "char \<Rightarrow> bool" where "plain_char c \<longleftrightarrow> c \<noteq> CHR 0x22 \<and> c \<notin> set '',}''"

definition bare :: "string \<Rightarrow> bool" where "bare s \<longleftrightarrow> s \<noteq> [] \<and> list_all plain_char s"

lemma read_quoted: "clean s \<Longrightarrow> read_token (quoted s @ rest) = Some (s, rest)"
proof -
  assume "clean s"
  then have "\<And>c. c \<in> set s \<Longrightarrow> c \<noteq> CHR 0x22" by (auto simp: clean_def)
  then have "takeWhile (\<lambda>c. c \<noteq> CHR 0x22) (s @ CHR 0x22 # rest) = s"
    and "dropWhile (\<lambda>c. c \<noteq> CHR 0x22) (s @ CHR 0x22 # rest) = CHR 0x22 # rest"
    by (simp_all add: takeWhile_tail dropWhile_append3)
  then show ?thesis by (simp add: read_token_def quoted_def)
qed

lemma read_bare:
  assumes "bare s" and "c \<in> set '',}''"
  shows "read_token (s @ c # rest) = Some (s, c # rest)"
proof -
  have s: "x \<in> set s \<Longrightarrow> x \<notin> set '',}''" for x using assms(1) by (auto simp: bare_def list_all_iff plain_char_def)
  have "takeWhile (\<lambda>c. c \<notin> set '',}'') (s @ c # rest) = s"
    by (subst takeWhile_append2) (use s assms(2) in auto)
  moreover have "dropWhile (\<lambda>c. c \<notin> set '',}'') (s @ c # rest) = c # rest"
    by (subst dropWhile_append2) (use s assms(2) in auto)
  moreover have "take 1 (s @ c # rest) \<noteq> [CHR 0x22]"
    using assms(1) by (cases s) (auto simp: bare_def plain_char_def)
  ultimately show ?thesis by (simp add: read_token_def)
qed

lemma digit_char_plain: "d < 10 \<Longrightarrow> plain_char (digit_char d)"
proof -
  have "list_all (\<lambda>d. plain_char (digit_char d)) [0..<10]" by code_simp
  then show "d < 10 \<Longrightarrow> plain_char (digit_char d)" by (simp add: list_all_iff)
qed

lemma decimal_bare: "bare (decimal n)"
proof (induction n rule: decimal.induct)
  case (1 n)
  show ?case
  proof (cases "n < 10")
    case True
    then show ?thesis by (subst decimal.simps) (simp add: bare_def digit_char_plain)
  next
    case False
    then show ?thesis using 1 by (subst decimal.simps) (simp add: bare_def digit_char_plain)
  qed
qed

lemma int_text_bare: "bare (int_to_string n)"
  using decimal_bare [of "nat n"] decimal_bare [of "nat (- n)"]
  by (simp add: int_to_string_def bare_def plain_char_def)

lemma strip_zeros_plain: "list_all plain_char s \<Longrightarrow> list_all plain_char (strip_zeros s)"
  using set_dropWhileD by (fastforce simp: strip_zeros_def list_all_iff)

lemma plain_char_dot: "plain_char (CHR ''.'')" "plain_char (CHR ''0'')"
  by (simp_all add: plain_char_def)

lemma with_fraction_bare: "bare w \<Longrightarrow> list_all plain_char f \<Longrightarrow> bare (with_fraction w f)"
  using strip_zeros_plain [of f] plain_char_dot by (auto simp: with_fraction_def bare_def split: list.split)

lemma part_plain: "list_all plain_char s \<Longrightarrow> list_all plain_char (take n s) \<and> list_all plain_char (drop n s)"
  by (auto simp: list_all_iff dest: in_set_takeD in_set_dropD)

lemma exponent_text_plain: "list_all plain_char (exponent_text x)"
  using int_text_bare [of "\<bar>x\<bar>"] by (simp add: exponent_text_def bare_def plain_char_def)

lemma positive_text_bare: "bare (positive_text a b)"
proof -
  have digits: "list_all plain_char (int_to_string d)" "int_to_string d \<noteq> []" for d
    using int_text_bare [of d] by (simp_all add: bare_def)
  have w: "bare (with_fraction (take (Suc n) (int_to_string d)) (drop k (int_to_string d)))" for n k d
    using part_plain [OF digits(1) [of d]] digits(2) [of d] by (intro with_fraction_bare) (simp_all add: bare_def)
  have z: "bare (with_fraction ''0'' (replicate n (CHR ''0'') @ int_to_string d))" for n d
    using digits(1) by (intro with_fraction_bare) (auto simp: bare_def plain_char_dot list_all_iff)
  have e: "bare (with_fraction (take (Suc n) (int_to_string d)) (drop k (int_to_string d)) @ exponent_text x)" for n k d x
    using w [of n d k] exponent_text_plain by (simp add: bare_def)
  have "nat x + 1 = Suc (nat x)" for x by simp
  then show ?thesis
    unfolding positive_text_def Let_def split_beta One_nat_def by (simp only: w z e split: if_split) simp
qed

lemma double_text_bare: "bare (double_text w)"
  using positive_text_bare by (simp add: bare_def double_text_def plain_char_def split: fval.split)

lemma state_clean: "clean (TailState_to_string st)"
  by (cases st) (simp_all add: clean_def)

lemma sufficiency_clean: "clean (Sufficiency_to_string su)"
  by (cases su) (simp_all add: clean_def)

lemma type_clean: "clean (InterventionType_to_string t)"
  by (cases t) (simp_all add: clean_def)

lemmas names_clean = state_clean sufficiency_clean type_clean

lemma id_clean: "clean (Id_to_string TailObjectiveId_prefix i)"
proof -
  have nibble: "unat (v AND 15) < 16" for v :: u64 using word_and_le1 [of v 15] by (simp add: word_le_nat_alt)
  have "list_all (\<lambda>k. hex_digits ! k \<noteq> CHR 0x22) [0..<16]" by code_simp
  then have digit: "CHR 0x22 \<noteq> hex_digits ! unat (v AND 15)" for v :: u64
    using nibble [of v] by (auto simp: list_all_iff)
  have "clean buf \<Longrightarrow> clean (hex_loop n v buf)" for n v buf
  proof (induction n arbitrary: v buf)
    case (Suc n)
    have "clean (hex_digits ! unat (v AND 15) # buf)" using Suc.prems digit [of v] by (simp add: clean_def)
    then show ?case using Suc.IH by simp
  qed simp
  then have "clean (hex_loop 16 (id_value i) [])" by (simp add: clean_def)
  then show ?thesis by (simp add: Id_to_string_def TailObjectiveId_prefix_def clean_def)
qed

lemma member_quoted:
  "clean k \<Longrightarrow> clean v \<Longrightarrow> read_members (Suc n) (quoted k @ '':'' @ quoted v @ '','' @ rest) =
     map_option (\<lambda>ms. (k, v) # ms) (read_members n rest)"
  by (simp add: read_quoted)

lemma member_bare:
  "clean k \<Longrightarrow> bare v \<Longrightarrow> read_members (Suc n) (quoted k @ '':'' @ v @ '','' @ rest) =
     map_option (\<lambda>ms. (k, v) # ms) (read_members n rest)"
  by (simp add: read_quoted read_bare)

lemma last_member: "clean k \<Longrightarrow> clean v \<Longrightarrow> read_members (Suc n) (quoted k @ '':'' @ quoted v @ ''}'') = Some [(k, v)]"
  using read_quoted [of v "''}''"] by (simp add: read_quoted)

subsection \<open>Properties\<close>

text \<open>C34: The JSON form of an evaluation is a flat object that reads back as its nine members in order, whatever
  the evaluation holds: objective, percentile, target, observed value, state, sufficiency, the two sample
  counts and the selected intervention; no value can break out of its place.\<close>

theorem json_reads_back:
  "read_json (render_json e) = Some
     [(''objective'', Id_to_string TailObjectiveId_prefix (ev_objective e)),
      (''percentile'', double_text (pvalue (ev_percentile e))),
      (''target_ns'', int_to_string (nanos (ev_target e))), (''observed_ns'', int_to_string (nanos (ev_observed e))),
      (''state'', TailState_to_string (ev_state e)), (''sufficiency'', Sufficiency_to_string (ev_sufficiency e)),
      (''samples'', int_to_string (int (ev_sample_count e))),
      (''min_required'', int_to_string (int (ev_min_required e))),
      (''selected_intervention'', InterventionType_to_string (ev_selected_intervention e))]"
proof -
  have keys: "clean ''objective''" "clean ''percentile''" "clean ''target_ns''" "clean ''observed_ns''" "clean ''state''"
    "clean ''sufficiency''" "clean ''samples''" "clean ''min_required''" "clean ''selected_intervention''"
    by (simp_all add: clean_def)
  have open_brace: "read_json (''{'' @ body) = read_members (Suc (length body)) body" for body
    by (simp add: read_json_def)
  have long: "Suc (length (quoted ''objective'' @ body)) = Suc (Suc (Suc (Suc (Suc (Suc (Suc (Suc (Suc (Suc (Suc (Suc (length body))))))))))))" for body
    by (simp add: quoted_def)
  show ?thesis
    unfolding render_json_def open_brace long
    by (simp only: member_quoted member_bare last_member keys names_clean id_clean double_text_bare int_text_bare
        option.map)
qed

end
