(* ===== verification/Processes.thy ===== *)
theory Processes
  imports Restart Render
begin

text \<open>
  What tailgov_d.cpp asks of the operating system: sockets that are opened and closed, child processes
  with the handles on them, the command lines they are started with and how \<open>main\<close> takes those apart.
  The answers of the operating system are parameters; the state is what it keeps for this process.
\<close>

subsection \<open>State\<close>

type_synonym Pid = u32

text \<open>The running processes with their command lines, the processes this one has an open handle on, and
  its open sockets.\<close>

record Os =
  os_running :: "Pid \<rightharpoonup> string"
  os_handles :: "Pid set"
  os_sockets :: "nat set"

subsection \<open>Sockets\<close>

definition open_socket :: "nat \<Rightarrow> Os \<Rightarrow> Os" where "open_socket s os = os\<lparr>os_sockets := insert s (os_sockets os)\<rparr>"
definition close_socket :: "nat \<Rightarrow> Os \<Rightarrow> Os" where "close_socket s os = os\<lparr>os_sockets := os_sockets os - {s}\<rparr>"

text \<open>\<open>made\<close> is what \<open>socket\<close> returned; \<open>bound\<close> the port that \<open>bind\<close> gave, if it succeeded.\<close>

definition tcp_connect :: "nat option \<Rightarrow> bool \<Rightarrow> Os \<Rightarrow> nat option \<times> Os" where
  "tcp_connect made reached os =
     (case made of None \<Rightarrow> (None, os)
      | Some s \<Rightarrow> let os = open_socket s os in if \<not> reached then (None, close_socket s os) else (Some s, os))"

definition find_free_port :: "nat option \<Rightarrow> int option \<Rightarrow> Os \<Rightarrow> int \<times> Os" where
  "find_free_port made bound os =
     (case made of None \<Rightarrow> (0, os)
      | Some s \<Rightarrow> let os = open_socket s os in
          (case bound of None \<Rightarrow> (0, close_socket s os) | Some port \<Rightarrow> (port, close_socket s os)))"

definition start_listening :: "nat option \<Rightarrow> int option \<Rightarrow> Os \<Rightarrow> (nat \<times> int) option \<times> Os" where
  "start_listening made bound os =
     (case made of None \<Rightarrow> (None, os)
      | Some s \<Rightarrow> let os = open_socket s os in
          (case bound of None \<Rightarrow> (None, close_socket s os) | Some port \<Rightarrow> (Some (s, port), os)))"

text \<open>Whatever fails, no socket stays open but the one that is returned.\<close>

lemma sockets_released:
  assumes "\<And>s. made = Some s \<Longrightarrow> s \<notin> os_sockets os"
  shows "os_sockets (snd (tcp_connect made reached os)) = os_sockets os \<union> set_option (fst (tcp_connect made reached os))"
    and "snd (find_free_port made bound os) = os"
    and "os_sockets (snd (start_listening made bound os)) = os_sockets os \<union> fst ` set_option (fst (start_listening made bound os))"
  using assms
  by (auto simp: tcp_connect_def find_free_port_def start_listening_def open_socket_def close_socket_def Let_def
      split: option.split)

subsection \<open>Child processes\<close>

text \<open>A handle is known by its process.\<close>

record Child =
  ch_proc :: "Pid option"
  ch_pid :: Pid

definition child_new :: Child where "child_new = \<lparr>ch_proc = None, ch_pid = 0\<rparr>"

definition child_detach :: "Child \<Rightarrow> Os \<Rightarrow> Child \<times> Os" where
  "child_detach c os = (case ch_proc c of None \<Rightarrow> (c, os)
     | Some p \<Rightarrow> (c\<lparr>ch_proc := None\<rparr>, os\<lparr>os_handles := os_handles os - {p}\<rparr>))"

definition terminate_child :: "Child \<Rightarrow> Os \<Rightarrow> Os" where
  "terminate_child c os = (case ch_proc c of None \<Rightarrow> os | Some p \<Rightarrow> os\<lparr>os_running := (os_running os)(p := None)\<rparr>)"

text \<open>The destructor.\<close>

definition child_destroy :: "Child \<Rightarrow> Os \<Rightarrow> Os" where
  "child_destroy c os = snd (child_detach c (terminate_child c os))"

text \<open>\<open>created\<close> is the process that \<open>CreateProcessA\<close> made, if it succeeded.\<close>

definition spawn_cmd :: "string \<Rightarrow> Pid option \<Rightarrow> Child \<Rightarrow> Os \<Rightarrow> bool \<times> Child \<times> Os" where
  "spawn_cmd cmd created out os = (case created of None \<Rightarrow> (False, out, os)
     | Some p \<Rightarrow> (True, out\<lparr>ch_proc := Some p, ch_pid := p\<rparr>,
         os\<lparr>os_running := (os_running os)(p \<mapsto> cmd), os_handles := insert p (os_handles os)\<rparr>))"

subsection \<open>Command lines\<close>

definition blank :: string where "blank = [CHR 0x20]"

text \<open>\<open>snprintf\<close> cuts the text off at the size of its buffer.\<close>

definition worker_text :: "string \<Rightarrow> string \<Rightarrow> string \<Rightarrow> int \<Rightarrow> u64 \<Rightarrow> string" where
  "worker_text exe name host port boot =
     quoted exe @ '' worker '' @ name @ blank @ host @ blank @ int_to_string port @ blank @ int_to_string (uint boot)"

definition worker_cmd :: "string \<Rightarrow> string \<Rightarrow> string \<Rightarrow> int \<Rightarrow> u64 \<Rightarrow> string" where
  "worker_cmd exe name host port boot = take 1023 (worker_text exe name host port boot)"

definition spawn_worker :: "string \<Rightarrow> string \<Rightarrow> int \<Rightarrow> u64 \<Rightarrow> Pid option \<Rightarrow> Child \<Rightarrow> Os \<Rightarrow> bool \<times> Child \<times> Os" where
  "spawn_worker exe name port boot created out os =
     spawn_cmd (worker_cmd exe name ''127.0.0.1'' port boot) created out os"

definition coordinator_cmd :: "string \<Rightarrow> int \<Rightarrow> string \<Rightarrow> string" where
  "coordinator_cmd exe port state =
     quoted exe @ '' coordinator '' @ int_to_string port @ blank @ state @ blank @ (state @ ''.partial'')"

definition resume_cmd :: "string \<Rightarrow> int \<Rightarrow> string \<Rightarrow> string \<Rightarrow> string" where
  "resume_cmd exe port state final =
     quoted exe @ '' coordinator-resume '' @ int_to_string port @ blank @ state @ blank @ (state @ ''.partial'') @ blank @ final"

text \<open>The run-time library's \<open>argv\<close>: blanks and tabs separate, quotes keep together. No backslash stands
  before a quote in the command lines above.\<close>

fun split_args :: "bool \<Rightarrow> string option \<Rightarrow> string \<Rightarrow> string list" where
  "split_args q cur [] = (case cur of None \<Rightarrow> [] | Some a \<Rightarrow> [a])"
| "split_args q cur (c # s) =
     (if c = CHR 0x22 then split_args (\<not> q) (Some (case cur of None \<Rightarrow> [] | Some a \<Rightarrow> a)) s
      else if \<not> q \<and> (c = CHR 0x20 \<or> c = CHR 0x09)
      then (case cur of None \<Rightarrow> split_args q None s | Some a \<Rightarrow> a # split_args q None s)
      else split_args q (Some ((case cur of None \<Rightarrow> [] | Some a \<Rightarrow> a) @ [c])) s)"

definition argv :: "string \<Rightarrow> string list" where "argv cmd = split_args False None cmd"

definition is_digit :: "char \<Rightarrow> bool" where "is_digit c \<longleftrightarrow> c \<in> set ''0123456789''"

text \<open>\<open>atoi\<close> and \<open>strtoull\<close> on text without leading blanks or plus sign.\<close>

definition atoi :: "string \<Rightarrow> int" where
  "atoi s = (if take 1 s = ''-'' then - int (digits_value (takeWhile is_digit (drop 1 s)))
     else int (digits_value (takeWhile is_digit s)))"

definition strtoull :: "string \<Rightarrow> u64" where
  "strtoull s = word_of_int (min 18446744073709551615 (int (digits_value (takeWhile is_digit s))))"

datatype Role =
    WorkerRole string string int u64
  | CoordinatorRole int string string
  | ResumeRole int string string string
  | DriverRole string string
  | NoRole

definition main_role :: "string list \<Rightarrow> Role" where
  "main_role args = (case command_of (drop 1 args) of
     RunWorker name host port boot \<Rightarrow> WorkerRole name host (atoi port) (strtoull boot)
   | RunCoordinator port state part \<Rightarrow> CoordinatorRole (atoi port) state part
   | RunResume port state part final \<Rightarrow> ResumeRole (atoi port) state part final
   | RunDriver state final \<Rightarrow> DriverRole state final
   | Usage \<Rightarrow> NoRole)"

text \<open>A word of a command line that needs no quotes, and a path that may stand between quotes.\<close>

definition word_char :: "char \<Rightarrow> bool" where "word_char c \<longleftrightarrow> c \<noteq> CHR 0x22 \<and> c \<noteq> CHR 0x20 \<and> c \<noteq> CHR 0x09"

definition plain_word :: "string \<Rightarrow> bool" where "plain_word s \<longleftrightarrow> s \<noteq> [] \<and> list_all word_char s"

lemma split_word:
  "list_all word_char s \<Longrightarrow> split_args False (Some a) (s @ rest) = split_args False (Some (a @ s)) rest"
  by (induction s arbitrary: a) (simp_all add: word_char_def)

lemma split_start: "plain_word s \<Longrightarrow> split_args False None (s @ rest) = split_args False (Some s) rest"
  by (cases s) (auto simp: plain_word_def word_char_def split_word)

lemma split_between_quotes:
  "clean s \<Longrightarrow> split_args True (Some a) (s @ CHR 0x22 # rest) = split_args False (Some (a @ s)) rest"
  by (induction s arbitrary: a) (auto simp: clean_def)

lemma argv_quoted: "clean exe \<Longrightarrow> argv (quoted exe @ rest) = split_args False (Some exe) rest"
  using split_between_quotes [of exe "[]" rest] by (simp add: argv_def quoted_def)

lemma split_blank:
  "split_args False (Some a) (blank @ rest) = a # split_args False None rest"
  "split_args False (Some a) (CHR 0x20 # rest) = a # split_args False None rest"
  by (simp_all add: blank_def)

lemma digit_chars: "list_all is_digit (decimal n)"
proof -
  have "list_all (\<lambda>d. is_digit (digit_char d)) [0..<10]" by code_simp
  then have digit: "d < 10 \<Longrightarrow> is_digit (digit_char d)" for d by (simp add: list_all_iff)
  show ?thesis
  proof (induction n rule: decimal.induct)
    case (1 n)
    then show ?case using digit by (cases "n < 10") (simp_all add: decimal.simps [of n])
  qed
qed

lemma decimal_some: "decimal n \<noteq> []"
  by (subst decimal.simps) simp

lemma number_text: "0 \<le> n \<Longrightarrow> list_all is_digit (int_to_string n) \<and> int_to_string n \<noteq> []"
  using digit_chars decimal_some by (simp add: int_to_string_def)

lemma digits_are_word: "list_all is_digit s \<Longrightarrow> list_all word_char s"
proof -
  have "list_all word_char ''0123456789''" by (simp add: word_char_def)
  then have "is_digit c \<Longrightarrow> word_char c" for c unfolding is_digit_def list_all_iff by blast
  then show "list_all is_digit s \<Longrightarrow> ?thesis" by (simp add: list_all_iff)
qed

lemma number_word: "0 \<le> n \<Longrightarrow> plain_word (int_to_string n)"
  using number_text digits_are_word by (simp add: plain_word_def)

lemma number_value:
  assumes "0 \<le> n"
  shows "int (digits_value (takeWhile is_digit (int_to_string n))) = n"
proof -
  have all: "takeWhile is_digit (decimal (nat n)) = decimal (nat n)"
    using digit_chars by (simp add: takeWhile_eq_all_conv list_all_iff)
  show ?thesis using assms by (simp add: int_to_string_def all digits_value_decimal)
qed

lemma atoi_number: "0 \<le> n \<Longrightarrow> atoi (int_to_string n) = n"
proof -
  assume n: "0 \<le> n"
  then obtain c s where cs: "int_to_string n = c # s" using number_text by (metis neq_Nil_conv)
  then have "is_digit c" using number_text [OF n] by simp
  then have "c \<noteq> CHR ''-''" by (auto simp: is_digit_def)
  then show ?thesis using number_value [OF n] by (simp add: atoi_def cs)
qed

lemma strtoull_number: "strtoull (int_to_string (uint (v :: u64))) = v"
proof -
  have "uint v \<le> 18446744073709551615" using uint_lt2p [of v] by simp
  then show ?thesis by (simp add: strtoull_def number_value)
qed

text \<open>Words with a blank before each come out as they went in.\<close>

lemma split_words:
  "list_all plain_word ws \<Longrightarrow> split_args False (Some a) (concat (map (\<lambda>w. blank @ w) ws)) = a # ws"
  by (induction ws arbitrary: a) (simp_all add: split_blank split_start)

lemma argv_words: "clean exe \<Longrightarrow> list_all plain_word ws \<Longrightarrow> argv (quoted exe @ concat (map (\<lambda>w. blank @ w) ws)) = exe # ws"
  by (simp add: argv_quoted split_words)

lemma word_literals: "plain_word ''worker''" "plain_word ''coordinator''" "plain_word ''coordinator-resume''"
  by (simp_all add: plain_word_def word_char_def)

lemma worker_argv:
  assumes "clean exe" and "plain_word name" and "plain_word host" and "0 \<le> port"
    and "length (worker_text exe name host port boot) \<le> 1023"
  shows "argv (worker_cmd exe name host port boot) =
     [exe, ''worker'', name, host, int_to_string port, int_to_string (uint boot)]"
  using argv_words [OF assms(1), of "[''worker'', name, host, int_to_string port, int_to_string (uint boot)]"] assms
  by (simp add: worker_cmd_def worker_text_def blank_def word_literals number_word)

lemma partial_word: "plain_word state \<Longrightarrow> plain_word (state @ ''.partial'')"
  by (simp add: plain_word_def word_char_def)

lemma coordinator_argv:
  assumes "clean exe" and "plain_word state" and "0 \<le> port"
  shows "argv (coordinator_cmd exe port state) = [exe, ''coordinator'', int_to_string port, state, state @ ''.partial'']"
  using argv_words [OF assms(1), of "[''coordinator'', int_to_string port, state, state @ ''.partial'']"] assms
  by (simp add: coordinator_cmd_def blank_def word_literals number_word partial_word)

lemma resume_argv:
  assumes "clean exe" and "plain_word state" and "plain_word final" and "0 \<le> port"
  shows "argv (resume_cmd exe port state final) =
     [exe, ''coordinator-resume'', int_to_string port, state, state @ ''.partial'', final]"
  using argv_words [OF assms(1), of "[''coordinator-resume'', int_to_string port, state, state @ ''.partial'', final]"] assms
  by (simp add: resume_cmd_def blank_def word_literals number_word partial_word)

subsection \<open>The processes of the first incarnation\<close>

text \<open>What becomes of the child processes: \<open>a1\<close>, \<open>b\<close> and \<open>a2\<close> are what creating the two workers and
  later the second worker A yielded, \<open>greeted\<close> is whether A greeted, so that scenario B killed it.
  Assigning null to the handle of A forgets it; the destructors run in the reverse order.\<close>

definition coordinator_processes :: "string \<Rightarrow> int \<Rightarrow> bool \<Rightarrow> Pid option \<Rightarrow> Pid option \<Rightarrow> Pid option \<Rightarrow> Os \<Rightarrow> Os" where
  "coordinator_processes exe port greeted a1 b a2 os =
     (let (ok_a, a_child, os) = spawn_worker exe ''A'' port 1 a1 child_new os;
          (ok_b, b_child, os) = (if ok_a then spawn_worker exe ''B'' port 1 b child_new os else (False, child_new, os));
          os = (if greeted then terminate_child a_child os else os);
          a_child = a_child\<lparr>ch_proc := None\<rparr>;
          (ok_2, a2_child, os) = spawn_worker exe ''A'' port 2 a2 child_new os;
          (b_child, os) = child_detach b_child os; (a2_child, os) = child_detach a2_child os
      in child_destroy a_child (child_destroy b_child (child_destroy a2_child os)))"

text \<open>The driver's: it waits for each incarnation to end.\<close>

definition wait_for :: "Child \<Rightarrow> Os \<Rightarrow> Os" where
  "wait_for c os = (case ch_proc c of None \<Rightarrow> os | Some p \<Rightarrow> os\<lparr>os_running := (os_running os)(p := None)\<rparr>)"

definition driver_processes :: "string \<Rightarrow> int \<Rightarrow> string \<Rightarrow> string \<Rightarrow> Pid option \<Rightarrow> Pid option \<Rightarrow> Os \<Rightarrow> Os" where
  "driver_processes exe port state final p1 p2 os =
     (let (ok1, c1, os) = spawn_cmd (coordinator_cmd exe port state) p1 child_new os in
      if \<not> ok1 then child_destroy c1 os
      else let os = wait_for c1 os; (c1, os) = child_detach c1 os;
               (ok2, c2, os) = spawn_cmd (resume_cmd exe port state final) p2 child_new os
           in if \<not> ok2 then child_destroy c1 (child_destroy c2 os)
              else let os = wait_for c2 os; (c2, os) = child_detach c2 os
                   in child_destroy c1 (child_destroy c2 os))"

lemma driver_leaves_nothing:
  assumes "\<And>p. p1 = Some p \<or> p2 = Some p \<Longrightarrow> os_running os p = None \<and> p \<notin> os_handles os"
  shows "driver_processes exe port state final p1 p2 os = os"
  using assms
  by (cases p1; cases p2) (auto simp: driver_processes_def spawn_cmd_def Let_def wait_for_def child_detach_def
      child_destroy_def terminate_child_def child_new_def fun_upd_idem)

subsection \<open>Properties\<close>

text \<open>C37: The surviving workers outlive the coordinator. When all three workers were created and
  the first incarnation has ended, worker B and the second worker A still run with the command lines they were started with, and
  every process from before is untouched. The first worker A is gone exactly when it had greeted; otherwise
  nobody terminates it, and the handle on it stays open either way.\<close>

theorem workers_outlive_the_coordinator:
  assumes "distinct [pa, pb, p2]" and "\<forall>p \<in> {pa, pb, p2}. os_running os p = None \<and> p \<notin> os_handles os"
    and "os' = coordinator_processes exe port greeted (Some pa) (Some pb) (Some p2) os"
  shows "os_running os' = (os_running os)(pb \<mapsto> worker_cmd exe ''B'' ''127.0.0.1'' port 1,
           p2 \<mapsto> worker_cmd exe ''A'' ''127.0.0.1'' port 2,
           pa := (if greeted then None else Some (worker_cmd exe ''A'' ''127.0.0.1'' port 1))) \<and>
     os_handles os' = insert pa (os_handles os) \<and> os_sockets os' = os_sockets os"
  using assms
  by (auto simp: coordinator_processes_def spawn_worker_def spawn_cmd_def Let_def terminate_child_def
      child_detach_def child_destroy_def child_new_def fun_eq_iff)

lemma workers_outlive_the_coordinator_witness:
  "\<exists>os. os = coordinator_processes ''tailgov_d.exe'' 4000 True (Some 11) (Some 12) (Some 13)
       \<lparr>os_running = Map.empty, os_handles = {}, os_sockets = {}\<rparr> \<and>
     dom (os_running os) = {12, 13} \<and> os_handles os = {11}"
  using workers_outlive_the_coordinator [of 11 12 13 "\<lparr>os_running = Map.empty, os_handles = {}, os_sockets = {}\<rparr>"
      _ "''tailgov_d.exe''" 4000 True]
  by auto

text \<open>C38: The processes start in the roles they are meant for. The command lines built for the workers and
  for both incarnations are taken apart by \<open>main\<close> into exactly the role, port, boot and paths they were
  built from, when the paths of the state and result files have no blanks and the worker's fits the buffer.\<close>

theorem command_lines_are_understood:
  assumes "clean exe" and "plain_word name" and "plain_word host" and "plain_word state" and "plain_word final"
    and "0 \<le> port" and "length (worker_text exe name host port boot) \<le> 1023"
  shows "main_role (argv (worker_cmd exe name host port boot)) = WorkerRole name host port boot \<and>
     main_role (argv (coordinator_cmd exe port state)) = CoordinatorRole port state (state @ ''.partial'') \<and>
     main_role (argv (resume_cmd exe port state final)) = ResumeRole port state (state @ ''.partial'') final"
  using assms
  by (simp add: worker_argv coordinator_argv resume_argv main_role_def command_of_def atoi_number strtoull_number
      eval_nat_numeral)

lemma command_lines_are_understood_witness:
  "main_role (argv (resume_cmd ''C:/Program Files/tailgov_d.exe'' 4000 ''state.bin'' ''result.txt'')) =
     ResumeRole 4000 ''state.bin'' ''state.bin.partial'' ''result.txt''"
proof -
  have "length (worker_text ''C:/Program Files/tailgov_d.exe'' ''A'' ''127.0.0.1'' 4000 1) \<le> 1023" by code_simp
  then show ?thesis
    using command_lines_are_understood [of "''C:/Program Files/tailgov_d.exe''" "''A''" "''127.0.0.1''" "''state.bin''" "''result.txt''" 4000 1]
    by (simp add: clean_def plain_word_def word_char_def)
qed

text \<open>With a blank in the path of the state file the second incarnation gets the wrong files: the driver puts
  quotes only around its own path.\<close>

lemma blank_in_state_path:
  "main_role (argv (resume_cmd ''tailgov_d'' 4000 ''my state'' ''result'')) = ResumeRole 4000 ''my'' ''state'' ''my''"
  by code_simp

end
