(* ===== verification/Reconnect.thy ===== *)
theory Reconnect
  imports Restart
begin

text \<open>
  The order in which workers connect. The second incarnation tells its workers apart by the name in their
  greeting, so their order does not matter; the first one takes the first connection for worker A.
\<close>

subsection \<open>The second incarnation\<close>

definition same_name :: "(HelloInfo \<times> Sock) option \<Rightarrow> (HelloInfo \<times> Sock) option \<Rightarrow> bool" where
  "same_name got1 got2 = (case (got1, got2) of
     (Some (h1, _), Some (h2, _)) \<Rightarrow> h_name h1 = h_name h2 | _ \<Rightarrow> False)"

lemma named_commute: "\<not> same_name got1 got2 \<Longrightarrow> named name got1 got2 = named name got2 got1"
  by (cases got1; cases got2) (auto simp: named_def same_name_def)

subsection \<open>The first incarnation\<close>

lemma greets_other:
  assumes "healthy s" and "incoming s = frame (serialize_hello name wk boot e) @ later" and "length name \<le> 65536"
  shows "fst (greets expected (Some s)) \<longleftrightarrow> name = expected"
proof -
  obtain s' where "read_hello s = (Some \<lparr>h_name = name, h_wk = wk, h_boot = boot, h_epoch = e\<rparr>, s')"
    using read_hello_hello [OF assms(3,1,2)] by blast
  then show ?thesis by (simp add: greets_def)
qed

lemma hello_recorded: "(''SCENARIO_WORKER_HELLO'', fst (greets name_A (fi_a i)) \<and> fst (greets name_B (fi_b i)))
    \<in> set (fst (run_coordinator i path d))"
  by (simp add: run_coordinator_def Let_def split_beta)

lemma failed_result_fails_the_driver:
  assumes "(name, False) \<in> set (fst (run_coordinator i path d))"
  shows "run_driver port s1 s2 (Some i) j earlier path d \<noteq> 0"
proof -
  obtain rs d' g where r: "run_coordinator i path d = (rs, d', g)" by (metis prod.collapse)
  have "set (map fst rs) \<subseteq> set recorded_names" using recorded_by_first [of i path d] by (simp add: r)
  then have "list_ex (contains '': FAIL'') (map outcome_line rs)"
    using any_failing [of rs] assms by (force simp: r list_all_iff)
  then have "exit_code (final_lines (Some (map outcome_line rs)) q) \<noteq> 0" for q
    by (simp add: exit_code_def final_lines_def)
  then show ?thesis by (simp add: run_driver_def run_coordinator_resume_def r split: option.split)
qed

subsection \<open>Properties\<close>

text \<open>Reconnection order is arbitrary, as the comment in the code says: unless both connections greet with
  the same name, a second incarnation does exactly the same whichever of them is accepted first, down to
  its governor and what it sends on each.\<close>

lemma reconnection_order_is_irrelevant:
  assumes "\<not> same_name (accept_one conn1) (accept_one conn2)"
  shows "coordinator_resume clock readable path d conn1 conn2 t1 t2 = coordinator_resume clock readable path d conn2 conn1 t1 t2"
proof -
  have "resume_with conn1 conn2 t1 t2 = resume_with conn2 conn1 t1 t2"
    by (simp add: resume_with_def Let_def named_commute [OF assms] fun_eq_iff)
  then show ?thesis by (simp add: coordinator_resume_def)
qed

text \<open>C36: The first incarnation depends on the order. When the connection it accepts first is worker B's, which
  the two processes it created can bring about, it takes it for A's and refuses the greeting: the result is
  recorded as failed and the driver cannot report success, whatever the workers do afterwards.\<close>

theorem first_incarnation_needs_A_first:
  assumes "fi_a i = Some s" and "healthy s" and "incoming s = frame (serialize_hello name_B wk boot e) @ later"
  shows "(''SCENARIO_WORKER_HELLO'', False) \<in> set (fst (run_coordinator i path d)) \<and>
     run_driver port s1 s2 (Some i) j earlier path d \<noteq> 0"
proof -
  have "\<not> fst (greets name_A (fi_a i))"
    using greets_other [OF assms(2,3), of name_A] by (simp add: assms(1) name_A_def name_B_def)
  then have "(''SCENARIO_WORKER_HELLO'', False) \<in> set (fst (run_coordinator i path d))"
    using hello_recorded [of i path d] by simp
  then show ?thesis using failed_result_fails_the_driver by blast
qed

lemma first_incarnation_needs_A_first_witness:
  "run_driver True True True (Some (no_workers\<lparr>fi_a := Some worker_B_connection\<rparr>)) nobody_reconnects None ''state'' demo_disk \<noteq> 0"
proof -
  have "healthy worker_B_connection" by (simp add: worker_B_connection_def healthy_def frame_def serialize_hello_def put_u8_def)
  moreover have "incoming worker_B_connection = frame (serialize_hello name_B (Id 200) (Id 1) 1) @
      report_stream (reports 1000 2000000 2000000 0 200 worker_B_again)"
    by (simp add: worker_B_connection_def incoming_def)
  ultimately show ?thesis
    using first_incarnation_needs_A_first [of "no_workers\<lparr>fi_a := Some worker_B_connection\<rparr>" worker_B_connection] by simp
qed

end
