(* ===== verification/Kernel.thy ===== *)
theory Kernel
  imports Prelude
begin

text \<open>
  The kernel of tail_cuda_proof.cu and its launch. The threads of a launch run in an order that the device
  chooses; the float operation \<open>alpha * a + b\<close>, which the device may fuse, is a parameter.
\<close>

subsection \<open>One thread\<close>

definition blockDim :: u32 where "blockDim = 256"

text \<open>The unsigned product and sum wrap around, the result is taken as an \<open>int\<close>.\<close>

definition thread_index :: "u32 \<times> u32 \<Rightarrow> int" where
  "thread_index t = sint (fst t * blockDim + snd t)"

text \<open>\<open>None\<close>: a buffer is accessed outside its bounds.\<close>

definition saxpy :: "('f \<Rightarrow> 'f \<Rightarrow> 'f \<Rightarrow> 'f) \<Rightarrow> 'f list \<Rightarrow> 'f list \<Rightarrow> 'f \<Rightarrow> int \<Rightarrow> u32 \<times> u32 \<Rightarrow> 'f list \<Rightarrow> 'f list option" where
  "saxpy mad a b alpha n t out =
     (let i = thread_index t in
      if i < n
      then if 0 \<le> i \<and> i < int (length a) \<and> i < int (length b) \<and> i < int (length out)
           then Some (out[nat i := mad alpha (a ! nat i) (b ! nat i)]) else None
      else Some out)"

subsection \<open>A launch\<close>

definition grid :: "u32 \<Rightarrow> u32" where "grid n = (n + 255) div 256"

definition launched :: "u32 \<Rightarrow> (u32 \<times> u32) set" where
  "launched n = {(block, thread). block < grid n \<and> thread < blockDim}"

fun run_threads :: "('t \<Rightarrow> 'o \<Rightarrow> 'o option) \<Rightarrow> 't list \<Rightarrow> 'o \<Rightarrow> 'o option" where
  "run_threads step [] out = Some out"
| "run_threads step (t # ts) out = Option.bind (step t out) (run_threads step ts)"

subsection \<open>The threads cover the vector\<close>

lemma sint_small:
  fixes w :: u32
  assumes "unat w < 2147483648"
  shows "sint w = int (unat w)"
proof -
  have u: "0 \<le> uint w" "uint w < 2147483648" using assms by (simp_all only: uint_nat)
  have "sint w = (uint w + 2147483648) mod 4294967296 - 2147483648"
    using int_word_sint [of "uint w", where 'a = 32] by simp
  also have "(uint w + 2147483648) mod 4294967296 = uint w + 2147483648" using u by (intro mod_pos_pos_trivial) simp_all
  finally show ?thesis by simp
qed

lemma thread_index_value:
  assumes "t \<in> launched n" and "unat n \<le> 2147483392"
  shows "thread_index t = int (unat (fst t) * 256 + unat (snd t))"
proof -
  have "unat (n + 255) = unat n + 255" using assms(2) by (subst unat_add_lem [THEN iffD1]) simp_all
  then have g: "unat (grid n) = (unat n + 255) div 256" by (simp add: grid_def unat_div)
  have "unat (fst t) < unat (grid n)" "unat (snd t) < 256"
    using assms(1) by (auto simp: launched_def blockDim_def word_less_nat_alt)
  moreover have "unat (grid n) \<le> 8388607" using assms(2) unfolding g by simp
  ultimately have k: "unat (fst t) * 256 + unat (snd t) < 2147483648" by linarith
  then have "unat (fst t * blockDim + snd t) = unat (fst t) * 256 + unat (snd t)"
    by (simp add: blockDim_def unat_word_ariths)
  then show ?thesis using k sint_small [of "fst t * blockDim + snd t"] by (simp only: thread_index_def)
qed

text \<open>Every index of the vector is that of a thread, and no thread has a negative one.\<close>

lemma threads_cover:
  assumes "unat n \<le> 2147483392" and "i < unat n"
  shows "\<exists>t \<in> launched n. thread_index t = int i"
proof -
  let ?t = "(of_nat (i div 256), of_nat (i mod 256)) :: u32 \<times> u32"
  have "unat (n + 255) = unat n + 255" using assms(1) by (subst unat_add_lem [THEN iffD1]) simp_all
  then have g: "unat (grid n) = (unat n + 255) div 256" by (simp add: grid_def unat_div)
  have u: "unat (fst ?t) = i div 256" "unat (snd ?t) = i mod 256" using assms by (simp_all add: unat_of_nat)
  have "i div 256 < (unat n + 255) div 256" using assms(2) by linarith
  then have "?t \<in> launched n" using u g by (simp add: launched_def blockDim_def word_less_nat_alt)
  moreover from this have "thread_index ?t = int (i div 256 * 256 + i mod 256)"
    using thread_index_value [OF _ assms(1), of ?t] by (simp only: u)
  ultimately show ?thesis by (intro bexI [of _ ?t]) simp_all
qed

subsection \<open>Any order\<close>

lemma run_saxpy:
  assumes "\<forall>t \<in> set ts. 0 \<le> thread_index t" and "length a = m" and "length b = m" and "length out = m"
  shows "run_threads (saxpy mad a b alpha (int m)) ts out =
     Some (map (\<lambda>i. if int i \<in> thread_index ` set ts then mad alpha (a ! i) (b ! i) else out ! i) [0..<m])"
  using assms
proof (induction ts arbitrary: out)
  case Nil
  then show ?case using map_nth [of out] by simp
next
  case (Cons t ts)
  let ?i = "nat (thread_index t)" and ?f = "\<lambda>i. mad alpha (a ! i) (b ! i)"
  define next_out where "next_out = (if thread_index t < int m then out[?i := ?f ?i] else out)"
  have step: "saxpy mad a b alpha (int m) t out = Some next_out" and len: "length next_out = m"
    using Cons.prems by (auto simp: saxpy_def Let_def next_out_def)
  have "next_out ! i = (if int i = thread_index t then ?f i else out ! i)" if "i < m" for i
    using Cons.prems(1,4) that by (auto simp: next_out_def nth_list_update)
  then have "map (\<lambda>i. if int i \<in> thread_index ` set ts then ?f i else next_out ! i) [0..<m] =
      map (\<lambda>i. if int i \<in> thread_index ` set (t # ts) then ?f i else out ! i) [0..<m]"
    by (intro map_cong) auto
  moreover have "run_threads (saxpy mad a b alpha (int m)) (t # ts) out = run_threads (saxpy mad a b alpha (int m)) ts next_out"
    by (simp add: step)
  ultimately show ?case using Cons.IH [OF _ Cons.prems(2,3) len] Cons.prems(1) by simp
qed

text \<open>
  The launch computes \<open>alpha * a + b\<close> in every element, whatever order the device runs the threads in:
  no thread accesses a buffer outside its bounds, every element is written, and the result does not
  depend on the order or on what the output buffer held, for every length up to the largest multiple of
  the block size that an index can reach (the program uses 4194304).
\<close>

lemma saxpy_in_any_order:
  assumes "set order = launched n" and "unat n \<le> 2147483392"
    and "length a = unat n" and "length b = unat n" and "length out = unat n"
  shows "run_threads (saxpy mad a b alpha (sint n)) order out = Some (map2 (mad alpha) a b)"
proof -
  have n: "sint n = int (unat n)" using assms(2) by (intro sint_small) simp
  have "\<forall>t \<in> set order. 0 \<le> thread_index t" using thread_index_value [OF _ assms(2)] assms(1) by auto
  moreover have "int i \<in> thread_index ` set order" if "i < unat n" for i
    using threads_cover [OF assms(2) that] assms(1) by force
  then have "map (\<lambda>i. if int i \<in> thread_index ` set order then mad alpha (a ! i) (b ! i) else out ! i) [0..<unat n] =
      map2 (mad alpha) a b"
    using assms(3,4) by (intro nth_equalityI) simp_all
  ultimately show ?thesis using run_saxpy [of order a "unat n" b out mad alpha] assms(3-5) by (simp only: n)
qed

text \<open>A small launch, its one block run backwards.\<close>

definition backwards :: "(u32 \<times> u32) list" where "backwards = rev (map (\<lambda>i. (0, of_nat i)) [0..<256])"

lemma backwards_launched: "set backwards = launched 3"
proof -
  have "grid 3 = 1" by (simp add: grid_def)
  then have "(b, t) \<in> launched 3 \<longleftrightarrow> b = 0 \<and> unat t < 256" for b t
    by (simp add: launched_def blockDim_def word_less_nat_alt unat_eq_zero)
  moreover have "unat (of_nat i :: u32) = i" if "i < 256" for i using that by (simp add: unat_of_nat)
  moreover have "\<exists>x \<in> {0..<256}. t = of_nat x" if "unat t < 256" for t :: u32
    using that by (intro bexI [of _ "unat t"]) simp_all
  ultimately show ?thesis by (auto simp: backwards_def image_iff)
qed

end
