(* ===== verification/Drivers.thy ===== *)
theory Drivers
  imports Persistence Decisions Render
begin

text \<open>
  The programs around the governor: the manual clock, the command line tool \<open>tailctl\<close>, the examples
  and the benchmark, and the evidence and the verdict of the CUDA program. What a program prints is a result of its model; what
  it measures or gets from the operating system is a parameter.
\<close>

subsection \<open>The manual clock (clock.hpp)\<close>

record TestClock = tc_now :: int

definition test_clock :: "int \<Rightarrow> TestClock" where "test_clock start = \<lparr>tc_now = start\<rparr>"
definition test_clock_now_ns :: "TestClock \<Rightarrow> int" where "test_clock_now_ns c = tc_now c"
definition test_clock_set :: "int \<Rightarrow> TestClock \<Rightarrow> TestClock" where "test_clock_set t c = c\<lparr>tc_now := t\<rparr>"
definition test_clock_advance :: "int \<Rightarrow> TestClock \<Rightarrow> TestClock" where
  "test_clock_advance d c = c\<lparr>tc_now := i64 (tc_now c + d)\<rparr>"

text \<open>A clock that nobody sets any more gives the same reading every time.\<close>

definition resting :: "TestClock \<Rightarrow> Clock" where "resting c = (\<lambda>_. test_clock_now_ns c)"

subsection \<open>tailctl\<close>

definition one_service :: "Clock \<Rightarrow> GovernorConfig" where
  "one_service clock = governor_config_default\<lparr>gc_clock := Some clock, gc_epoch := Id 1, gc_service := Id 1,
     gc_service_generation := Id 1, gc_workload := Id 1, gc_workload_generation := Id 1\<rparr>"

definition p99_objective :: "int \<Rightarrow> TailObjective" where
  "p99_objective target = tail_objective_default\<lparr>o_id := Id 1, o_generation := Id 1, o_percentile := percentile 99 1,
     o_target := Duration target,
     o_window := window_config_default\<lparr>wc_window_duration := Duration 5000000000, wc_max_samples := 1000000\<rparr>,
     o_freshness := Duration 3000000000, o_hard := True, o_recovery_fraction := lit 90 100\<rparr>"

definition demo_tool_governor :: Impl where
  "demo_tool_governor =
     snd (register_worker (Id 1) (Id 1) (set_policy (tail_policy_default\<lparr>po_id := Id 1, po_generation := Id 1,
       po_name := ''demo'', po_objectives := [p99_objective 10000000]\<rparr>)
       (governor_new (one_service (resting (test_clock 1000000000))))))"

definition worker_one_request :: "u64 \<Rightarrow> int \<Rightarrow> int \<Rightarrow> PhaseLatency list \<Rightarrow> RequestLatency" where
  "worker_one_request i arrival lat phases = request_latency_default\<lparr>rl_request_id := Id i, rl_request_class := Id 0,
     rl_worker := Id 1, rl_worker_boot := Id 1, rl_epoch := Id 1, rl_service_generation := Id 1,
     rl_workload_generation := Id 1, rl_arrival_ns := arrival, rl_completion_ns := i64 (arrival + lat),
     rl_publication_ns := i64 (arrival + lat), rl_captured_ns := i64 (arrival + lat),
     rl_total_latency := Duration lat, rl_status := SUCCESS, rl_phases := phases\<rparr>"

definition demo_tool_request :: "nat \<Rightarrow> RequestLatency" where
  "demo_tool_request i =
     (let qn = (if i < 180 then 0 else 12000000) in
      worker_one_request (of_nat (i + 1)) (1000000000 + int i * 10) (2000000 + qn)
        ((if qn > 0 then [\<lparr>pl_phase = Phase.QUEUE_WAIT, pl_duration = Duration qn\<rparr>] else []) @
         [\<lparr>pl_phase = Phase.EXECUTION, pl_duration = Duration 2000000\<rparr>]))"

definition decision_text :: "InterventionDecision \<Rightarrow> string" where
  "decision_text d =
     ''would_act: '' @ (if d_would_act d then ''true'' else ''false'') @ nl @
     (if d_would_act d
      then ''authorized: '' @ InterventionType_to_string (inv_type (d_intervention d)) @ '' (status '' @
        InterventionStatus_to_string (inv_status (d_intervention d)) @ '')'' @ nl
      else '''') @
     concat (map (\<lambda>ra. ''rejected: '' @ InterventionType_to_string (ra_type ra) @ '' -> '' @
       Infeasibility_to_string (ra_reason ra) @ nl) (d_rejected_alternatives d))"

text \<open>Exit code and text.\<close>

definition cmd_demo :: "int \<times> string" where
  "cmd_demo =
     (let g = fold (\<lambda>i g. snd (ingest (demo_tool_request i) g)) [0..<200] demo_tool_governor in
      case evaluate (Id 1) g of
        (Inl s, g) \<Rightarrow> (1, ''evaluate failed'' @ nl)
      | (Inr ev, g) \<Rightarrow> (0, render_markdown ev @ (case fst (decide g) of Inl s \<Rightarrow> '''' | Inr d \<Rightarrow> decision_text d)))"

definition cmd_validate :: "Clock \<Rightarrow> bool \<Rightarrow> string \<Rightarrow> Disk \<Rightarrow> int \<times> string" where
  "cmd_validate clock readable path d =
     (case load readable path d (governor_new (governor_config_default\<lparr>gc_clock := Some clock, gc_epoch := Id 1\<rparr>)) of
        (s, g) \<Rightarrow>
          if \<not> is_ok s
          then (1, ''INVALID: '' @ StatusCode_to_string (code s) @ '' ('' @ message s @ '')'' @ nl)
          else (0, ''VALID: '' @ int_to_string (int (length (po_objectives (policy g)))) @ '' objective(s), '' @
            int_to_string (int (length (intervention_history g))) @ '' intervention(s), epoch='' @
            int_to_string (uint (id_value (epoch g))) @ nl))"

definition tailctl :: "Clock \<Rightarrow> bool \<Rightarrow> Disk \<Rightarrow> string list \<Rightarrow> int \<times> string" where
  "tailctl clock readable d args =
     (case args of
        cmd # rest \<Rightarrow>
          if cmd = ''demo'' then cmd_demo
          else (case rest of
            path # _ \<Rightarrow>
              if cmd = ''validate-state'' then cmd_validate clock readable path d
              else (2, ''usage: tailctl demo | validate-state <state-file>'' @ nl)
          | [] \<Rightarrow> (2, ''usage: tailctl demo | validate-state <state-file>'' @ nl))
      | [] \<Rightarrow> (2, ''usage: tailctl demo | validate-state <state-file>'' @ nl))"

subsection \<open>The workload of the examples\<close>

definition example_governor :: "int \<Rightarrow> Impl" where
  "example_governor base = snd (register_worker (Id 1) (Id 1) (governor_new (one_service (resting (test_clock base)))))"

definition example_request :: "nat \<Rightarrow> int \<Rightarrow> int \<Rightarrow> nat \<Rightarrow> nat \<Rightarrow> RequestLatency" where
  "example_request n fast_ns slow_ns slow_count i =
     (let lat = (if i + slow_count \<ge> n then slow_ns else fast_ns);
          qn = (if lat \<ge> slow_ns \<and> slow_ns > 0 \<and> slow_count > 0 then slow_ns - 2000000 else 0) in
      worker_one_request (of_nat (i + 1)) (1000000000 + int i * 10) lat
        ((if qn > 0 then [\<lparr>pl_phase = Phase.QUEUE_WAIT, pl_duration = Duration qn\<rparr>] else []) @
         [\<lparr>pl_phase = Phase.EXECUTION, pl_duration = Duration (lat - qn)\<rparr>]))"

definition feed_simple :: "nat \<Rightarrow> int \<Rightarrow> int \<Rightarrow> nat \<Rightarrow> Impl \<Rightarrow> Impl" where
  "feed_simple n fast_ns slow_ns slow_count g =
     fold (\<lambda>i g. snd (ingest (example_request n fast_ns slow_ns slow_count i) g)) [0..<n] g"

text \<open>The printed lines. \<open>None\<close> is the exception of using a result that is an error.\<close>

definition example_policy :: "TailObjective \<Rightarrow> TailPolicy" where
  "example_policy obj = tail_policy_default\<lparr>po_id := Id 1, po_generation := Id 1, po_objectives := [obj]\<rparr>"

definition example_start :: "TailObjective \<Rightarrow> Impl" where
  "example_start obj = set_policy (example_policy obj) (example_governor 1000000000)"

definition example_run :: "TailObjective \<Rightarrow> nat \<Rightarrow> int \<Rightarrow> int \<Rightarrow> nat \<Rightarrow> TailEvaluation Result" where
  "example_run obj n fast_ns slow_ns slow_count =
     fst (evaluate (Id 1) (feed_simple n fast_ns slow_ns slow_count (example_start obj)))"

definition shown :: "(TailEvaluation \<Rightarrow> string) \<Rightarrow> TailEvaluation Result \<Rightarrow> string option" where
  "shown f r = (case r of Inl s \<Rightarrow> None | Inr ev \<Rightarrow> Some (f ev @ nl))"

text \<open>The conversion \<open>%.1f\<close>.\<close>

definition one_decimal :: "double \<Rightarrow> string" where
  "one_decimal w = (case decode w of
     Nan \<Rightarrow> ''nan''
   | Inf s \<Rightarrow> (if s then ''-inf'' else ''inf'')
   | Fin s m e \<Rightarrow> (let d = rne (10 * m * 2 ^ nat e) (2 ^ nat (- e)) in
       (if s then ''-'' else '''') @ int_to_string (d div 10) @ ''.'' @ int_to_string (d mod 10)))"

definition example_basic :: "string option" where
  "example_basic = shown (\<lambda>e. ''[basic p99] state='' @ TailState_to_string (ev_state e) @ '' observed='' @
     int_to_string (nanos (ev_observed e)) @ ''ns (target=10ms)'') (example_run (p99_objective 10000000) 200 2000000 2000000 0)"

definition example_stable :: "string option" where
  "example_stable = shown (\<lambda>e. ''[stable p50 / bad p99] state='' @ TailState_to_string (ev_state e) @ '' p50='' @
     int_to_string (case ev_p50 e of Some d \<Rightarrow> nanos d | None \<Rightarrow> 0) @ ''ns p99='' @ int_to_string (nanos (ev_observed e)) @
     ''ns amp(p99/p50)='' @ one_decimal (case am_p99_over_p50 (ev_amplification e) of Some r \<Rightarrow> r | None \<Rightarrow> lit (- 1) 1))
     (example_run (p99_objective 10000000) 200 2000000 15000000 10)"

definition example_insufficient :: "string option" where
  "example_insufficient = shown (\<lambda>e. ''[p999 insufficient] samples='' @ int_to_string (int (ev_sample_count e)) @
     '' state='' @ TailState_to_string (ev_state e))
     (example_run ((p99_objective 10000000)\<lparr>o_percentile := percentile 999 10\<rparr>) 10 2000000 2000000 0)"

definition example_queue :: "string option" where
  "example_queue = shown (\<lambda>e. ''[queue tail] cause='' @
     (case ev_causes e of [] \<Rightarrow> ''UNKNOWN'' | c # _ \<Rightarrow> TailCauseCategory_to_string (tc_category c)) @ '' intervention='' @
     InterventionType_to_string (ev_selected_intervention e))
     (example_run (p99_objective 10000000) 200 2000000 15000000 20)"

definition example_stale :: "string option" where
  "example_stale =
     (case evaluate (Id 1) (example_start (p99_objective 10000000)) of
        (Inl s, g) \<Rightarrow> None
      | (Inr ev, g) \<Rightarrow>
          (case authorize (intervention_default\<lparr>inv_type := QUEUE_SHAPE, inv_objective := Id 1,
               inv_objective_generation := Id 1, inv_authority := ev_authority ev, inv_status := PROPOSED\<rparr>) g of
             (Inl s, g) \<Rightarrow> Some ''''
           | (Inr a, g) \<Rightarrow>
               (case fst (dispatch (inv_id a) (set_policy ((example_policy (p99_objective 10000000))\<lparr>po_generation := Id 9\<rparr>) g)) of
                  Inr _ \<Rightarrow> Some (''[stale intervention] dispatch=ok code=-'' @ nl)
                | Inl s \<Rightarrow> Some (''[stale intervention] dispatch=rejected code='' @ StatusCode_to_string (code s) @ nl))))"

definition example_post_action :: "string option" where
  "example_post_action = shown (\<lambda>e. ''[post-action] state before='' @ TailState_to_string (ev_state e) @
     '' intervention='' @ InterventionType_to_string (ev_selected_intervention e) @ '' (ack is not effect)'')
     (example_run (p99_objective 10000000) 200 2000000 15000000 20)"

subsection \<open>The workload of the benchmark\<close>

definition bench_objective :: TailObjective where
  "bench_objective = tail_objective_default\<lparr>o_id := Id 1, o_generation := Id 1, o_percentile := percentile 99 1,
     o_target := Duration 10000000,
     o_window := window_config_default\<lparr>wc_mode := ROLLING_COUNT, wc_fixed_count := 1000000, wc_max_samples := 2000000\<rparr>,
     o_freshness := Duration 3000000000, o_hard := True, o_recovery_fraction := lit 90 100\<rparr>"

definition bench_governor :: Impl where
  "bench_governor = snd (register_worker (Id 1) (Id 1) (set_policy (tail_policy_default\<lparr>po_id := Id 1,
     po_generation := Id 1, po_objectives := [bench_objective]\<rparr>)
     (governor_new (one_service (resting (test_clock 1000000000))))))"

definition bench_request :: "nat \<Rightarrow> RequestLatency" where
  "bench_request i =
     worker_one_request (of_nat (i + 1)) (1000000000 + int i * 10) (if i mod 50 = 0 then 12000000 else 2000000) []"

text \<open>The state that is printed after \<open>n\<close> requests; the measured times are left out.\<close>

definition bench_state :: "nat \<Rightarrow> string" where
  "bench_state n =
     (case fst (evaluate (Id 1) (fold (\<lambda>i g. snd (ingest (bench_request i) g)) [0..<n] bench_governor)) of
        Inl _ \<Rightarrow> ''-'' | Inr ev \<Rightarrow> TailState_to_string (ev_state ev))"

subsection \<open>The CUDA program\<close>

definition cuda_objective :: TailObjective where
  "cuda_objective = tail_objective_default\<lparr>o_id := Id 1, o_generation := Id 1, o_percentile := percentile 99 1,
     o_target := Duration 8000000,
     o_window := window_config_default\<lparr>wc_mode := ROLLING_COUNT, wc_fixed_count := 2000, wc_max_samples := 4000\<rparr>,
     o_freshness := Duration 30000000000, o_hard := True, o_recovery_fraction := lit 90 100\<rparr>"

definition cuda_governor :: Impl where
  "cuda_governor = snd (register_worker (Id 1) (Id 1) (set_policy (tail_policy_default\<lparr>po_id := Id 1,
     po_generation := Id 1, po_name := ''cuda'', po_objectives := [cuda_objective]\<rparr>)
     (governor_new (one_service (resting (test_clock 1000000000))))))"

text \<open>\<open>t0\<close> and \<open>t1\<close> are the readings of \<open>host_now_ms\<close> around a request, \<open>delay\<close> is \<open>tail_delay_ms\<close>.\<close>

definition cuda_request :: "u64 \<Rightarrow> int \<Rightarrow> double \<Rightarrow> double \<Rightarrow> double \<Rightarrow> RequestLatency" where
  "cuda_request i tail_k delay t0 t1 =
     (let is_tail = (tail_k > 0 \<and> i mod word_of_int tail_k = 0);
          lat_ns = fmul (fsub t1 t0) (lit 1000000 1) in
      worker_one_request (i + 1) (i64 (1000000000 + i64_of_u64 i * 10)) (to_i64 lat_ns)
        ((if is_tail \<and> flt (lit 0 1) delay
          then [\<lparr>pl_phase = Phase.QUEUE_WAIT, pl_duration = Duration (to_i64 (fmul delay (lit 1000000 1)))\<rparr>] else []) @
         [\<lparr>pl_phase = Phase.EXECUTION,
           pl_duration = Duration (to_i64 (fmul (fsub (fsub t1 t0) delay) (lit 1000000 1)))\<rparr>]))"

fun cuda_feed :: "u64 \<Rightarrow> int \<Rightarrow> double \<Rightarrow> (double \<times> double) list \<Rightarrow> Impl \<Rightarrow> Impl" where
  "cuda_feed i tail_k delay [] g = g"
| "cuda_feed i tail_k delay ((t0, t1) # ts) g =
     cuda_feed (i + 1) tail_k delay ts (snd (ingest (cuda_request i tail_k delay t0 t1) g))"

record GpuPhase =
  gp_p50 :: double
  gp_p99 :: double
  gp_identified :: bool
  gp_acted :: bool

definition gpu_phase :: "int \<Rightarrow> double \<Rightarrow> (double \<times> double) list \<Rightarrow> GpuPhase" where
  "gpu_phase tail_k delay ts =
     (case fst (evaluate (Id 1) (cuda_feed 0 tail_k delay ts cuda_governor)) of
        Inl _ \<Rightarrow> \<lparr>gp_p50 = lit 0 1, gp_p99 = lit 0 1, gp_identified = False, gp_acted = False\<rparr>
      | Inr ev \<Rightarrow>
          (let identified = (ev_causes ev \<noteq> [] \<and> tc_category (hd (ev_causes ev)) = QUEUEING)
           in \<lparr>gp_p50 = (case ev_p50 ev of Some d \<Rightarrow> fdiv (of_integer (nanos d)) (lit 1000000 1) | None \<Rightarrow> lit 0 1),
               gp_p99 = fdiv (of_integer (nanos (ev_observed ev))) (lit 1000000 1), gp_identified = identified,
               gp_acted = (identified \<and> ev_selected_intervention ev \<noteq> NO_ACTION)\<rparr>))"

text \<open>The exit code for the results of both phases and the free device memory around them.\<close>

definition cuda_verdict :: "GpuPhase \<Rightarrow> GpuPhase \<Rightarrow> u64 \<Rightarrow> u64 \<Rightarrow> int" where
  "cuda_verdict first second free0 free1 =
     (let p99_tail = flt (lit 8 1) (gp_p99 first);
          p99_recovered = (flt (gp_p99 second) (lit 8 1) \<and> flt (gp_p99 second) (gp_p99 first))
      in if gp_identified first \<and> gp_acted first \<and> p99_tail \<and> p99_recovered \<and> free1 \<ge> free0 then 0 else 1)"

subsection \<open>Rounding towards the negative\<close>

lemma rnd_mono: "x \<le> y \<Longrightarrow> rnd x \<le> rnd y"
  using rn_mono [of x y] rn_mono [of "- y" "- x"] rn_nonneg [of "- x"] rn_nonneg [of y]
  by (cases "x < 0"; cases "y < 0") (simp_all add: rnd_def)

lemma rnd_int: "\<bar>n\<bar> \<le> 9007199254740992 \<Longrightarrow> rnd (real_of_int n) = real_of_int n"
  using rn_int [of n] rn_int [of "- n"] by (simp add: rnd_def)

lemma rnd_between:
  assumes "real_of_int a \<le> x" and "x \<le> real_of_int b" and "\<bar>a\<bar> \<le> 9007199254740992" and "\<bar>b\<bar> \<le> 9007199254740992"
  shows "real_of_int a \<le> rnd x" and "rnd x \<le> real_of_int b"
  using rnd_mono [OF assms(1)] rnd_mono [OF assms(2)] by (simp_all add: rnd_int assms(3,4))

lemma to_i64_negative:
  assumes "fp_finite x" and "dval x \<le> - 1"
  shows "to_i64 x < 0"
proof -
  obtain s m e where x: "decode x = Fin s m e" using assms(1) by (auto simp: fp_finite_def is_fin_iff)
  have "0 \<le> m" using canonical_decode [of x] x by auto
  then have "0 \<le> real_of_int m * 2 powi e" by simp
  then have s: s using assms(2) by (simp add: dval_def x split: if_splits)
  then have m: "1 \<le> real_of_int m * 2 powi e" using assms(2) by (simp add: dval_def x)
  have "Binary64.truncate s m e < 0"
  proof (cases "0 \<le> e")
    case True
    have "0 < m" using m \<open>0 \<le> m\<close> by (cases "m = 0") auto
    then show ?thesis using True s by (simp add: Binary64.truncate_def with_sign_def)
  next
    case False
    have "(2 :: real) powi e * 2 ^ nat (- e) = 1" unfolding pow_split [of e, symmetric] using False by simp
    moreover have "1 * 2 ^ nat (- e) \<le> real_of_int m * 2 powi e * 2 ^ nat (- e)"
      using m by (intro mult_right_mono) simp_all
    ultimately have "real_of_int (2 ^ nat (- e)) \<le> real_of_int m" by (simp add: mult.assoc)
    then have "2 ^ nat (- e) \<le> m" by (simp only: of_int_le_iff)
    then have "0 < m div 2 ^ nat (- e)" by (simp add: pos_imp_zdiv_pos_iff)
    then show ?thesis using False s by (simp add: Binary64.truncate_def with_sign_def)
  qed
  then show ?thesis by (simp add: to_i64_def x Let_def i64_min_def)
qed

subsection \<open>Properties\<close>

lemma check_phases_negative:
  "ph \<in> set phs \<Longrightarrow> nanos (pl_duration ph) < 0 \<Longrightarrow> check_phases acc tot phs \<noteq> None"
  by (induction acc tot phs rule: check_phases.induct) (auto simp: Let_def)

text \<open>Milliseconds that are at least one short of the delay become a negative duration, rounding included.\<close>

lemma short_request_negative:
  assumes fin: "fp_finite t0" "fp_finite t1" and D: "1 \<le> D" "D \<le> 4503599627370496"
    and t: "0 \<le> dval t0" "dval t0 \<le> dval t1" "dval t1 - dval t0 \<le> real_of_int (D - 1)"
  shows "to_i64 (fmul (fsub (fsub t1 t0) (lit D 1)) (lit 1000000 1)) < 0"
proof -
  let ?a = "fsub t1 t0" and ?b = "fsub (fsub t1 t0) (lit D 1)"
  note small = pow1023_large
  have "\<bar>dval t1 - dval t0\<bar> < 2 powi 1023" using t D small by linarith
  then have a: "fp_finite ?a" "dval ?a = rnd (dval t1 - dval t0)" using fsub_value fin by blast+
  have a': "0 \<le> dval ?a" "dval ?a \<le> real_of_int (D - 1)"
    using rnd_between [of 0 "dval t1 - dval t0" "D - 1"] t D by (simp_all add: a)
  have d: "fp_finite (lit D 1)" "dval (lit D 1) = real_of_int D" using lit_int [of D] D by simp_all
  have "\<bar>dval ?a - dval (lit D 1)\<bar> < 2 powi 1023" using a' D small by (simp add: d)
  then have b: "fp_finite ?b" "dval ?b = rnd (dval ?a - real_of_int D)" using fsub_value [of ?a "lit D 1"] a(1) d by simp_all
  have b': "real_of_int (- D) \<le> dval ?b" "dval ?b \<le> - 1"
    using rnd_between [of "- D" "dval ?a - real_of_int D" "- 1"] a' D by (simp_all add: b)
  have m: "fp_finite (lit 1000000 1)" "dval (lit 1000000 1) = 1000000" using lit_int [of 1000000] by simp_all
  have "real_of_int D \<le> 4503599627370496" using D by simp
  then have "\<bar>dval ?b * 1000000\<bar> \<le> 4503599627370496000000" using b' by (simp add: abs_mult)
  also have "\<dots> < (2 :: real) powi 1023"
  proof -
    have "(4503599627370496000000 :: real) < 2 powi 80" by simp
    also have "(2 :: real) powi 80 < 2 powi 1023" by (simp only: powi_less_iff)
    finally show ?thesis .
  qed
  finally have c: "fp_finite (fmul ?b (lit 1000000 1))" "dval (fmul ?b (lit 1000000 1)) = rnd (dval ?b * 1000000)"
    using fmul_value [OF b(1) m(1)] by (simp_all add: m)
  have "dval ?b * 1000000 \<le> real_of_int (- 1)" using b' by simp
  then have "rnd (dval ?b * 1000000) \<le> rnd (real_of_int (- 1))" by (rule rnd_mono)
  then have "dval (fmul ?b (lit 1000000 1)) \<le> - 1" using rnd_int [of "- 1"] by (simp add: c)
  then show ?thesis using to_i64_negative [OF c(1)] by simp
qed

text \<open>C35: The evidence that the CUDA program gives of its fast requests is refused. The duration it claims for
  execution is the measured time minus the delay that it adds to tail requests only, so a request that took
  at least a millisecond less than the delay has a negative phase, however the doubles round: ingestion
  refuses it and leaves the governor as it was. With a delay of 15 ms, only tail requests can count.\<close>

theorem cuda_fast_request_is_refused:
  assumes "fp_finite t0" and "fp_finite t1" and "1 \<le> D" and "D \<le> 4503599627370496"
    and "0 \<le> dval t0" and "dval t0 \<le> dval t1" and "dval t1 - dval t0 \<le> real_of_int (D - 1)"
  shows "\<exists>s. ingest (cuda_request i tail_k (lit D 1) t0 t1) g = (s, g) \<and> code s \<noteq> OK"
proof -
  let ?r = "cuda_request i tail_k (lit D 1) t0 t1"
  have "\<lparr>pl_phase = Phase.EXECUTION,
      pl_duration = Duration (to_i64 (fmul (fsub (fsub t1 t0) (lit D 1)) (lit 1000000 1)))\<rparr> \<in> set (rl_phases ?r)"
    by (simp add: cuda_request_def worker_one_request_def Let_def)
  then have "check_phases 0 tot (rl_phases ?r) \<noteq> None" for tot
    using check_phases_negative short_request_negative [OF assms] by fastforce
  then have "\<not> acceptable ?r g" by (auto simp: acceptable_def)
  then show ?thesis by (cases rule: ingest_cases [of ?r g]) auto
qed

lemma cuda_fast_request_is_refused_witness:
  "\<exists>s. ingest (cuda_request 1 20 (lit 15 1) (lit 0 1) (lit 9 1)) cuda_governor = (s, cuda_governor) \<and> code s \<noteq> OK"
  by (rule cuda_fast_request_is_refused) (use lit_int [of 0] lit_int [of 9] in simp_all)

text \<open>The state files that \<open>tailctl\<close> calls valid are exactly those that \<open>load\<close> accepts.\<close>

lemma cmd_validate_exit:
  "fst (cmd_validate clock readable path d) = 0 \<longleftrightarrow>
     is_ok (fst (load readable path d (governor_new (governor_config_default\<lparr>gc_clock := Some clock, gc_epoch := Id 1\<rparr>))))"
  by (simp add: cmd_validate_def split: prod.split)

end
