(* ===== verification/Device.thy ===== *)
theory Device
  imports Kernel Drivers
begin

text \<open>
  The device side of tail_cuda_proof.cu: device memory, the CUDA calls with their error checks, the pipeline
  of one measurement, the busy wait, both phases and the verdict of \<open>main\<close>. Which calls succeed, the
  readings of the clock and the order of the threads are parameters.
\<close>

subsection \<open>State\<close>

datatype Buffer = DA | DB | DOUT

text \<open>
  What is outside the program: whether the \<open>n\<close>-th CUDA call succeeds, the clock, the order in which a
  launch runs its threads, what newly allocated memory holds, the float operations of device and host.
\<close>

record 'f Machine =
  m_ok :: "nat \<Rightarrow> bool"
  m_clock :: "nat \<Rightarrow> double"
  m_order :: "nat \<Rightarrow> (u32 \<times> u32) list"
  m_fresh :: "nat \<Rightarrow> 'f list"
  m_mad :: "'f \<Rightarrow> 'f \<Rightarrow> 'f \<Rightarrow> 'f"
  m_expected :: 'f
  m_differs :: "'f \<Rightarrow> 'f \<Rightarrow> bool"
  m_zero :: 'f
  m_one :: 'f
  m_two :: 'f
  m_alpha :: 'f

text \<open>The buffers the phase has allocated, the host's vector \<open>out\<close>, the calls and clock readings so far, and
  whether a kernel faulted.\<close>

record 'f Device =
  dv_buffers :: "Buffer \<Rightarrow> 'f list option"
  dv_out :: "'f list"
  dv_calls :: nat
  dv_reads :: nat
  dv_faulted :: bool

subsection \<open>CUDA calls\<close>

definition cuda_call :: "'f Machine \<Rightarrow> ('f Device \<Rightarrow> 'f Device) \<Rightarrow> 'f Device \<Rightarrow> bool \<times> 'f Device" where
  "cuda_call m effect d =
     (let d' = d\<lparr>dv_calls := dv_calls d + 1\<rparr> in if m_ok m (dv_calls d) then (True, effect d') else (False, d'))"

definition contents :: "'f Device \<Rightarrow> Buffer \<Rightarrow> 'f list" where
  "contents d b = (case dv_buffers d b of Some xs \<Rightarrow> xs | None \<Rightarrow> [])"

definition cuda_malloc :: "'f Machine \<Rightarrow> Buffer \<Rightarrow> 'f Device \<Rightarrow> bool \<times> 'f Device" where
  "cuda_malloc m b d = cuda_call m (\<lambda>d'. d'\<lparr>dv_buffers := (dv_buffers d')(b \<mapsto> m_fresh m (dv_calls d))\<rparr>) d"

definition cuda_free :: "'f Machine \<Rightarrow> Buffer \<Rightarrow> 'f Device \<Rightarrow> bool \<times> 'f Device" where
  "cuda_free m b = cuda_call m (\<lambda>d. d\<lparr>dv_buffers := (dv_buffers d)(b := None)\<rparr>)"

definition upload :: "'f Machine \<Rightarrow> Buffer \<Rightarrow> 'f list \<Rightarrow> 'f Device \<Rightarrow> bool \<times> 'f Device" where
  "upload m b xs = cuda_call m (\<lambda>d. d\<lparr>dv_buffers := (dv_buffers d)(b \<mapsto> xs)\<rparr>)"

definition download :: "'f Machine \<Rightarrow> 'f Device \<Rightarrow> bool \<times> 'f Device" where
  "download m = cuda_call m (\<lambda>d. d\<lparr>dv_out := contents d DOUT\<rparr>)"

text \<open>A launch returns nothing; an access out of bounds shows when the host synchronises.\<close>

definition launch :: "'f Machine \<Rightarrow> u32 \<Rightarrow> 'f Device \<Rightarrow> bool \<times> 'f Device" where
  "launch m n d = (True,
     case run_threads (saxpy (m_mad m) (contents d DA) (contents d DB) (m_alpha m) (sint n)) (m_order m (dv_calls d))
         (contents d DOUT) of
       Some xs \<Rightarrow> d\<lparr>dv_buffers := (dv_buffers d)(DOUT \<mapsto> xs)\<rparr>
     | None \<Rightarrow> d\<lparr>dv_faulted := True\<rparr>)"

definition cuda_query :: "'f Machine \<Rightarrow> 'f Device \<Rightarrow> bool \<times> 'f Device" where
  "cuda_query m = cuda_call m (\<lambda>d. d)"

definition synchronize :: "'f Machine \<Rightarrow> 'f Device \<Rightarrow> bool \<times> 'f Device" where
  "synchronize m d = (case cuda_call m (\<lambda>d. d) d of (ok, d) \<Rightarrow> (ok \<and> \<not> dv_faulted d, d))"

text \<open>\<open>CUDA_CHECK\<close>: the first call that fails ends the function.\<close>

fun checked :: "('d \<Rightarrow> bool \<times> 'd) list \<Rightarrow> 'd \<Rightarrow> bool \<times> 'd" where
  "checked [] d = (True, d)"
| "checked (f # fs) d = (case f d of (ok, d) \<Rightarrow> if ok then checked fs d else (False, d))"

subsection \<open>One measurement\<close>

definition pipeline_in :: "'f Machine \<Rightarrow> u32 \<Rightarrow> ('f Device \<Rightarrow> bool \<times> 'f Device) list" where
  "pipeline_in m n = [upload m DA (replicate (unat n) (m_one m)), upload m DB (replicate (unat n) (m_two m))]"

definition pipeline_out :: "'f Machine \<Rightarrow> u32 \<Rightarrow> ('f Device \<Rightarrow> bool \<times> 'f Device) list" where
  "pipeline_out m n = [launch m n, cuda_query m, synchronize m, download m]"

definition host_now_ms :: "'f Machine \<Rightarrow> 'f Device \<Rightarrow> double \<times> 'f Device" where
  "host_now_ms m d = (m_clock m (dv_reads d), d\<lparr>dv_reads := dv_reads d + 1\<rparr>)"

text \<open>The number of readings taken when the loop ends; \<open>None\<close> when it never does.\<close>

partial_function (option) busy_wait :: "(nat \<Rightarrow> double) \<Rightarrow> double \<Rightarrow> nat \<Rightarrow> nat option" where
  "busy_wait clock stop k = (if flt (clock k) stop then busy_wait clock stop (k + 1) else Some (k + 1))"

definition is_tail :: "int \<Rightarrow> u64 \<Rightarrow> bool" where
  "is_tail tail_k i \<longleftrightarrow> tail_k > 0 \<and> i mod word_of_int tail_k = 0"

definition delayed :: "'f Machine \<Rightarrow> int \<Rightarrow> double \<Rightarrow> u64 \<Rightarrow> 'f Device \<Rightarrow> 'f Device option" where
  "delayed m tail_k delay i d =
     (if is_tail tail_k i \<and> flt (lit 0 1) delay
      then let (now, d) = host_now_ms m d
           in map_option (\<lambda>k. d\<lparr>dv_reads := k\<rparr>) (busy_wait (m_clock m) (fadd now delay) (dv_reads d))
      else Some d)"

datatype Stop = CudaError | ParityMismatch

definition measure_one :: "'f Machine \<Rightarrow> u32 \<Rightarrow> int \<Rightarrow> double \<Rightarrow> u64 \<Rightarrow> 'f Device \<Rightarrow> ((Stop + (double \<times> double)) \<times> 'f Device) option" where
  "measure_one m n tail_k delay i d =
     (let (t0, d) = host_now_ms m d; (ok, d) = checked (pipeline_in m n) d in
      if \<not> ok then Some (Inl CudaError, d)
      else case delayed m tail_k delay i d of None \<Rightarrow> None
        | Some d \<Rightarrow>
            let (ok, d) = checked (pipeline_out m n) d in
            if \<not> ok then Some (Inl CudaError, d)
            else let (t1, d) = host_now_ms m d in
                 if i = 0 \<and> m_differs m (hd (dv_out d)) (m_expected m) then Some (Inl ParityMismatch, d)
                 else Some (Inr (t0, t1), d))"

fun measure_all :: "'f Machine \<Rightarrow> u32 \<Rightarrow> int \<Rightarrow> double \<Rightarrow> u64 \<Rightarrow> nat \<Rightarrow> 'f Device \<Rightarrow> ((Stop + (double \<times> double) list) \<times> 'f Device) option" where
  "measure_all m n tail_k delay i 0 d = Some (Inr [], d)"
| "measure_all m n tail_k delay i (Suc reps) d =
     (case measure_one m n tail_k delay i d of None \<Rightarrow> None
      | Some (Inl stop, d) \<Rightarrow> Some (Inl stop, d)
      | Some (Inr t, d) \<Rightarrow>
          (case measure_all m n tail_k delay (i + 1) reps d of None \<Rightarrow> None
           | Some (Inl stop, d) \<Rightarrow> Some (Inl stop, d)
           | Some (Inr ts, d) \<Rightarrow> Some (Inr (t # ts), d)))"

subsection \<open>A phase and the program\<close>

text \<open>The outputs that \<open>main\<close> initialises, which a phase that stops early leaves as they are.\<close>

definition unmeasured :: GpuPhase where
  "unmeasured = \<lparr>gp_p50 = lit 0 1, gp_p99 = lit 0 1, gp_identified = False, gp_acted = False\<rparr>"

text \<open>The evidence goes to a governor that the device does not touch, so it is made when all is measured.
  The buffers of a phase that stops early are lost with their pointers: the next phase overwrites them here.\<close>

definition run_phase :: "'f Machine \<Rightarrow> u32 \<Rightarrow> nat \<Rightarrow> nat \<Rightarrow> int \<Rightarrow> double \<Rightarrow> 'f Device \<Rightarrow> ((Stop option \<times> GpuPhase) \<times> 'f Device) option" where
  "run_phase m n warm reps tail_k delay d =
     (let (ok, d) = checked (map (cuda_malloc m) [DA, DB, DOUT]) d in
      if \<not> ok then Some ((Some CudaError, unmeasured), d)
      else let (ok, d) = checked (concat (replicate warm (pipeline_in m n @ pipeline_out m n)))
                 (d\<lparr>dv_out := replicate (unat n) (m_zero m)\<rparr>) in
      if \<not> ok then Some ((Some CudaError, unmeasured), d)
      else case measure_all m n tail_k delay 0 reps d of None \<Rightarrow> None
        | Some (Inl stop, d) \<Rightarrow> Some ((Some stop, unmeasured), d)
        | Some (Inr ts, d) \<Rightarrow>
            let (ok, d) = checked (map (cuda_free m) [DA, DB, DOUT]) d
            in Some ((if ok then None else Some CudaError, gpu_phase tail_k delay ts), d))"

text \<open>\<open>main\<close> does not look at what the phases return; only the mismatch ends the process, with code 3.\<close>

definition cuda_program :: "'f Machine \<Rightarrow> u32 \<Rightarrow> nat \<Rightarrow> nat \<Rightarrow> u64 \<Rightarrow> u64 \<Rightarrow> 'f Device \<Rightarrow> (int \<times> 'f Device) option" where
  "cuda_program m n warm reps free0 free1 d =
     (let (ok, d) = checked [cuda_query m, cuda_query m] d in
      if \<not> ok then Some (1, d)
      else case run_phase m n warm reps 20 (lit 15 1) d of None \<Rightarrow> None
        | Some ((stop1, first), d) \<Rightarrow>
            if stop1 = Some ParityMismatch then Some (3, d)
            else case run_phase m n warm reps 0 (lit 0 1) d of None \<Rightarrow> None
              | Some ((stop2, second), d) \<Rightarrow>
                  if stop2 = Some ParityMismatch then Some (3, d)
                  else let (ok, d) = cuda_query m d
                       in Some (if ok then cuda_verdict first second free0 free1 else 1, d))"

subsection \<open>The busy wait ends\<close>

lemma busy_wait_ends:
  assumes "\<exists>l \<ge> k. \<not> flt (clock l) stop"
  shows "\<exists>r \<ge> k. busy_wait clock stop k = Some (Suc r) \<and> \<not> flt (clock r) stop"
proof -
  obtain l where l: "k \<le> l" "\<not> flt (clock l) stop" using assms by blast
  from l(1) show ?thesis
  proof (induction "l - k" arbitrary: k)
    case 0
    then show ?case using l(2) by (subst busy_wait.simps) simp
  next
    case (Suc x)
    have "x = l - Suc k" and "Suc k \<le> l" using Suc.hyps(2) Suc.prems by simp_all
    from Suc.hyps(1) [OF this] obtain r where r: "Suc k \<le> r" "busy_wait clock stop (Suc k) = Some (Suc r)" "\<not> flt (clock r) stop"
      by blast
    show ?case
    proof (cases "flt (clock k) stop")
      case True
      then show ?thesis using r by (intro exI [of _ r]) (subst busy_wait.simps, simp)
    next
      case False
      then show ?thesis by (intro exI [of _ k]) (subst busy_wait.simps, simp)
    qed
  qed
qed

subsection \<open>Machines on which every call succeeds\<close>

text \<open>Every call succeeds, every launch runs its threads in some order, new memory has the size asked for.\<close>

definition works :: "'f Machine \<Rightarrow> u32 \<Rightarrow> bool" where
  "works m n \<longleftrightarrow> (\<forall>k. m_ok m k) \<and> (\<forall>k. set (m_order m k) = launched n) \<and>
     (\<forall>k. length (m_fresh m k) = unat n) \<and> unat n \<le> 2147483392"

text \<open>The buffers are there, no kernel has faulted, and \<open>r\<close> readings of the clock were taken.\<close>

definition ready :: "u32 \<Rightarrow> nat \<Rightarrow> 'f Device \<Rightarrow> bool" where
  "ready n r d \<longleftrightarrow> (\<forall>b. dv_buffers d b \<noteq> None \<and> length (contents d b) = unat n) \<and> \<not> dv_faulted d \<and> dv_reads d = r"

definition computed :: "'f Machine \<Rightarrow> u32 \<Rightarrow> 'f list" where
  "computed m n = replicate (unat n) (m_mad m (m_alpha m) (m_one m) (m_two m))"

lemma checked_append:
  "checked (fs @ gs) d = (case checked fs d of (ok, d) \<Rightarrow> if ok then checked gs d else (False, d))"
  by (induction fs arbitrary: d) (simp_all split: prod.split)

lemma all_buffers: "(\<forall>b. P b) \<longleftrightarrow> P DA \<and> P DB \<and> P DOUT"
  by (metis Buffer.exhaust)

lemma mallocs_ready:
  assumes "works m n" and "\<not> dv_faulted d"
  obtains d' where "checked (map (cuda_malloc m) [DA, DB, DOUT]) d = (True, d')" and "ready n (dv_reads d) d'"
  using assms
  by (simp add: works_def cuda_malloc_def cuda_call_def Let_def ready_def contents_def all_buffers)

lemma pipeline_in_ready:
  assumes "works m n" and "ready n r d"
  obtains d' where "checked (pipeline_in m n) d = (True, d')" and "ready n r d'"
    and "contents d' DA = replicate (unat n) (m_one m)" and "contents d' DB = replicate (unat n) (m_two m)"
  using assms
  by (simp add: works_def pipeline_in_def upload_def cuda_call_def Let_def ready_def contents_def all_buffers)

lemma pipeline_out_ready:
  assumes "works m n" and "ready n r d"
    and "contents d DA = replicate (unat n) (m_one m)" and "contents d DB = replicate (unat n) (m_two m)"
  obtains d' where "checked (pipeline_out m n) d = (True, d')" and "ready n r d'" and "dv_out d' = computed m n"
proof -
  have "run_threads (saxpy (m_mad m) (contents d DA) (contents d DB) (m_alpha m) (sint n)) (m_order m (dv_calls d))
      (contents d DOUT) = Some (computed m n)"
    using saxpy_in_any_order [of "m_order m (dv_calls d)" n "contents d DA" "contents d DB" "contents d DOUT"] assms
    by (simp add: works_def ready_def computed_def zip_replicate)
  then show thesis
    using assms that
    by (simp add: works_def pipeline_out_def launch_def cuda_query_def synchronize_def download_def cuda_call_def
        Let_def ready_def contents_def all_buffers computed_def)
qed

lemma warm_up_ready:
  assumes "works m n" and "ready n r d"
  shows "\<exists>d'. checked (concat (replicate warm (pipeline_in m n @ pipeline_out m n))) d = (True, d') \<and> ready n r d'"
  using assms(2)
proof (induction warm arbitrary: d)
  case (Suc warm)
  obtain d1 where d1: "checked (pipeline_in m n) d = (True, d1)" "ready n r d1"
    "contents d1 DA = replicate (unat n) (m_one m)" "contents d1 DB = replicate (unat n) (m_two m)"
    by (rule pipeline_in_ready [OF assms(1) Suc.prems])
  obtain d2 where "checked (pipeline_out m n) d1 = (True, d2)" "ready n r d2"
    by (rule pipeline_out_ready [OF assms(1) d1(2-4)])
  then show ?case using Suc.IH [of d2] d1(1) by (simp add: checked_append)
qed simp

subsection \<open>What is measured\<close>

text \<open>The clock gets anywhere: whatever it showed, at some later reading \<open>delay\<close> has passed.\<close>

definition passes :: "'f Machine \<Rightarrow> double \<Rightarrow> bool" where
  "passes m delay \<longleftrightarrow> (\<forall>j k. \<exists>l \<ge> k. \<not> flt (m_clock m l) (fadd (m_clock m j) delay))"

text \<open>Two readings of the clock, the second one later, between which a request that is to be delayed saw the delay pass.\<close>

definition timed :: "'f Machine \<Rightarrow> int \<Rightarrow> double \<Rightarrow> u64 \<Rightarrow> double \<times> double \<Rightarrow> bool" where
  "timed m tail_k delay i t \<longleftrightarrow> (\<exists>a b. a < b \<and> t = (m_clock m a, m_clock m b) \<and>
     (is_tail tail_k i \<and> flt (lit 0 1) delay \<longrightarrow>
       (\<exists>j l. a < j \<and> j < l \<and> l < b \<and> \<not> flt (m_clock m l) (fadd (m_clock m j) delay))))"

lemma delayed_ready:
  assumes "ready n r d" and "flt (lit 0 1) delay \<Longrightarrow> passes m delay"
  obtains d' l where "delayed m tail_k delay i d = Some d'" and "r \<le> l" and "ready n l d'" and "contents d' = contents d"
    and "is_tail tail_k i \<and> flt (lit 0 1) delay \<longrightarrow>
      Suc r < l \<and> \<not> flt (m_clock m (l - 1)) (fadd (m_clock m r) delay)"
proof (cases "is_tail tail_k i \<and> flt (lit 0 1) delay")
  case True
  then have "\<exists>l \<ge> Suc r. \<not> flt (m_clock m l) (fadd (m_clock m r) delay)" using assms(2) by (simp add: passes_def)
  then obtain q where q: "Suc r \<le> q" "busy_wait (m_clock m) (fadd (m_clock m r) delay) (Suc r) = Some (Suc q)"
    "\<not> flt (m_clock m q) (fadd (m_clock m r) delay)"
    using busy_wait_ends by blast
  have "dv_reads d = r" using assms(1) by (simp add: ready_def)
  then have "delayed m tail_k delay i d = Some (d\<lparr>dv_reads := Suc q\<rparr>)"
    using True q(2) by (simp add: delayed_def host_now_ms_def)
  then show thesis
    by (rule that) (use assms(1) q in \<open>auto simp: ready_def contents_def fun_eq_iff\<close>)
next
  case False
  then show thesis using that [of d r] assms(1) by (auto simp: delayed_def)
qed

lemma measure_one_ready:
  assumes "works m n" and "0 < unat n" and "\<not> m_differs m (m_mad m (m_alpha m) (m_one m) (m_two m)) (m_expected m)"
    and "flt (lit 0 1) delay \<Longrightarrow> passes m delay" and "ready n r d"
  obtains t d' r' where "measure_one m n tail_k delay i d = Some (Inr t, d')" and "timed m tail_k delay i t"
    and "ready n r' d'" and "dv_out d' = computed m n"
proof -
  let ?d = "d\<lparr>dv_reads := Suc r\<rparr>"
  have r: "dv_reads d = r" and d: "ready n (Suc r) ?d" using assms(5) by (simp_all add: ready_def contents_def)
  obtain d1 where d1: "checked (pipeline_in m n) ?d = (True, d1)" "ready n (Suc r) d1"
    "contents d1 DA = replicate (unat n) (m_one m)" "contents d1 DB = replicate (unat n) (m_two m)"
    by (rule pipeline_in_ready [OF assms(1) d])
  obtain d2 l where d2: "delayed m tail_k delay i d1 = Some d2" "Suc r \<le> l" "ready n l d2" "contents d2 = contents d1"
    and w: "is_tail tail_k i \<and> flt (lit 0 1) delay \<longrightarrow>
      Suc (Suc r) < l \<and> \<not> flt (m_clock m (l - 1)) (fadd (m_clock m (Suc r)) delay)"
    by (rule delayed_ready [OF d1(2) assms(4), where tail_k = tail_k and i = i])
  obtain d3 where d3: "checked (pipeline_out m n) d2 = (True, d3)" "ready n l d3" "dv_out d3 = computed m n"
    by (rule pipeline_out_ready [OF assms(1) d2(3)]) (simp_all add: d2(4) d1(3,4))
  have "hd (computed m n) = m_mad m (m_alpha m) (m_one m) (m_two m)" using assms(2) by (simp add: computed_def)
  then have "measure_one m n tail_k delay i d =
      Some (Inr (m_clock m r, m_clock m l), d3\<lparr>dv_reads := Suc l\<rparr>)"
    using d3(2) assms(3) by (simp add: measure_one_def host_now_ms_def r d1(1) d2(1) d3(1,3) ready_def Let_def)
  moreover have "timed m tail_k delay i (m_clock m r, m_clock m l)"
    unfolding timed_def
  proof (intro exI conjI impI)
    assume t: "is_tail tail_k i \<and> flt (lit 0 1) delay"
    show "r < Suc r" "Suc r < l - 1" "l - 1 < l" "\<not> flt (m_clock m (l - 1)) (fadd (m_clock m (Suc r)) delay)"
      using w t by auto
  qed (use d2(2) in auto)
  moreover have "ready n (Suc l) (d3\<lparr>dv_reads := Suc l\<rparr>)" using d3(2) by (simp add: ready_def contents_def)
  ultimately show thesis using that d3(3) by simp
qed

lemma measure_all_ready:
  assumes "works m n" and "0 < unat n" and "\<not> m_differs m (m_mad m (m_alpha m) (m_one m) (m_two m)) (m_expected m)"
    and "flt (lit 0 1) delay \<Longrightarrow> passes m delay" and "ready n r d"
  shows "\<exists>ts d' r'. measure_all m n tail_k delay i reps d = Some (Inr ts, d') \<and> length ts = reps \<and>
     (\<forall>k < reps. timed m tail_k delay (i + of_nat k) (ts ! k)) \<and> ready n r' d' \<and> (0 < reps \<longrightarrow> dv_out d' = computed m n)"
  using assms(5)
proof (induction reps arbitrary: i r d)
  case (Suc reps)
  obtain t d1 r1 where o: "measure_one m n tail_k delay i d = Some (Inr t, d1)" "timed m tail_k delay i t"
    "ready n r1 d1" "dv_out d1 = computed m n"
    by (rule measure_one_ready [OF assms(1-4) Suc.prems])
  obtain ts d2 r2 where rest: "measure_all m n tail_k delay (i + 1) reps d1 = Some (Inr ts, d2)" "length ts = reps"
    "\<forall>k < reps. timed m tail_k delay (i + 1 + of_nat k) (ts ! k)" "ready n r2 d2" "0 < reps \<longrightarrow> dv_out d2 = computed m n"
    using Suc.IH [OF o(3), of "i + 1"] by blast
  have "timed m tail_k delay (i + of_nat k) ((t # ts) ! k)" if "k < Suc reps" for k
    using that o(2) rest(3) by (cases k) (simp_all add: add.assoc)
  moreover have "dv_out d2 = computed m n" using o(4) rest(1,5) by (cases reps) auto
  ultimately show ?case using o(1) rest by (intro exI [of _ "t # ts"] exI [of _ d2] exI [of _ r2]) simp
qed auto

lemma frees_leave_nothing:
  assumes "works m n"
  shows "\<exists>d'. checked (map (cuda_free m) [DA, DB, DOUT]) d = (True, d') \<and> dv_buffers d' = (\<lambda>_. None) \<and>
     dv_out d' = dv_out d \<and> dv_faulted d' = dv_faulted d"
  using assms Buffer.exhaust by (auto simp: works_def cuda_free_def cuda_call_def Let_def fun_eq_iff)

lemma run_phase_ready:
  assumes "works m n" and "0 < unat n" and "\<not> m_differs m (m_mad m (m_alpha m) (m_one m) (m_two m)) (m_expected m)"
    and "flt (lit 0 1) delay \<Longrightarrow> passes m delay" and "\<not> dv_faulted d"
  shows "\<exists>ts d'. run_phase m n warm reps tail_k delay d = Some ((None, gpu_phase tail_k delay ts), d') \<and> length ts = reps \<and>
     (\<forall>k < reps. timed m tail_k delay (of_nat k) (ts ! k)) \<and> dv_buffers d' = (\<lambda>_. None) \<and> \<not> dv_faulted d' \<and>
     (0 < reps \<longrightarrow> dv_out d' = computed m n)"
proof -
  obtain d1 where d1: "checked (map (cuda_malloc m) [DA, DB, DOUT]) d = (True, d1)" "ready n (dv_reads d) d1"
    by (rule mallocs_ready [OF assms(1,5)])
  have "ready n (dv_reads d) (d1\<lparr>dv_out := replicate (unat n) (m_zero m)\<rparr>)" using d1(2) by (simp add: ready_def contents_def)
  then obtain d2 where d2: "checked (concat (replicate warm (pipeline_in m n @ pipeline_out m n)))
      (d1\<lparr>dv_out := replicate (unat n) (m_zero m)\<rparr>) = (True, d2)" "ready n (dv_reads d) d2"
    using warm_up_ready [OF assms(1)] by blast
  obtain ts d3 r where d3: "measure_all m n tail_k delay 0 reps d2 = Some (Inr ts, d3)" "length ts = reps"
    "\<forall>k < reps. timed m tail_k delay (of_nat k) (ts ! k)" "ready n r d3" "0 < reps \<longrightarrow> dv_out d3 = computed m n"
    using measure_all_ready [OF assms(1-4) d2(2), of tail_k 0 reps] by auto
  obtain d4 where d4: "checked (map (cuda_free m) [DA, DB, DOUT]) d3 = (True, d4)" "dv_buffers d4 = (\<lambda>_. None)"
    "dv_out d4 = dv_out d3" "dv_faulted d4 = dv_faulted d3"
    using frees_leave_nothing [OF assms(1)] by blast
  have "run_phase m n warm reps tail_k delay d = Some ((None, gpu_phase tail_k delay ts), d4)"
    unfolding run_phase_def Let_def d1(1) d2(1) d3(1) d4(1) prod.case by (simp add: d2(1) d3(1) d4(1) del: list.map)
  then show ?thesis using d3 d4 by (intro exI [of _ ts] exI [of _ d4]) (simp add: ready_def)
qed

subsection \<open>Properties\<close>

text \<open>C39: The CUDA program ends and judges what it measured. When every call succeeds, whatever order the
  device runs the threads of each launch in, device and host agree on the first element and the clock gets
  past every delay, each phase times every one
  of its requests by two readings, with the delay between them for the requests that are to be delayed; the
  exit code is the verdict over the evidence of these times. At the end every element of the output is
  \<open>alpha * a + b\<close>, no access was out of bounds and all device memory is freed.\<close>

theorem cuda_program_measures:
  assumes "works m n" and "0 < unat n" and "0 < reps" and "passes m (lit 15 1)" and "\<not> dv_faulted d"
    and "\<not> m_differs m (m_mad m (m_alpha m) (m_one m) (m_two m)) (m_expected m)"
  shows "\<exists>ts1 ts2 d'. cuda_program m n warm reps free0 free1 d =
       Some (cuda_verdict (gpu_phase 20 (lit 15 1) ts1) (gpu_phase 0 (lit 0 1) ts2) free0 free1, d') \<and>
     length ts1 = reps \<and> length ts2 = reps \<and>
     (\<forall>k < reps. timed m 20 (lit 15 1) (of_nat k) (ts1 ! k) \<and> timed m 0 (lit 0 1) (of_nat k) (ts2 ! k)) \<and>
     dv_out d' = computed m n \<and> dv_buffers d' = (\<lambda>_. None) \<and> \<not> dv_faulted d'"
proof -
  have query: "\<exists>d'. cuda_query m d = (True, d') \<and> dv_buffers d' = dv_buffers d \<and> dv_out d' = dv_out d \<and>
      dv_faulted d' = dv_faulted d" for d
    using assms(1) by (simp add: works_def cuda_query_def cuda_call_def)
  obtain d1 where d1: "cuda_query m d = (True, d1)" "dv_faulted d1 = dv_faulted d" using query by blast
  obtain d2 where d2: "cuda_query m d1 = (True, d2)" "dv_faulted d2 = dv_faulted d1" using query by blast
  obtain ts1 d3 where r1: "run_phase m n warm reps 20 (lit 15 1) d2 = Some ((None, gpu_phase 20 (lit 15 1) ts1), d3)"
    "length ts1 = reps" "\<forall>k < reps. timed m 20 (lit 15 1) (of_nat k) (ts1 ! k)" "\<not> dv_faulted d3"
    using run_phase_ready [OF assms(1,2,6), of "lit 15 1" d2 warm reps 20] assms(4,5) d1(2) d2(2) by auto
  have "\<not> flt (lit 0 1) (lit 0 1)" by code_simp
  then obtain ts2 d4 where r2: "run_phase m n warm reps 0 (lit 0 1) d3 = Some ((None, gpu_phase 0 (lit 0 1) ts2), d4)"
    "length ts2 = reps" "\<forall>k < reps. timed m 0 (lit 0 1) (of_nat k) (ts2 ! k)" "dv_buffers d4 = (\<lambda>_. None)"
    "\<not> dv_faulted d4" "dv_out d4 = computed m n"
    using run_phase_ready [OF assms(1,2,6), of "lit 0 1" d3 warm reps 0] r1(4) assms(3) by auto
  obtain d5 where d5: "cuda_query m d4 = (True, d5)" "dv_buffers d5 = dv_buffers d4" "dv_out d5 = dv_out d4"
    "dv_faulted d5 = dv_faulted d4"
    using query by blast
  have "cuda_program m n warm reps free0 free1 d =
      Some (cuda_verdict (gpu_phase 20 (lit 15 1) ts1) (gpu_phase 0 (lit 0 1) ts2) free0 free1, d5)"
    by (simp add: cuda_program_def d1(1) d2(1) r1(1) r2(1) d5(1))
  then show ?thesis using r1 r2 d5 by (intro exI [of _ ts1] exI [of _ ts2] exI [of _ d5]) simp
qed

text \<open>Three elements of integers, and a clock that advances by 20 ms up to a last reading.\<close>

definition last_reading :: int where "last_reading = 1152921504606846976"

definition demo_machine :: "int Machine" where
  "demo_machine = \<lparr>m_ok = (\<lambda>_. True), m_clock = (\<lambda>k. lit (if k < 4 then 20 * int k else last_reading) 1), m_order = (\<lambda>_. backwards),
     m_fresh = (\<lambda>_. [7, 8, 9]), m_mad = (\<lambda>s x y. s * x + y), m_expected = 5, m_differs = (\<noteq>), m_zero = 0, m_one = 1,
     m_two = 2, m_alpha = 3\<rparr>"

definition no_device :: "int Device" where
  "no_device = \<lparr>dv_buffers = (\<lambda>_. None), dv_out = [], dv_calls = 0, dv_reads = 0, dv_faulted = False\<rparr>"

lemma demo_machine_works: "works demo_machine 3"
  by (simp add: works_def demo_machine_def backwards_launched)

lemma demo_machine_passes: "passes demo_machine (lit 15 1)"
proof -
  let ?t = "lit last_reading 1"
  have "\<not> flt ?t (fadd (lit 0 1) (lit 15 1))" "\<not> flt ?t (fadd (lit 20 1) (lit 15 1))"
    "\<not> flt ?t (fadd (lit 40 1) (lit 15 1))" "\<not> flt ?t (fadd (lit 60 1) (lit 15 1))"
    and g: "\<not> flt ?t (fadd ?t (lit 15 1))"
    by code_simp+
  then have f: "\<forall>j \<in> {0, 1, 2, 3 :: nat}. \<not> flt ?t (fadd (lit (20 * int j) 1) (lit 15 1))" by simp
  have "\<not> flt (m_clock demo_machine (max k 4)) (fadd (m_clock demo_machine j) (lit 15 1))" for j k
  proof (cases "j < 4")
    case True
    then have "j \<in> {0, 1, 2, 3}" by auto
    from bspec [OF f this] show ?thesis using True by (simp add: demo_machine_def)
  next
    case False
    then show ?thesis using g by (simp add: demo_machine_def)
  qed
  then show ?thesis unfolding passes_def by (meson max.cobounded1)
qed

lemma cuda_program_measures_witness:
  "\<exists>c d. cuda_program demo_machine 3 1 2 100 100 no_device = Some (c, d) \<and> dv_out d = [5, 5, 5] \<and> dv_buffers d = (\<lambda>_. None)"
proof -
  have c: "computed demo_machine 3 = [5, 5, 5]" by code_simp
  have "\<not> dv_faulted no_device" "\<not> m_differs demo_machine
      (m_mad demo_machine (m_alpha demo_machine) (m_one demo_machine) (m_two demo_machine)) (m_expected demo_machine)"
    by (simp_all add: no_device_def demo_machine_def)
  then show ?thesis
    using cuda_program_measures [OF demo_machine_works _ _ demo_machine_passes, of 2 no_device 1 100 100] c by fastforce
qed

text \<open>C40: A second phase that cannot even allocate its memory counts as a recovery. Its outputs stay zero and
  its return value is ignored, so the program reports success exactly when the first phase saw a tail, named
  queueing as its cause and suggested an intervention, and the free memory did not shrink.\<close>

theorem failed_second_phase_counts_as_recovered:
  assumes "checked [cuda_query m, cuda_query m] d = (True, d1)"
    and "run_phase m n warm reps 20 (lit 15 1) d1 = Some ((None, first), d2)"
    and "\<not> m_ok m (dv_calls d2)" and "m_ok m (dv_calls d2 + 1)"
  shows "\<exists>d'. cuda_program m n warm reps free0 free1 d = Some (if gp_identified first \<and> gp_acted first \<and>
     flt (lit 8 1) (gp_p99 first) \<and> free0 \<le> free1 then 0 else 1, d')"
proof -
  let ?d = "d2\<lparr>dv_calls := dv_calls d2 + 1\<rparr>"
  have "run_phase m n warm reps 0 (lit 0 1) d2 = Some ((Some CudaError, unmeasured), ?d)"
    using assms(3) by (simp add: run_phase_def cuda_malloc_def cuda_call_def)
  moreover have "cuda_query m ?d = (True, ?d\<lparr>dv_calls := dv_calls d2 + 2\<rparr>)"
    using assms(4) by (simp add: cuda_query_def cuda_call_def)
  moreover have "cuda_verdict first unmeasured free0 free1 = (if gp_identified first \<and> gp_acted first \<and>
     flt (lit 8 1) (gp_p99 first) \<and> free0 \<le> free1 then 0 else 1)"
  proof -
    have "flt (lit 0 1) (lit 8 1)" by code_simp
    moreover have "flt (lit 0 1) x" if "flt (lit 8 1) x" for x
    proof (cases "fp_finite x")
      case True
      then show ?thesis using that lit_int [of 8] lit_int [of 0] flt_value [of "lit 8 1" x] flt_value [of "lit 0 1" x] by simp
    next
      case False
      have "decode (lit 8 1) = Fin False 4503599627370496 (- 49)" "decode (lit 0 1) = Fin False 0 (- 1074)" by code_simp+
      then show ?thesis using that False by (auto simp: flt_def fp_finite_def is_fin_iff split: fval.splits)
    qed
    ultimately show ?thesis by (auto simp: cuda_verdict_def unmeasured_def)
  qed
  ultimately show ?thesis unfolding cuda_program_def assms(1) by (simp add: assms(2))
qed

lemma failed_second_phase_counts_as_recovered_witness:
  "\<exists>d'. cuda_program (demo_machine\<lparr>m_ok := \<lambda>k. k \<noteq> 8\<rparr>) 3 0 0 100 100 no_device =
     Some (if gp_identified (gpu_phase 20 (lit 15 1) []) \<and> gp_acted (gpu_phase 20 (lit 15 1) []) \<and>
       flt (lit 8 1) (gp_p99 (gpu_phase 20 (lit 15 1) [])) then 0 else 1, d')"
proof -
  let ?m = "demo_machine\<lparr>m_ok := \<lambda>k. k \<noteq> 8\<rparr>" and ?d = "no_device\<lparr>dv_calls := 2\<rparr>"
  let ?d2 = "?d\<lparr>dv_out := replicate (unat (3 :: u32)) 0, dv_calls := 8\<rparr>"
  have start: "checked [cuda_query ?m, cuda_query ?m] no_device = (True, ?d)"
    by (simp add: cuda_query_def cuda_call_def no_device_def)
  have "run_phase ?m 3 0 0 20 (lit 15 1) ?d = Some ((None, gpu_phase 20 (lit 15 1) []), ?d2)"
    by (simp add: run_phase_def cuda_malloc_def cuda_free_def cuda_call_def no_device_def demo_machine_def fun_eq_iff)
  from failed_second_phase_counts_as_recovered [OF start this, of 100 100] show ?thesis by simp
qed

end
