(* ===== verification/Spec2Isabelle.thy ===== *)
theory Spec2Isabelle
  imports History Processes Reconnect Device
begin

text \<open>
  Tail Governor: a model of the C++ runtime that governs tail latency, and what is proved of it.

  \<^bold>\<open>The program.\<close> A governor (\<open>TailGovernor\<close>, src/include/tailgovernor/governor.hpp and
  src/src/governor.cpp) takes completed-request records of registered workers as evidence, keeps them
  in one window per objective and request class, evaluates the objectives of its policy from exact
  quantiles, names the causes of a slow tail, selects an intervention, and lets it be authorised,
  dispatched, acknowledged and judged under an authority that every change of epoch or generation
  fences. Its state survives in a checksummed file. src/distributed/tailgov_d.cpp runs a coordinator
  with a governor and worker processes that report over framed messages, kills and restarts them, and
  checks that stale evidence and stale decisions are refused. tailctl, the examples, the benchmark and
  the CUDA program drive a governor with made-up or measured requests.

  \<^bold>\<open>The theories, in the order of the code.\<close>
    \<^item> \<open>Prelude\<close>: collections, \<open>std::int64_t\<close> (an \<open>int\<close> in its range; \<open>i64\<close> wraps), sorting with a
      strict weak order (locale \<open>strict_weak_order\<close>). \<open>StdMap\<close>: \<open>std::map\<close> as a list with ascending keys
      (locales \<open>finite_map\<close>, \<open>ordered_map\<close>). \<open>Binary64\<close>, \<open>Rounding\<close>: \<open>double\<close> as its 64 bits, with every
      operation correctly rounded, and what these operations mean on the reals.
    \<^item> Headers under src/include/tailgovernor: \<open>Status\<close> (status.hpp), \<open>Identity\<close> (identity.hpp),
      \<open>Durations\<close> (duration.hpp), \<open>Quantile\<close> (quantile.hpp), \<open>Latency\<close> (latency.hpp), \<open>Window\<close>
      (window.hpp), \<open>Objective\<close> (objective.hpp), \<open>Causes\<close> (cause.hpp), \<open>Authority\<close> (authority.hpp),
      \<open>TailStates\<close> (tail_state.hpp), \<open>Interventions\<close> (intervention.hpp), \<open>Evaluation\<close> (evaluation.hpp).
      A struct is a record with the prefixed names of its fields, an enum class a datatype with its
      enumerators and, where the code casts integers to it, one more constructor for every other code.
    \<^item> src/src/governor.cpp: \<open>Bytes\<close>, \<open>Crc32\<close>, \<open>Enums\<close>, \<open>Codecs\<close> (Writer, Reader, checksum, enum casts,
      fields), \<open>Decompose\<close> (\<open>decompose_tail\<close>), \<open>Selection\<close> (feasibility, effects, ranking),
      \<open>GovernorState\<close> (\<open>Impl\<close> as a record, setters, \<open>advance_epoch\<close>, \<open>ingest\<close>), \<open>Evaluate\<close> (\<open>evaluate\<close>,
      \<open>evaluate_all\<close>, \<open>inspect_window\<close>), \<open>Lifecycle\<close> (\<open>authorize\<close> to \<open>supersede\<close>), \<open>Decisions\<close>
      (\<open>decide\<close>), \<open>Persistence\<close> (\<open>save\<close>, \<open>load\<close>), \<open>Render\<close> (\<open>TailExplanation\<close>), \<open>Runs\<close>: every public
      operation as a step, the reachable states and their invariants, and \<open>History\<close>: what a run leaves behind.
    \<^item> src/distributed/tailgov_d.cpp: \<open>Wire\<close> (frames over a socket), \<open>Messages\<close> (greeting, evidence,
      requests), \<open>Worker\<close> (the worker process), \<open>Coordinator\<close> (its governor, the scenarios, the second
      incarnation), \<open>Restart\<close> (the first incarnation, result file, driver, command line), \<open>Reconnect\<close> (the
      order in which workers connect), \<open>Processes\<close> (open sockets, running processes and the handles on them,
      command lines and how \<open>main\<close> takes them apart).
    \<^item> \<open>Drivers\<close>: clock.hpp's test clock, src/tools/tailctl.cpp, src/examples/tg_examples.cpp,
      src/benchmarks/bench.cpp and the host side of src/cuda/tail_cuda_proof.cu. \<open>Kernel\<close>: the kernel of that
      program and its launch, whose threads run in any order. \<open>Device\<close>: its CUDA calls, phases and verdict.

  \<^bold>\<open>How state and effects are kept.\<close> An operation takes the state \<open>Impl\<close> last and returns it, changed or
  not, after its result; an error is \<open>Inl\<close> with the code's \<open>Status\<close>, and every early return is a branch.
  A clock is the sequence of its readings, and \<open>g_reads\<close> counts how many were taken. A socket holds the
  segments that will arrive (an empty one is a close or an error) and how many bytes each \<open>send\<close> takes, so
  theorems over all sockets are theorems over every way the network cuts the stream or fails. A disk maps
  paths to bytes, and \<open>save\<close> is its list of file operations, so that it can be cut short.

  \<^bold>\<open>The interfaces.\<close> \<open>strict_weak_order\<close> is what sorting relies on (causes, candidates, objectives of
  a decision); \<open>ordered_map\<close> what the maps promise; \<open>codec\<close> and \<open>fixed_codec\<close>, extended by \<open>enumeration\<close>,
  what a writer and its reader promise (every field and record of the file and of the wire);
  \<open>evidence_window\<close> the contract of a window (insertion keeps it well-formed, the lazily sorted cache is the
  sorted samples); \<open>governor_invariant\<close> what makes a predicate hold in every reachable state; and
  \<open>kept_by_reports\<close> what lasts through the coordinator's scenarios. All are interpreted on the model.

  \<^bold>\<open>What the groups of lemmas show.\<close>
    \<^item> Evidence: \<open>ingest\<close> accepts exactly what is current, complete and consistent, and a refusal changes
      nothing; an accepted record reaches every enabled objective; windows are bounded, their cached order is
      the sorted evidence, and \<open>exact_quantile\<close> is the nearest rank of the rounded fraction.
    \<^item> Evaluation: the state reported is the documented function of evidence, thresholds and history
      (hysteresis included); causes and contributions account for the tail; the selected intervention is
      feasible and best; no action is suggested without a tail.
    \<^item> Authority: a dispatch happens only under the current authority, whatever happened in between; a
      change of any generation, an epoch or a load fences what was authorised before; \<open>decide\<close> acts on the
      worst objective and only with authority.
    \<^item> Runs: in every reachable state the maps are ordered, the windows bounded and of the current epoch;
      the governor refines an abstract lifecycle of interventions; after an epoch change an objective must
      be revalidated until evidence arrives; a request counts once, and an epoch that was left stays fenced.
    \<^item> Persistence: a saved governor within the limits of \<open>load\<close> is restored but for what the
      file leaves out, and one beyond them is refused; damage is detected
      before anything is changed; an interrupted save leaves the old or the new file recoverable; the JSON
      form of an evaluation reads back.
    \<^item> Distribution: frames and messages survive every segmentation; a worker's reports are ingested in
      order; the resumed coordinator refuses the past; from end to end, the driver reports success exactly
      when all scenarios passed and fresh evidence lifted the revalidation, which the reports of worker B
      alone do. The surviving workers outlive the coordinator, the order in which they come back does not
      matter to the second incarnation, and every process starts in the role its command line was built for.
    \<^item> The CUDA program: every order of its threads gives the same vector, without an access out of bounds; when
      the calls succeed and the clock advances it ends with the verdict over what it timed.

  \<^bold>\<open>Bounds and fuel.\<close> The recursions follow lists or have a measure: receiving and sending terminate by the
  bytes that are left, a worker's session by what is still to arrive. \<open>get_many\<close> and \<open>receive_reports\<close>
  count down the number the code counts up to. Only the printing of doubles takes fuel, 400 decimal places, and
  \<open>double_text_fuel\<close> shows that it reaches the first digit of every positive double. A worker that connects
  again takes its sockets from a list, and \<open>None\<close> is the list's end, not a result of the code. \<open>busy_wait\<close> may
  run for ever (\<open>None\<close>), and \<open>busy_wait_ends\<close> says when it ends.

  \<^bold>\<open>Not modelled.\<close> The mutex (every public operation is one step, the accessors that do not take it as well);
  Winsock, and what the operating system answers when sockets and processes are made, which is a parameter; console output other than the text of tailctl and the examples; the readings of
  the system's clocks and the times that the benchmark prints; the success of CUDA calls and the float
  operations of the device, which are parameters; the constructor's, destructor's and moves' memory
  management; the tests. Undefined behaviour has the meaning of the compiler and machine that the code
  targets: signed overflow wraps, a conversion out of range gives the indefinite integer.
\<close>

end
